(* ===== verification/Prelude.thy ===== *)
theory Prelude
  imports Main "HOL-Library.Word" "HOL-Library.Char_ord" "HOL-Library.Code_Target_Nat"
begin

text \<open>
  The vocabulary every component shares: the machine types, the operations of
  \<open>std::string_view\<close> the program calls (\<open>find\<close>, \<open>rfind\<close>, \<open>find_first_of\<close>,
  \<open>substr\<close>), the conversions \<open>std::from_chars\<close> and \<open>std::to_chars\<close>, and the generic
  lemmas about them.

  Conventions.  A C++ \<open>std::string\<close> or \<open>std::string_view\<close> is a \<open>string\<close>, one \<open>char\<close>
  (eight bits) per byte.  A position or a length is a \<open>nat\<close>; \<open>npos\<close> is \<open>None\<close>.  A value of
  type \<open>std::size_t\<close> is a \<open>nat\<close> as well: the program subtracts such values only behind a
  comparison, and the one sum that could exceed 64 bits (\<open>would_exceed\<close>) is treated at its
  width in theory Limits.  A loop over a view that only advances is written as a recursion on
  the part of the view that is left.
\<close>

type_synonym size_t = "64 word"
type_synonym uint16 = "16 word"

abbreviation byte :: "char \<Rightarrow> nat"
  where "byte c \<equiv> of_char c"

abbreviation crlf :: string
  where "crlf \<equiv> [CHR 0x0D, CHR 0x0A]"

abbreviation htab :: char
  where "htab \<equiv> CHR 0x09"

text \<open>
  \<open>view\<close> collects the facts that take a successful search apart, \<open>view_app\<close> those that extend a
  search to a longer view.
\<close>

named_theorems view
named_theorems view_app

section \<open>Searching a view\<close>

text \<open>
  \<open>find_if p s\<close>: the first position whose element satisfies \<open>p\<close>, of a view or of a vector
  (\<open>std::find_if\<close>).
\<close>

fun find_if :: "('a \<Rightarrow> bool) \<Rightarrow> 'a list \<Rightarrow> nat option"
where
  "find_if p [] = None"
| "find_if p (c # cs) = (if p c then Some 0 else map_option Suc (find_if p cs))"

text \<open>\<open>s.find(c)\<close> and \<open>s.find_first_of(cs)\<close>.\<close>

abbreviation find_chr :: "char \<Rightarrow> string \<Rightarrow> nat option"
  where "find_chr c \<equiv> find_if (\<lambda>x. x = c)"

abbreviation find_first_of :: "string \<Rightarrow> string \<Rightarrow> nat option"
  where "find_first_of cs \<equiv> find_if (\<lambda>x. x \<in> set cs)"

text \<open>\<open>s.rfind(c)\<close>: the last position of a byte.\<close>

fun rfind_chr :: "char \<Rightarrow> string \<Rightarrow> nat option"
where
  "rfind_chr c [] = None"
| "rfind_chr c (x # xs) =
     (case rfind_chr c xs of
        Some i \<Rightarrow> Some (Suc i)
      | None \<Rightarrow> if x = c then Some 0 else None)"

text \<open>\<open>s.find(pat)\<close> for a pattern of several bytes.\<close>

fun find_str :: "string \<Rightarrow> string \<Rightarrow> nat option"
where
  "find_str pat [] = (if pat = [] then Some 0 else None)"
| "find_str pat (c # cs) =
     (if take (length pat) (c # cs) = pat then Some 0
      else map_option Suc (find_str pat cs))"

text \<open>\<open>s.find(pat, pos)\<close>, for \<open>pos \<le> s.size()\<close>.\<close>

definition find_from :: "(string \<Rightarrow> nat option) \<Rightarrow> string \<Rightarrow> nat \<Rightarrow> nat option"
  where "find_from f s pos = map_option (\<lambda>i. pos + i) (f (drop pos s))"

text \<open>\<open>s.substr(pos, n)\<close> and \<open>s.substr(0, n)\<close> where \<open>n\<close> may be \<open>npos\<close>.\<close>

definition substr :: "string \<Rightarrow> nat \<Rightarrow> nat \<Rightarrow> string"
  where "substr s pos n = take n (drop pos s)"

definition take_opt :: "nat option \<Rightarrow> string \<Rightarrow> string"
  where "take_opt n s = (case n of None \<Rightarrow> s | Some i \<Rightarrow> take i s)"

subsection \<open>What a search finds\<close>

lemma find_if_Some [view]:
  "find_if p s = Some i \<Longrightarrow>
     i < length s \<and> p (s ! i) \<and> (\<forall>x \<in> set (take i s). \<not> p x)
     \<and> s = take i s @ s ! i # drop (Suc i) s"
  by (induction s arbitrary: i) (auto split: if_splits)

lemma find_if_less: "find_if p s = Some i \<Longrightarrow> i < length s"
  by (drule find_if_Some) simp

lemma find_ifE [consumes 1]:
  assumes "find_if p s = Some i"
  obtains pre c post where "s = pre @ c # post" "length pre = i" "p c" "\<forall>x \<in> set pre. \<not> p x"
proof -
  from find_if_Some [OF assms]
  have "i < length s" "p (s ! i)" "\<forall>x \<in> set (take i s). \<not> p x" by simp_all
  then show ?thesis
    using that [of "take i s" "s ! i" "drop (Suc i) s"] id_take_nth_drop [of i s] by simp
qed

lemma find_if_None: "find_if p s = None \<longleftrightarrow> (\<forall>x \<in> set s. \<not> p x)"
  by (induction s) auto

lemma plus_0_fun: "(+) (0::nat) = (\<lambda>x. x)"
  by auto

lemma plus_Suc_fun: "(+) (Suc n) = (\<lambda>x. Suc (n + x))"
  by auto

lemma take_upto: "take (min (length xs) n) xs = take n xs"
  by (cases "length xs \<le> n") (simp_all add: min_def)

lemma take_rest: "\<exists>z. xs = take n xs @ z"
  by (metis append_take_drop_id)

lemma take_eq_length: "take (length p) s = p \<Longrightarrow> length p \<le> length s"
  by (metis length_take min.cobounded1)

lemma take_eq_append: "take (length p) s = p \<Longrightarrow> take (length p) (s @ t) = p"
  using take_eq_length [of p s] by simp

lemma find_if_append_miss:
  "\<forall>x \<in> set s. \<not> p x \<Longrightarrow> find_if p (s @ t) = map_option ((+) (length s)) (find_if p t)"
proof (induction s)
  case Nil
  then show ?case by (simp add: option.map_ident [unfolded id_def] plus_0_fun)
next
  case (Cons c cs)
  then show ?case by (simp add: option.map_comp comp_def plus_Suc_fun)
qed

lemma find_if_append_hit [view_app]:
  "find_if p s = Some i \<Longrightarrow> find_if p (s @ t) = Some i"
  by (induction s arbitrary: i) (auto split: if_splits)

lemma find_if_split:
  "\<forall>x \<in> set s. \<not> p x \<Longrightarrow> p c \<Longrightarrow> find_if p (s @ c # t) = Some (length s)"
  by (simp add: find_if_append_miss)

lemma find_str_Some [view]:
  "find_str pat s = Some i \<Longrightarrow>
     i + length pat \<le> length s \<and> take (length pat) (drop i s) = pat
     \<and> s = take i s @ pat @ drop (i + length pat) s"
proof (induction s arbitrary: i)
  case Nil
  then show ?case by (simp split: if_splits)
next
  case (Cons c cs)
  show ?case
  proof (cases "take (length pat) (c # cs) = pat")
    case True
    with Cons.prems have i: "i = 0" by simp
    have len: "length pat \<le> length (c # cs)"
      using True by (rule take_eq_length)
    show ?thesis
      using True i len append_take_drop_id [of "length pat" "c # cs"] by simp
  next
    case False
    with Cons.prems obtain j where j: "find_str pat cs = Some j" "i = Suc j" by auto
    from Cons.IH [OF j(1)] j(2) show ?thesis by simp
  qed
qed

lemma find_strE [consumes 1]:
  assumes "find_str pat s = Some i"
  obtains pre post where "s = pre @ pat @ post" "length pre = i"
proof -
  from find_str_Some [OF assms]
  have "i \<le> length s" and eq: "s = take i s @ pat @ drop (i + length pat) s" by simp_all
  then show ?thesis using that [OF eq] by simp
qed

lemma find_str_Some_le [view]:
  "find_str pat s = Some i \<Longrightarrow> i + length pat \<le> length s"
  by (drule find_str_Some) simp

lemma find_str_append_hit [view_app]:
  "find_str pat s = Some i \<Longrightarrow> find_str pat (s @ t) = Some i"
proof (induction s arbitrary: i)
  case Nil
  then show ?case by (cases t) (auto split: if_splits)
next
  case (Cons c cs)
  show ?case
  proof (cases "take (length pat) (c # cs) = pat")
    case True
    then have "take (length pat) ((c # cs) @ t) = pat" by (rule take_eq_append)
    with True Cons.prems show ?thesis by simp
  next
    case False
    with Cons.prems obtain j where j: "find_str pat cs = Some j" "i = Suc j" by auto
    have "length pat \<le> length cs"
      using find_str_Some_le [OF j(1)] by simp
    with False have "take (length pat) (c # cs @ t) \<noteq> pat"
      by (cases "length pat") auto
    with Cons.IH [OF j(1)] j show ?thesis by simp
  qed
qed

text \<open>
  When a view holds no match, a match in a longer view ends beyond it: it starts at most
  \<open>length pat - 1\<close> bytes before the end of the shorter view.
\<close>

lemma find_str_append_miss [view_app]:
  "find_str pat s = None \<Longrightarrow> find_str pat (s @ t) = Some i \<Longrightarrow> length s < i + length pat"
proof (induction s arbitrary: i)
  case Nil
  then show ?case by (auto split: if_splits)
next
  case (Cons c cs)
  from Cons.prems(1) have miss: "take (length pat) (c # cs) \<noteq> pat" and none: "find_str pat cs = None"
    by (auto split: if_splits)
  show ?case
  proof (cases "take (length pat) (c # cs @ t) = pat")
    case True
    with Cons.prems(2) have "i = 0" by simp
    moreover have "length (c # cs) < length pat"
    proof (rule ccontr)
      assume "\<not> length (c # cs) < length pat"
      then have "take (length pat) (c # cs @ t) = take (length pat) (c # cs)"
        using take_append [of "length pat" "c # cs" t] by simp
      with True miss show False by simp
    qed
    ultimately show ?thesis by simp
  next
    case False
    with Cons.prems(2) obtain j where j: "find_str pat (cs @ t) = Some j" "i = Suc j" by auto
    from Cons.IH [OF none j(1)] j(2) show ?thesis by simp
  qed
qed

lemma find_str_split:
  "pat \<noteq> [] \<Longrightarrow> hd pat \<notin> set s \<Longrightarrow> find_str pat (s @ pat @ t) = Some (length s)"
proof (induction s)
  case Nil
  then show ?case by (cases pat) auto
next
  case (Cons c cs)
  then have "take (length pat) (c # cs @ pat @ t) \<noteq> pat" by (cases pat) auto
  with Cons show ?case by simp
qed

lemma find_str_absent: "pat \<noteq> [] \<Longrightarrow> hd pat \<notin> set s \<Longrightarrow> find_str pat s = None"
proof (induction s)
  case Nil
  then show ?case by simp
next
  case (Cons c cs)
  then have "take (length pat) (c # cs) \<noteq> pat" by (cases pat) auto
  with Cons show ?case by simp
qed

lemma rfind_chr_None: "rfind_chr c s = None \<longleftrightarrow> c \<notin> set s"
  by (induction s) (auto split: option.splits if_splits)

lemma rfind_chr_Some [view]:
  "rfind_chr c s = Some i \<Longrightarrow>
     i < length s \<and> s ! i = c \<and> c \<notin> set (drop (Suc i) s) \<and> s = take i s @ c # drop (Suc i) s"
proof (induction s arbitrary: i)
  case Nil
  then show ?case by simp
next
  case (Cons x xs)
  then show ?case by (auto split: option.splits if_splits simp: rfind_chr_None)
qed

lemma rfind_chrE [consumes 1]:
  assumes "rfind_chr c s = Some i"
  obtains pre post where "s = pre @ c # post" "length pre = i" "c \<notin> set post"
proof -
  from rfind_chr_Some [OF assms]
  have "i < length s" "c \<notin> set (drop (Suc i) s)" and eq: "s = take i s @ c # drop (Suc i) s"
    by simp_all
  then show ?thesis using that [OF eq] by simp
qed

lemma find_from_Some [view]:
  "find_from f s pos = Some e \<longleftrightarrow> (\<exists>i. f (drop pos s) = Some i \<and> e = pos + i)"
  by (auto simp: find_from_def)

lemma find_from_None [simp]: "find_from f s pos = None \<longleftrightarrow> f (drop pos s) = None"
  by (simp add: find_from_def)

section \<open>Lines\<close>

lemma find_crlf_take: "find_str crlf s = Some e \<Longrightarrow> find_str crlf (take e s) = None"
proof (induction s arbitrary: e)
  case (Cons c cs)
  show ?case
  proof (cases "take 2 (c # cs) = crlf")
    case True
    with Cons.prems show ?thesis by (simp add: numeral_2_eq_2)
  next
    case False
    with Cons.prems obtain j where j: "find_str crlf cs = Some j" "e = Suc j"
      by (auto simp: numeral_2_eq_2)
    from False have "take 2 (c # take j cs) \<noteq> crlf"
      by (cases cs; cases j) (auto simp: numeral_2_eq_2)
    with Cons.IH [OF j(1)] j(2) show ?thesis by (simp add: numeral_2_eq_2)
  qed
qed simp

lemma find_crlf_line: "find_str crlf l = None \<Longrightarrow> find_str crlf (l @ crlf @ r) = Some (length l)"
proof (induction l)
  case (Cons c cs)
  then show ?case by (cases cs) (auto split: if_splits)
qed simp
lemma find_crlf_longer:
  assumes "find_str crlf a = Some e"
  shows "find_str crlf (a @ b) = Some e" "take e (a @ b) = take e a"
    "drop (Suc (Suc e)) (a @ b) = drop (Suc (Suc e)) a @ b"
  using find_str_append_hit [OF assms] find_str_Some_le [OF assms] by auto

section \<open>Splitting a view at a separator\<close>

text \<open>
  Three loops of the program walk over the parts of a view between separators (\<open>contains_token\<close>,
  the scan of \<open>Transfer-Encoding\<close>, \<open>remove_dot_segments\<close>).  \<open>split_on\<close> is what they visit.
\<close>

fun split_on :: "'a \<Rightarrow> 'a list \<Rightarrow> 'a list list"
where
  "split_on c [] = [[]]"
| "split_on c (x # xs) =
     (if x = c then [] # split_on c xs
      else (case split_on c xs of [] \<Rightarrow> [[x]] | y # ys \<Rightarrow> (x # y) # ys))"

fun join_with :: "'a list \<Rightarrow> 'a list list \<Rightarrow> 'a list"
where
  "join_with sep [] = []"
| "join_with sep [x] = x"
| "join_with sep (x # y # ys) = x @ sep @ join_with sep (y # ys)"

lemma split_on_nonempty [simp]: "split_on c s \<noteq> []"
  by (induction s) (auto split: list.splits)

lemma split_on_absent: "c \<notin> set s \<Longrightarrow> split_on c s = [s]"
  by (induction s) auto

lemma split_on_append_sep: "c \<notin> set s \<Longrightarrow> split_on c (s @ c # t) = s # split_on c t"
  by (induction s) auto

lemma split_on_append: "split_on c (s @ c # t) = split_on c s @ split_on c t"
proof (induction s)
  case (Cons x xs)
  obtain y ys where "split_on c xs = y # ys" by (cases "split_on c xs") auto
  with Cons show ?case by simp
qed simp

lemma split_on_find_None: "find_if (\<lambda>x. x = c) s = None \<Longrightarrow> split_on c s = [s]"
  by (auto simp: find_if_None intro: split_on_absent)

lemma split_on_find_Some:
  assumes "find_if (\<lambda>x. x = c) s = Some i"
  shows "split_on c s = take i s # split_on c (drop (Suc i) s)"
proof -
  from find_if_Some [OF assms] have "s = take i s @ c # drop (Suc i) s" "c \<notin> set (take i s)"
    by auto
  then show ?thesis using split_on_append_sep by metis
qed

lemma split_on_sep_free: "p \<in> set (split_on c s) \<Longrightarrow> c \<notin> set p"
proof (induction s arbitrary: p)
  case Nil
  then show ?case by simp
next
  case (Cons x xs)
  obtain y ys where "split_on c xs = y # ys" by (cases "split_on c xs") auto
  with Cons show ?case by (auto split: if_splits)
qed

lemma join_split: "join_with [c] (split_on c s) = s"
proof (induction s)
  case Nil
  then show ?case by simp
next
  case (Cons x xs)
  obtain y ys where "split_on c xs = y # ys" by (cases "split_on c xs") auto
  with Cons show ?case by (cases ys) auto
qed

lemma split_join:
  "ps \<noteq> [] \<Longrightarrow> \<forall>p \<in> set ps. c \<notin> set p \<Longrightarrow> split_on c (join_with [c] ps) = ps"
  by (induction "[c]" ps rule: join_with.induct) (auto simp: split_on_absent split_on_append_sep)

end
