(* ===== verification/Ascii.thy ===== *)
theory Ascii
  imports Prelude
begin

text \<open>
  The byte classes and the text helpers that \<open>src/core/headers.cpp\<close>, \<open>src/core/url.cpp\<close>,
  \<open>src/core/client.cpp\<close> and the files of \<open>src/http/\<close> each define in their unnamed namespace with
  the same body: case folding, HTTP token and field-value bytes, trimming of optional white space
  and the search for a token of a comma-separated list.  \<open>Local_Helpers\<close> translates the
  other copies and compares them with these.
\<close>

definition ascii_lower :: "char \<Rightarrow> char"
where
  "ascii_lower ch =
     (if CHR ''A'' \<le> ch \<and> ch \<le> CHR ''Z'' then char_of (byte ch + (byte (CHR ''a'') - byte (CHR ''A'')))
      else ch)"

definition ascii_iequals :: "string \<Rightarrow> string \<Rightarrow> bool"
where
  "ascii_iequals lhs rhs =
     (if length lhs \<noteq> length rhs then False
      else list_all2 (\<lambda>a b. ascii_lower a = ascii_lower b) lhs rhs)"

definition is_tchar :: "char \<Rightarrow> bool"
where
  "is_tchar ch =
     ((CHR ''0'' \<le> ch \<and> ch \<le> CHR ''9'') \<or> (CHR ''A'' \<le> ch \<and> ch \<le> CHR ''Z'')
      \<or> (CHR ''a'' \<le> ch \<and> ch \<le> CHR ''z'')
      \<or> ch \<in> set [CHR ''!'', CHR ''#'', CHR ''$'', CHR ''%'', CHR ''&'', CHR 0x27, CHR ''*'',
                 CHR ''+'', CHR ''-'', CHR ''.'', CHR ''^'', CHR ''_'', CHR 0x60, CHR ''|'',
                 CHR ''~''])"

definition is_ows :: "char \<Rightarrow> bool"
  where "is_ows ch = (ch = CHR '' '' \<or> ch = htab)"

definition valid_field_name :: "string \<Rightarrow> bool"
  where "valid_field_name name = (if name = [] then False else list_all is_tchar name)"

definition field_byte :: "char \<Rightarrow> bool"
  where "field_byte ch = (if ch = htab then True else \<not> (byte ch < 0x20 \<or> byte ch = 0x7f))"

definition valid_field_value :: "string \<Rightarrow> bool"
  where "valid_field_value value = list_all field_byte value"

definition trim_ows :: "string \<Rightarrow> string"
  where "trim_ows value = rev (dropWhile is_ows (rev (dropWhile is_ows value)))"

function contains_token :: "string \<Rightarrow> string \<Rightarrow> bool"
where
  "contains_token value expected =
     (case find_chr (CHR '','') value of
        None \<Rightarrow> ascii_iequals (trim_ows value) expected
      | Some comma \<Rightarrow>
          ascii_iequals (trim_ows (take comma value)) expected
          \<or> contains_token (drop (Suc comma) value) expected)"
  by pat_completeness auto
termination
  by (relation "measure (\<lambda>(v, _). length v)") (auto dest: find_if_less)

declare contains_token.simps [simp del]

section \<open>Case folding\<close>

lemma ascii_iequals_map: "ascii_iequals a b \<longleftrightarrow> map ascii_lower a = map ascii_lower b"
proof -
  have "list_all2 (\<lambda>x y. ascii_lower x = ascii_lower y) a b \<longleftrightarrow> map ascii_lower a = map ascii_lower b"
    by (simp add: list_all2_conv_all_nth list_eq_iff_nth_eq) auto
  moreover have "map ascii_lower a = map ascii_lower b \<Longrightarrow> length a = length b"
    by (rule map_eq_imp_length_eq)
  ultimately show ?thesis by (auto simp: ascii_iequals_def)
qed

lemma ascii_iequals_refl [simp]: "ascii_iequals a a"
  by (simp add: ascii_iequals_map)

lemma ascii_iequals_sym: "ascii_iequals a b \<longleftrightarrow> ascii_iequals b a"
  by (auto simp: ascii_iequals_map)

lemma ascii_iequals_trans: "ascii_iequals a b \<Longrightarrow> ascii_iequals b c \<Longrightarrow> ascii_iequals a c"
  by (simp add: ascii_iequals_map)

lemma ascii_iequals_cong: "ascii_iequals a b \<Longrightarrow> ascii_iequals a c \<longleftrightarrow> ascii_iequals b c"
  by (simp add: ascii_iequals_map)

lemma ascii_lower_idem [simp]: "ascii_lower (ascii_lower c) = ascii_lower c"
  by (auto simp: ascii_lower_def less_eq_char_def)

lemma map_ascii_lower_iequals: "ascii_iequals (map ascii_lower a) a"
  by (simp add: ascii_iequals_map)

section \<open>What the byte classes exclude\<close>

lemma is_tchar_excludes:
  "is_tchar c \<Longrightarrow>
     c \<noteq> CHR '' '' \<and> c \<noteq> htab \<and> c \<noteq> CHR 0x0D \<and> c \<noteq> CHR 0x0A \<and> c \<noteq> CHR '':'' \<and> c \<noteq> CHR '';''
     \<and> c \<noteq> CHR ''='' \<and> c \<noteq> CHR '','' \<and> c \<noteq> CHR 0x22"
  by (auto simp: is_tchar_def less_eq_char_def)

lemma field_byte_excludes: "field_byte c \<Longrightarrow> c \<noteq> CHR 0x0D \<and> c \<noteq> CHR 0x0A"
  by (auto simp: field_byte_def)

lemma valid_field_name_no_crlf:
  "valid_field_name n \<Longrightarrow> CHR 0x0D \<notin> set n \<and> CHR 0x0A \<notin> set n \<and> CHR '':'' \<notin> set n"
  by (auto simp: valid_field_name_def list_all_iff split: if_splits dest: is_tchar_excludes)

lemma valid_field_value_no_crlf:
  "valid_field_value v \<Longrightarrow> CHR 0x0D \<notin> set v \<and> CHR 0x0A \<notin> set v"
  by (auto simp: valid_field_value_def list_all_iff dest: field_byte_excludes)

section \<open>Trimming\<close>

lemma set_trim_ows: "set (trim_ows v) \<subseteq> set v"
  unfolding trim_ows_def by (metis set_dropWhileD set_rev subsetI)

lemma trim_ows_ends:
  "trim_ows v = [] \<or> (\<not> is_ows (hd (trim_ows v)) \<and> \<not> is_ows (last (trim_ows v)))"
proof -
  define w where "w = dropWhile is_ows v"
  have w: "w = [] \<or> \<not> is_ows (hd w)"
    unfolding w_def using hd_dropWhile by blast
  obtain u where u: "rev w = u @ dropWhile is_ows (rev w)"
    by (metis takeWhile_dropWhile_id)
  have t: "trim_ows v = rev (dropWhile is_ows (rev w))" by (simp add: trim_ows_def w_def)
  show ?thesis
  proof (cases "trim_ows v = []")
    case False
    then have ne: "dropWhile is_ows (rev w) \<noteq> []" by (simp add: t)
    have "\<not> is_ows (hd (dropWhile is_ows (rev w)))" using ne by (rule hd_dropWhile)
    then have l: "\<not> is_ows (last (trim_ows v))" using ne by (simp add: t last_rev)
    from u have "w = trim_ows v @ rev u" by (metis rev_append rev_rev_ident t)
    then have "hd w = hd (trim_ows v)" using False by (metis hd_append2)
    moreover have "w \<noteq> []" using ne by auto
    ultimately show ?thesis using w l by simp
  qed simp
qed

lemma trim_ows_id:
  "v = [] \<or> (\<not> is_ows (hd v) \<and> \<not> is_ows (last v)) \<Longrightarrow> trim_ows v = v"
proof (cases v)
  case (Cons c cs)
  moreover assume "v = [] \<or> (\<not> is_ows (hd v) \<and> \<not> is_ows (last v))"
  ultimately have "dropWhile is_ows v = v" "dropWhile is_ows (rev v) = rev v"
    by (auto simp: dropWhile_eq_self_iff hd_append hd_rev)
  then show ?thesis by (simp add: trim_ows_def)
qed (simp add: trim_ows_def)

lemma trim_ows_pad [simp]: "is_ows c \<Longrightarrow> trim_ows (c # v) = trim_ows v"
  by (simp add: trim_ows_def)

section \<open>Token lists\<close>

theorem contains_token_iff:
  "contains_token v e \<longleftrightarrow>
     (\<exists>t \<in> set (split_on (CHR '','') v). ascii_iequals (trim_ows t) e)"
proof (induction v e rule: contains_token.induct)
  case (1 v e)
  show ?case
  proof (cases "find_chr (CHR '','') v")
    case None
    then show ?thesis
      by (subst contains_token.simps) (simp add: split_on_find_None)
  next
    case (Some i)
    with "1.IH" show ?thesis
      by (subst contains_token.simps) (simp add: split_on_find_Some [OF Some])
  qed
qed

end
