(* ===== verification/Header_Fields.thy ===== *)
theory Header_Fields
  imports Ascii
begin

text \<open>
  \<open>Headers\<close> of \<open>include/cpp_request/headers.hpp\<close> and \<open>src/core/headers.cpp\<close>: an ordered vector
  of fields with case-insensitive lookup, in which duplicates are kept.  The locale \<open>field_map\<close>
  is the contract its clients use (the response parser, the redirect loop and the serializer add
  fields, look them up and iterate); the interpretation at the end discharges it for the code's
  operations.
\<close>

record field =
  field_name :: string
  field_value :: string

type_synonym headers = "field list"

definition mk_field :: "string \<Rightarrow> string \<Rightarrow> field"
  where "mk_field n v = \<lparr>field_name = n, field_value = v\<rparr>"

definition headers_add :: "headers \<Rightarrow> string \<Rightarrow> string \<Rightarrow> headers"
  where "headers_add h name v = h @ [mk_field name v]"

definition headers_set :: "headers \<Rightarrow> string \<Rightarrow> string \<Rightarrow> headers"
where
  "headers_set h name v =
     (case find_if (\<lambda>f. ascii_iequals (field_name f) name) h of
        None \<Rightarrow> h @ [mk_field name v]
      | Some first \<Rightarrow>
          take first h
          @ (h ! first)\<lparr>field_name := name, field_value := v\<rparr>
          # filter (\<lambda>f. \<not> ascii_iequals (field_name f) name) (drop (Suc first) h))"

definition headers_contains :: "headers \<Rightarrow> string \<Rightarrow> bool"
  where "headers_contains h name = list_ex (\<lambda>f. ascii_iequals (field_name f) name) h"

definition headers_get :: "headers \<Rightarrow> string \<Rightarrow> string"
where
  "headers_get h name =
     (case find_if (\<lambda>f. ascii_iequals (field_name f) name) h of
        None \<Rightarrow> []
      | Some found \<Rightarrow> field_value (h ! found))"

definition headers_size :: "headers \<Rightarrow> nat"
  where "headers_size h = length h"

definition headers_empty :: "headers \<Rightarrow> bool"
  where "headers_empty h = (h = [])"

section \<open>The contract of a header map\<close>

text \<open>
  \<open>values h n\<close> lists the values stored under a name in their order, whatever the letter case of
  the stored name.  It is the abstraction in which the contract is stated.
\<close>

definition values_of :: "headers \<Rightarrow> string \<Rightarrow> string list"
  where "values_of h n = map field_value (filter (\<lambda>f. ascii_iequals (field_name f) n) h)"

locale field_map =
  fixes add :: "'h \<Rightarrow> string \<Rightarrow> string \<Rightarrow> 'h"
    and put :: "'h \<Rightarrow> string \<Rightarrow> string \<Rightarrow> 'h"
    and has :: "'h \<Rightarrow> string \<Rightarrow> bool"
    and get :: "'h \<Rightarrow> string \<Rightarrow> string"
    and vals :: "'h \<Rightarrow> string \<Rightarrow> string list"
  assumes vals_cong: "ascii_iequals m n \<Longrightarrow> vals h m = vals h n"
    and vals_add: "vals (add h m v) n = (if ascii_iequals m n then vals h n @ [v] else vals h n)"
    and vals_put: "vals (put h m v) n = (if ascii_iequals m n then [v] else vals h n)"
    and has_vals: "has h n \<longleftrightarrow> vals h n \<noteq> []"
    and get_vals: "get h n = (case vals h n of [] \<Rightarrow> [] | v # vs \<Rightarrow> v)"
begin

lemma get_put_same: "ascii_iequals m n \<Longrightarrow> get (put h m v) n = v"
  by (simp add: get_vals vals_put)

lemma get_put_other: "\<not> ascii_iequals m n \<Longrightarrow> get (put h m v) n = get h n"
  by (simp add: get_vals vals_put)

lemma put_single: "ascii_iequals m n \<Longrightarrow> vals (put h m v) n = [v]"
  by (simp add: vals_put)

lemma put_put: "ascii_iequals m m' \<Longrightarrow> vals (put (put h m v) m' w) n = vals (put h m' w) n"
  by (auto simp: vals_put ascii_iequals_cong)

lemma get_add_first: "has h n \<Longrightarrow> get (add h m v) n = get h n"
  by (auto simp: has_vals get_vals vals_add split: list.splits)

lemma get_add_new: "\<not> has h n \<Longrightarrow> ascii_iequals m n \<Longrightarrow> get (add h m v) n = v"
  by (simp add: has_vals get_vals vals_add)

lemma has_add: "has (add h m v) n \<longleftrightarrow> ascii_iequals m n \<or> has h n"
  by (simp add: has_vals vals_add)

lemma lookup_case_insensitive: "ascii_iequals m n \<Longrightarrow> has h m = has h n \<and> get h m = get h n"
  by (metis has_vals get_vals vals_cong)

end

section \<open>The code's header vector meets the contract\<close>

lemma find_field_filter:
  "find_if p h = Some i \<Longrightarrow>
     filter p (take i h) = [] \<and> filter p h = h ! i # filter p (drop (Suc i) h)"
proof -
  assume "find_if p h = Some i"
  from find_if_Some [OF this] have
    none: "filter p (take i h) = []" and hit: "p (h ! i)"
    and h: "h = take i h @ h ! i # drop (Suc i) h"
    by (simp_all add: filter_empty_conv)
  have "filter p h = filter p (take i h @ h ! i # drop (Suc i) h)" using h by simp
  with none hit show ?thesis by simp
qed

lemma values_of_add:
  "values_of (headers_add h m v) n = (if ascii_iequals m n then values_of h n @ [v] else values_of h n)"
  by (simp add: values_of_def headers_add_def mk_field_def)

lemma filter_filter_same:
  "ascii_iequals m n \<Longrightarrow>
     filter (\<lambda>f. ascii_iequals (field_name f) n) (filter (\<lambda>f. \<not> ascii_iequals (field_name f) m) h) = []"
  by (auto simp: filter_empty_conv ascii_iequals_map)

lemma filter_filter_other:
  "\<not> ascii_iequals m n \<Longrightarrow>
     filter (\<lambda>f. ascii_iequals (field_name f) n) (filter (\<lambda>f. \<not> ascii_iequals (field_name f) m) h)
     = filter (\<lambda>f. ascii_iequals (field_name f) n) h"
  by (auto simp: filter_filter ascii_iequals_map intro!: filter_cong)

lemma values_of_set:
  "values_of (headers_set h m v) n = (if ascii_iequals m n then [v] else values_of h n)"
proof (cases "find_if (\<lambda>f. ascii_iequals (field_name f) m) h")
  case None
  then have "\<forall>f \<in> set h. \<not> ascii_iequals (field_name f) m" by (simp add: find_if_None)
  then have "ascii_iequals m n \<Longrightarrow> filter (\<lambda>f. ascii_iequals (field_name f) n) h = []"
    by (auto simp: filter_empty_conv ascii_iequals_map)
  with None show ?thesis by (simp add: headers_set_def values_of_def mk_field_def)
next
  case (Some i)
  note found = find_if_Some [OF Some]
  show ?thesis
  proof (cases "ascii_iequals m n")
    case True
    then have "filter (\<lambda>f. ascii_iequals (field_name f) n) (take i h) = []"
      using found by (auto simp: filter_empty_conv ascii_iequals_map)
    with True Some show ?thesis
      by (simp add: headers_set_def values_of_def filter_filter_same del: filter_filter)
  next
    case False
    have "h = take i h @ h ! i # drop (Suc i) h" and "\<not> ascii_iequals (field_name (h ! i)) n"
      using found False by (auto simp: ascii_iequals_map)
    then have "filter (\<lambda>f. ascii_iequals (field_name f) n) h
        = filter (\<lambda>f. ascii_iequals (field_name f) n) (take i h)
          @ filter (\<lambda>f. ascii_iequals (field_name f) n) (drop (Suc i) h)"
      by (metis (no_types, lifting) filter.simps(2) filter_append)
    with False Some show ?thesis
      by (simp add: headers_set_def values_of_def filter_filter_other del: filter_filter)
  qed
qed

lemma headers_get_values:
  "headers_get h n = (case values_of h n of [] \<Rightarrow> [] | v # vs \<Rightarrow> v)"
proof (cases "find_if (\<lambda>f. ascii_iequals (field_name f) n) h")
  case None
  then have "values_of h n = []"
    by (simp add: values_of_def filter_empty_conv find_if_None)
  with None show ?thesis by (simp add: headers_get_def)
next
  case (Some i)
  then have "values_of h n = field_value (h ! i) # values_of (drop (Suc i) h) n"
    by (simp add: values_of_def find_field_filter)
  with Some show ?thesis by (simp add: headers_get_def)
qed

interpretation hdr: field_map headers_add headers_set headers_contains headers_get values_of
proof unfold_locales
  show "values_of h m = values_of h n" if "ascii_iequals m n" for m n h
    using that by (simp add: values_of_def ascii_iequals_map)
  show "headers_contains h n \<longleftrightarrow> values_of h n \<noteq> []" for h n
    by (auto simp: headers_contains_def values_of_def list_ex_iff filter_empty_conv)
qed (simp_all add: values_of_add values_of_set headers_get_values)

section \<open>Properties\<close>



lemma filter_other_set:
  "filter (\<lambda>f. \<not> ascii_iequals (field_name f) m) (headers_set h m v)
   = filter (\<lambda>f. \<not> ascii_iequals (field_name f) m) h"
proof (cases "find_if (\<lambda>f. ascii_iequals (field_name f) m) h")
  case None
  then show ?thesis by (simp add: headers_set_def mk_field_def)
next
  case (Some i)
  from find_if_Some [OF Some] have "h = take i h @ h ! i # drop (Suc i) h"
    and hit: "ascii_iequals (field_name (h ! i)) m" by blast+
  then have "filter (\<lambda>f. \<not> ascii_iequals (field_name f) m) h
      = filter (\<lambda>f. \<not> ascii_iequals (field_name f) m) (take i h)
        @ filter (\<lambda>f. \<not> ascii_iequals (field_name f) m) (drop (Suc i) h)"
    by (metis (no_types, lifting) filter.simps(2) filter_append)
  with Some hit show ?thesis by (simp add: headers_set_def)
qed

text \<open>
  C37: \<open>Headers::set\<close> leaves exactly one value under the name, whatever the case of the name and
  however many there were, and it changes neither the values nor the order of the other fields.
  \<open>Headers::get\<close> agrees.
\<close>

theorem headers_set_replaces:
  "values_of (headers_set h m v) n = (if ascii_iequals m n then [v] else values_of h n)
   \<and> headers_get (headers_set h m v) n = (if ascii_iequals m n then v else headers_get h n)
   \<and> filter (\<lambda>f. \<not> ascii_iequals (field_name f) m) (headers_set h m v)
     = filter (\<lambda>f. \<not> ascii_iequals (field_name f) m) h"
  by (simp add: values_of_set hdr.get_put_same hdr.get_put_other filter_other_set)

end
