(* ===== verification/Request_Model.thy ===== *)
theory Request_Model
  imports Header_Fields
begin

text \<open>
  \<open>Request\<close> of \<open>include/cpp_request/request.hpp\<close>: the method, the URL text, the header fields, the
  body and the query parameters, in the order they were added.  The class borrows the URL and the
  body as views; the model takes their contents at the time of the call.
\<close>

datatype http_method = Get | Head | Post | Put | Patch | Delete

text \<open>The methods are an enumeration, so a statement about all of them is evaluated.\<close>

instantiation http_method :: enum
begin

definition enum_http_method :: "http_method list"
  where "enum_http_method = [Get, Head, Post, Put, Patch, Delete]"

definition enum_all_http_method :: "(http_method \<Rightarrow> bool) \<Rightarrow> bool"
  where "enum_all_http_method P = list_all P enum_class.enum"

definition enum_ex_http_method :: "(http_method \<Rightarrow> bool) \<Rightarrow> bool"
  where "enum_ex_http_method P = list_ex P enum_class.enum"

instance
proof
  have all: "m \<in> set enum_class.enum" for m :: http_method
    by (cases m) (simp_all add: enum_http_method_def)
  then show "(UNIV :: http_method set) = set enum_class.enum" by auto
  show "distinct (enum_class.enum :: http_method list)" by (simp add: enum_http_method_def)
  show "enum_class.enum_all P \<longleftrightarrow> Ball UNIV P" for P :: "http_method \<Rightarrow> bool"
    using all by (auto simp: enum_all_http_method_def list_all_iff)
  show "enum_class.enum_ex P \<longleftrightarrow> Bex UNIV P" for P :: "http_method \<Rightarrow> bool"
    using all by (auto simp: enum_ex_http_method_def list_ex_iff)
qed

end

record query_param =
  qp_name :: string
  qp_value :: string

record request =
  req_method :: http_method
  req_url :: string
  req_headers :: headers
  req_body :: string
  req_params :: "query_param list"

definition mk_request :: "http_method \<Rightarrow> string \<Rightarrow> request"
where
  "mk_request m u =
     \<lparr>req_method = m, req_url = u, req_headers = [], req_body = [], req_params = []\<rparr>"

definition set_body :: "request \<Rightarrow> string \<Rightarrow> request"
  where "set_body r body = r\<lparr>req_body := body\<rparr>"

definition add_query_param :: "request \<Rightarrow> string \<Rightarrow> string \<Rightarrow> request"
  where "add_query_param r n v = r\<lparr>req_params := req_params r @ [\<lparr>qp_name = n, qp_value = v\<rparr>]\<rparr>"

lemma add_query_param_others [simp]:
  "req_params (add_query_param r n v) = req_params r @ [\<lparr>qp_name = n, qp_value = v\<rparr>]"
  "req_url (add_query_param r n v) = req_url r" "req_method (add_query_param r n v) = req_method r"
  "req_headers (add_query_param r n v) = req_headers r" "req_body (add_query_param r n v) = req_body r"
  by (simp_all add: add_query_param_def)

end
