(* ===== verification/Char_Conv.thy ===== *)
theory Char_Conv
  imports Prelude
begin

text \<open>
  The two conversions of the C++ standard library the program relies on, as the standard
  documents them: \<open>std::from_chars\<close> for an unsigned integer of a given width (it reads the
  longest prefix of digits, reports \<open>invalid_argument\<close> when there is none and
  \<open>result_out_of_range\<close> when the value does not fit) and \<open>std::to_chars\<close>/\<open>std::to_string\<close>.
  The lemmas give the exact set of accepted texts and the round trip.
\<close>

datatype errc = Errc_ok | Errc_invalid_argument | Errc_out_of_range

definition digit_val :: "char \<Rightarrow> nat option"
where
  "digit_val c =
     (if CHR ''0'' \<le> c \<and> c \<le> CHR ''9'' then Some (byte c - 48)
      else if CHR ''a'' \<le> c \<and> c \<le> CHR ''f'' then Some (byte c - 87)
      else if CHR ''A'' \<le> c \<and> c \<le> CHR ''F'' then Some (byte c - 55)
      else None)"

definition is_digit :: "nat \<Rightarrow> char \<Rightarrow> bool"
  where "is_digit base c = (case digit_val c of None \<Rightarrow> False | Some d \<Rightarrow> d < base)"

fun digits_value :: "nat \<Rightarrow> nat \<Rightarrow> string \<Rightarrow> nat"
where
  "digits_value base acc [] = acc"
| "digits_value base acc (c # cs) =
     digits_value base (acc * base + (case digit_val c of None \<Rightarrow> 0 | Some d \<Rightarrow> d)) cs"

text \<open>
  \<open>from_chars base bits s\<close>: error code, number of bytes consumed, and the value written (0 stands
  for a target that is left unmodified, which the program never reads after an error).
\<close>

definition from_chars :: "nat \<Rightarrow> nat \<Rightarrow> string \<Rightarrow> errc \<times> nat \<times> nat"
where
  "from_chars base bits s =
     (let ds = takeWhile (is_digit base) s; v = digits_value base 0 ds in
      if ds = [] then (Errc_invalid_argument, 0, 0)
      else if v < 2 ^ bits then (Errc_ok, length ds, v)
      else (Errc_out_of_range, length ds, 0))"

text \<open>
  Every caller accepts only a conversion that succeeds and consumes the whole text:
  \<open>parsed.ec == std::errc{} && parsed.ptr == last\<close>.
\<close>

definition from_chars_all :: "nat \<Rightarrow> nat \<Rightarrow> string \<Rightarrow> nat option"
where
  "from_chars_all base bits s =
     (case from_chars base bits s of
        (ec, consumed, v) \<Rightarrow> if ec = Errc_ok \<and> consumed = length s then Some v else None)"

definition digit_char :: "nat \<Rightarrow> char"
  where "digit_char d = (if d < 10 then char_of (48 + d) else char_of (55 + d))"

function to_digits :: "nat \<Rightarrow> nat \<Rightarrow> string"
where
  "to_digits base n =
     (if base < 2 \<or> n < base then [digit_char n]
      else to_digits base (n div base) @ [digit_char (n mod base)])"
  by pat_completeness auto
termination
  by (relation "measure snd") auto

declare to_digits.simps [simp del]

text \<open>\<open>std::to_string\<close> and \<open>std::to_chars\<close> in base 10.\<close>

definition to_decimal :: "nat \<Rightarrow> string"
  where "to_decimal n = to_digits 10 n"

section \<open>Which texts are accepted\<close>

lemma takeWhile_whole: "length (takeWhile p s) = length s \<longleftrightarrow> (\<forall>c \<in> set s. p c)"
  by (metis takeWhile_eq_all_conv takeWhile_eq_take take_all_iff length_take min_def nat_le_linear)

theorem from_chars_all_Some:
  "from_chars_all base bits s = Some v \<longleftrightarrow>
     s \<noteq> [] \<and> (\<forall>c \<in> set s. is_digit base c) \<and> v = digits_value base 0 s \<and> v < 2 ^ bits"
proof (cases "\<forall>c \<in> set s. is_digit base c")
  case True
  then have "takeWhile (is_digit base) s = s" by (simp add: takeWhile_eq_all_conv)
  with True show ?thesis
    by (auto simp: from_chars_all_def from_chars_def Let_def simp del: takeWhile_eq_all_conv)
next
  case False
  then have "length (takeWhile (is_digit base) s) \<noteq> length s" by (simp add: takeWhile_whole)
  with False show ?thesis by (auto simp: from_chars_all_def from_chars_def Let_def)
qed

lemma from_chars_all_less: "from_chars_all base bits s = Some v \<Longrightarrow> v < 2 ^ bits"
  by (simp add: from_chars_all_Some)

lemma digits_value_append:
  "digits_value base acc (xs @ ys) = digits_value base (digits_value base acc xs) ys"
  by (induction xs arbitrary: acc) auto

section \<open>Round trip\<close>

lemma digit_val_digit_char:
  assumes "d < 16"
  shows "digit_val (digit_char d) = Some d"
proof -
  have "d \<in> {0..<16}" using assms by simp
  also have "{0..<16::nat} = {0,1,2,3,4,5,6,7,8,9,10,11,12,13,14,15}" by code_simp
  finally show ?thesis
    by (elim insertE emptyE) (simp_all add: digit_char_def digit_val_def less_eq_char_def)
qed

lemma to_digits_nonempty [simp]: "to_digits base n \<noteq> []"
  by (subst to_digits.simps) simp

lemma to_digits_digits:
  "2 \<le> base \<Longrightarrow> base \<le> 16 \<Longrightarrow> \<forall>c \<in> set (to_digits base n). is_digit base c"
proof (induction base n rule: to_digits.induct)
  case (1 base n)
  have one: "is_digit base (digit_char d)" if "d < base" for d
    using that "1.prems" by (simp add: is_digit_def digit_val_digit_char)
  show ?case
    using "1.prems" one "1.IH" by (subst to_digits.simps) auto
qed

lemma to_digits_value:
  "2 \<le> base \<Longrightarrow> base \<le> 16 \<Longrightarrow> digits_value base 0 (to_digits base n) = n"
proof (induction base n rule: to_digits.induct)
  case (1 base n)
  show ?case
  proof (cases "n < base")
    case True
    with "1.prems" show ?thesis
      by (subst to_digits.simps) (simp add: digit_val_digit_char)
  next
    case False
    moreover have "n mod base < 16" using "1.prems" mod_less_divisor [of base n] by linarith
    ultimately show ?thesis
      using "1.IH" "1.prems"
      by (subst to_digits.simps) (simp add: digits_value_append digit_val_digit_char)
  qed
qed

theorem from_chars_to_digits:
  "2 \<le> base \<Longrightarrow> base \<le> 16 \<Longrightarrow> n < 2 ^ bits \<Longrightarrow>
     from_chars_all base bits (to_digits base n) = Some n"
  by (simp add: from_chars_all_Some to_digits_digits to_digits_value)

corollary from_chars_to_decimal:
  "n < 2 ^ bits \<Longrightarrow> from_chars_all 10 bits (to_decimal n) = Some n"
  by (simp add: to_decimal_def from_chars_to_digits)

lemma length_to_digits_le:
  "2 \<le> base \<Longrightarrow> n < base ^ Suc k \<Longrightarrow> length (to_digits base n) \<le> Suc k"
proof (induction k arbitrary: n)
  case 0
  then show ?case by (subst to_digits.simps) simp
next
  case (Suc k)
  from Suc.prems have "n div base < base ^ Suc k"
    by (simp add: less_mult_imp_div_less mult.commute)
  with Suc show ?case by (subst to_digits.simps) auto
qed

lemma is_digit_decimal: "is_digit 10 c \<longleftrightarrow> CHR ''0'' \<le> c \<and> c \<le> CHR ''9''"
  by (auto simp: is_digit_def digit_val_def less_eq_char_def split: if_splits)

end
