(* ===== verification/Errors.thy ===== *)
theory Errors
  imports Prelude
begin

text \<open>
  The error taxonomy of \<open>include/cpp_request/error.hpp\<close> and the sum type of
  \<open>include/cpp_request/result.hpp\<close>.  A \<open>Result<T>\<close> is \<open>error + 'a\<close>: \<open>Inl\<close> the \<open>Error\<close>, \<open>Inr\<close> the
  value.  The state-dependent accessors assert their precondition; a failed assertion is
  \<open>None\<close>.
\<close>

datatype error_code =
    InvalidUrl
  | UnsupportedScheme
  | InvalidPort
  | ResolveFailed
  | SocketCreateFailed
  | ConnectFailed
  | ConnectTimeout
  | WriteFailed
  | WriteTimeout
  | ReadFailed
  | ReadTimeout
  | ConnectionClosed
  | MalformedResponse
  | InvalidStatusLine
  | InvalidHeader
  | InvalidContentLength
  | InvalidChunkSize
  | InvalidChunkFraming
  | ConflictingMessageFraming
  | UnexpectedEof
  | ResponseLimitExceeded
  | RedirectLimitExceeded
  | MissingRedirectLocation
  | UnsupportedRedirectScheme
  | Unknown

record error =
  code :: error_code
  native_code :: int

type_synonym 'a result = "error + 'a"

text \<open>\<open>Error{code}\<close>, whose native code defaults to 0, and \<open>Error{code, native}\<close>.\<close>

abbreviation mk_error :: "error_code \<Rightarrow> error"
  where "mk_error c \<equiv> \<lparr>code = c, native_code = 0\<rparr>"

abbreviation fail :: "error_code \<Rightarrow> 'a result"
  where "fail c \<equiv> Inl (mk_error c)"

abbreviation fail_native :: "error_code \<Rightarrow> int \<Rightarrow> 'a result"
  where "fail_native c n \<equiv> Inl \<lparr>code = c, native_code = n\<rparr>"

fun error_message :: "error_code \<Rightarrow> string"
where
  "error_message InvalidUrl = ''invalid URL''"
| "error_message UnsupportedScheme = ''unsupported URL scheme''"
| "error_message InvalidPort = ''invalid port''"
| "error_message ResolveFailed = ''name resolution failed''"
| "error_message SocketCreateFailed = ''socket creation failed''"
| "error_message ConnectFailed = ''connection failed''"
| "error_message ConnectTimeout = ''connection timed out''"
| "error_message WriteFailed = ''write failed''"
| "error_message WriteTimeout = ''write timed out''"
| "error_message ReadFailed = ''read failed''"
| "error_message ReadTimeout = ''read timed out''"
| "error_message ConnectionClosed = ''connection closed''"
| "error_message MalformedResponse = ''malformed HTTP response''"
| "error_message InvalidStatusLine = ''invalid HTTP status line''"
| "error_message InvalidHeader = ''invalid HTTP header''"
| "error_message InvalidContentLength = ''invalid Content-Length''"
| "error_message InvalidChunkSize = ''invalid chunk size''"
| "error_message InvalidChunkFraming = ''invalid chunk framing''"
| "error_message ConflictingMessageFraming = ''conflicting HTTP message framing''"
| "error_message UnexpectedEof = ''unexpected end of stream''"
| "error_message ResponseLimitExceeded = ''response resource limit exceeded''"
| "error_message RedirectLimitExceeded = ''redirect limit exceeded''"
| "error_message MissingRedirectLocation = ''redirect location missing''"
| "error_message UnsupportedRedirectScheme = ''unsupported redirect scheme''"
| "error_message Unknown = ''unknown error''"

definition result_has_value :: "'a result \<Rightarrow> bool"
  where "result_has_value r = (case r of Inl e \<Rightarrow> False | Inr v \<Rightarrow> True)"

definition result_value :: "'a result \<Rightarrow> 'a option"
  where "result_value r = (case r of Inl e \<Rightarrow> None | Inr v \<Rightarrow> Some v)"

definition result_error :: "'a result \<Rightarrow> error option"
  where "result_error r = (case r of Inl e \<Rightarrow> Some e | Inr v \<Rightarrow> None)"

text \<open>The converting constructors and the named ones.\<close>

definition result_of_value :: "'a \<Rightarrow> 'a result"
  where "result_of_value v = Inr v"

definition result_of_error :: "error \<Rightarrow> 'a result"
  where "result_of_error e = Inl e"

definition result_success :: "'a \<Rightarrow> 'a result"
  where "result_success v = Inr v"

definition result_failure :: "error \<Rightarrow> 'a result"
  where "result_failure e = Inl e"

lemma result_cases:
  "(\<exists>v. r = result_success v \<and> result_value r = Some v \<and> result_error r = None)
   \<or> (\<exists>e. r = result_failure e \<and> result_value r = None \<and> result_error r = Some e)"
  by (cases r) (simp_all add: result_success_def result_failure_def result_value_def result_error_def)

lemma result_accessors:
  "result_has_value r \<longleftrightarrow> result_value r \<noteq> None"
  "result_has_value r \<longleftrightarrow> result_error r = None"
  by (simp_all add: result_has_value_def result_value_def result_error_def split: sum.splits)

text \<open>The diagnostic texts are distinct, so a log line determines the code.\<close>

definition all_error_codes :: "error_code list"
where
  "all_error_codes =
     [InvalidUrl, UnsupportedScheme, InvalidPort, ResolveFailed, SocketCreateFailed,
      ConnectFailed, ConnectTimeout, WriteFailed, WriteTimeout, ReadFailed, ReadTimeout,
      ConnectionClosed, MalformedResponse, InvalidStatusLine, InvalidHeader,
      InvalidContentLength, InvalidChunkSize, InvalidChunkFraming,
      ConflictingMessageFraming, UnexpectedEof, ResponseLimitExceeded,
      RedirectLimitExceeded, MissingRedirectLocation, UnsupportedRedirectScheme, Unknown]"

lemma all_error_codes_complete: "c \<in> set all_error_codes"
  by (cases c) (simp_all add: all_error_codes_def)

lemma all_error_codes_distinct: "distinct all_error_codes"
  by (simp add: all_error_codes_def)

text \<open>The codes are an enumeration, so a statement about all of them is evaluated.\<close>

instantiation error_code :: enum
begin

definition enum_error_code :: "error_code list"
  where "enum_error_code = all_error_codes"

definition enum_all_error_code :: "(error_code \<Rightarrow> bool) \<Rightarrow> bool"
  where "enum_all_error_code P = list_all P all_error_codes"

definition enum_ex_error_code :: "(error_code \<Rightarrow> bool) \<Rightarrow> bool"
  where "enum_ex_error_code P = list_ex P all_error_codes"

instance
proof
  show "(UNIV :: error_code set) = set enum_class.enum"
    using all_error_codes_complete by (auto simp: enum_error_code_def)
  show "distinct (enum_class.enum :: error_code list)"
    by (simp add: enum_error_code_def all_error_codes_distinct)
  show "enum_class.enum_all P \<longleftrightarrow> Ball UNIV P" for P :: "error_code \<Rightarrow> bool"
    using all_error_codes_complete by (auto simp: enum_all_error_code_def list_all_iff)
  show "enum_class.enum_ex P \<longleftrightarrow> Bex UNIV P" for P :: "error_code \<Rightarrow> bool"
    using all_error_codes_complete by (auto simp: enum_ex_error_code_def list_ex_iff)
qed

end

lemma error_message_inject: "error_message a = error_message b \<longleftrightarrow> a = b"
proof -
  have "\<forall>a b. error_message a = error_message b \<longrightarrow> a = b" by code_simp
  then show ?thesis by blast
qed

end
