(* ===== verification/Url_Model.thy ===== *)
theory Url_Model
  imports Ascii Char_Conv Errors
begin

text \<open>
  \<open>Url\<close> of \<open>include/cpp_request/url.hpp\<close> and \<open>src/core/url.cpp\<close>.  \<open>inet_pton\<close> is code of the
  operating system: the predicate \<open>inet_pton6\<close> stands for
  \<open>inet_pton(AF_INET6, text, ...) == 1\<close> and is an argument of every definition that reaches it.

  The record keeps the storage and the spans into it exactly as the class does; the accessors cut
  the spans out.  The second half gives the grammar of what the parser accepts: \<open>url_parts\<close> are
  the components, \<open>render_url\<close> writes them down and \<open>mk_url\<close> is the object the parser builds.
\<close>

record url =
  url_storage :: string
  scheme_begin :: nat
  scheme_size :: nat
  host_begin :: nat
  host_size :: nat
  path_begin :: nat
  path_size :: nat
  query_begin :: nat
  query_size :: nat
  target_begin :: nat
  target_size :: nat
  url_port :: uint16
  has_explicit_port :: bool
  host_is_ipv6_literal :: bool

definition empty_url :: url
where
  "empty_url =
     \<lparr>url_storage = [], scheme_begin = 0, scheme_size = 0, host_begin = 0, host_size = 0,
      path_begin = 0, path_size = 0, query_begin = 0, query_size = 0, target_begin = 0,
      target_size = 0, url_port = 80, has_explicit_port = False, host_is_ipv6_literal = False\<rparr>"

definition url_scheme :: "url \<Rightarrow> string"
  where "url_scheme u = substr (url_storage u) (scheme_begin u) (scheme_size u)"

definition url_host :: "url \<Rightarrow> string"
  where "url_host u = substr (url_storage u) (host_begin u) (host_size u)"

definition url_path :: "url \<Rightarrow> string"
  where "url_path u = substr (url_storage u) (path_begin u) (path_size u)"

definition url_query :: "url \<Rightarrow> string"
  where "url_query u = substr (url_storage u) (query_begin u) (query_size u)"

definition url_target :: "url \<Rightarrow> string"
  where "url_target u = substr (url_storage u) (target_begin u) (target_size u)"

definition forbidden_url_byte :: "char \<Rightarrow> bool"
  where "forbidden_url_byte ch = (byte ch \<le> 0x20 \<or> byte ch = 0x7f)"

definition contains_forbidden_url_byte :: "string \<Rightarrow> bool"
  where "contains_forbidden_url_byte input = list_ex forbidden_url_byte input"

definition is_hex_digit :: "char \<Rightarrow> bool"
where
  "is_hex_digit ch =
     ((CHR ''0'' \<le> ch \<and> ch \<le> CHR ''9'') \<or> (CHR ''A'' \<le> ch \<and> ch \<le> CHR ''F'')
      \<or> (CHR ''a'' \<le> ch \<and> ch \<le> CHR ''f''))"

fun valid_percent_escapes :: "string \<Rightarrow> bool"
where
  "valid_percent_escapes [] = True"
| "valid_percent_escapes (c # cs) =
     (if c \<noteq> CHR ''%'' then valid_percent_escapes cs
      else (case cs of
              a # b # rest \<Rightarrow>
                (if \<not> is_hex_digit a \<or> \<not> is_hex_digit b then False else valid_percent_escapes rest)
            | _ \<Rightarrow> False))"

definition valid_ipv6_literal :: "(string \<Rightarrow> bool) \<Rightarrow> string \<Rightarrow> bool"
where
  "valid_ipv6_literal inet_pton6 text =
     (if text = [] \<or> length text \<ge> 64 \<or> find_chr (CHR ''%'') text \<noteq> None then False
      else inet_pton6 text)"

text \<open>\<open>std::from_chars\<close> into an \<open>unsigned int\<close> (32 bits), then the range check of a port.\<close>

definition parse_port :: "string \<Rightarrow> uint16 result"
where
  "parse_port text =
     (if text = [] then fail InvalidPort
      else (case from_chars_all 10 32 text of
              None \<Rightarrow> fail InvalidPort
            | Some v \<Rightarrow> if v = 0 \<or> v > 65535 then fail InvalidPort else Inr (of_nat v)))"

text \<open>The authority (lines 155 to 212): it fills the host and port fields of \<open>result\<close>.\<close>

definition parse_authority :: "(string \<Rightarrow> bool) \<Rightarrow> nat \<Rightarrow> string \<Rightarrow> url \<Rightarrow> url result"
where
  "parse_authority inet_pton6 authority_begin authority r =
     (if find_chr (CHR ''@'') authority \<noteq> None \<or> find_chr (CHR ''%'') authority \<noteq> None
      then fail InvalidUrl
      else if hd authority = CHR ''['' then
        (case find_chr (CHR '']'') authority of
           None \<Rightarrow> fail InvalidUrl
         | Some closing \<Rightarrow>
             if closing = 1 then fail InvalidUrl
             else if \<not> valid_ipv6_literal inet_pton6 (substr authority 1 (closing - 1))
             then fail InvalidUrl
             else
               let r = r\<lparr>host_is_ipv6_literal := True, host_begin := authority_begin + 1,
                         host_size := closing - 1\<rparr>;
                   remainder = drop (closing + 1) authority
               in if remainder \<noteq> [] then
                    (if hd remainder \<noteq> CHR '':'' then fail InvalidUrl
                     else (case parse_port (drop 1 remainder) of
                             Inl e \<Rightarrow> Inl e
                           | Inr port \<Rightarrow> Inr (r\<lparr>url_port := port, has_explicit_port := True\<rparr>)))
                  else Inr r)
      else
        (case rfind_chr (CHR '':'') authority of
           Some colon \<Rightarrow>
             if find_chr (CHR '':'') authority \<noteq> Some colon then fail InvalidUrl
             else if take colon authority = [] then fail InvalidUrl
             else (case parse_port (drop (colon + 1) authority) of
                     Inl e \<Rightarrow> Inl e
                   | Inr port \<Rightarrow>
                       Inr (r\<lparr>host_begin := authority_begin,
                              host_size := length (take colon authority),
                              url_port := port, has_explicit_port := True\<rparr>))
         | None \<Rightarrow> Inr (r\<lparr>host_begin := authority_begin, host_size := length authority\<rparr>)))"

text \<open>The root path is put in where the path is missing (lines 218 to 222).\<close>

definition add_root_path :: "nat \<Rightarrow> string \<Rightarrow> string"
where
  "add_root_path authority_end s =
     (if authority_end = length s then s @ [CHR ''/'']
      else if s ! authority_end = CHR ''?''
      then take authority_end s @ [CHR ''/''] @ drop authority_end s
      else s)"

text \<open>The path and query (lines 218 to 247), once the authority ends at \<open>authority_end\<close>.\<close>

definition parse_path_query :: "nat \<Rightarrow> url \<Rightarrow> url result"
where
  "parse_path_query authority_end r =
     (let s = add_root_path authority_end (url_storage r);
          query_marker = find_from (find_chr (CHR ''?'')) s authority_end;
          r = r\<lparr>url_storage := s, path_begin := authority_end\<rparr>;
          r = (case query_marker of
                 None \<Rightarrow> r\<lparr>path_size := length s - authority_end, query_begin := length s,
                           query_size := 0\<rparr>
               | Some q \<Rightarrow> r\<lparr>path_size := q - authority_end, query_begin := q + 1,
                             query_size := length s - (q + 1)\<rparr>)
      in if \<not> valid_percent_escapes (drop authority_end s) then fail InvalidUrl
         else Inr (r\<lparr>target_begin := authority_end, target_size := length s - authority_end\<rparr>))"

definition Url_parse :: "(string \<Rightarrow> bool) \<Rightarrow> string \<Rightarrow> url result"
where
  "Url_parse inet_pton6 input =
     (if input = [] \<or> contains_forbidden_url_byte input then fail InvalidUrl
      else (case find_str ''://'' input of
        None \<Rightarrow> fail InvalidUrl
      | Some sep \<Rightarrow>
          if sep = 0 then fail InvalidUrl
          else if \<not> ascii_iequals (take sep input) ''http'' then fail UnsupportedScheme
          else
            let without_fragment = take_opt (find_chr (CHR ''#'') input) input;
                s = map ascii_lower (take sep without_fragment) @ drop sep without_fragment;
                authority_begin = sep + 3
            in if authority_begin \<ge> length s then fail InvalidUrl
               else
                 let authority_end =
                       (case find_from (find_first_of ''/?'') s authority_begin of
                          None \<Rightarrow> length s
                        | Some e \<Rightarrow> e)
                 in if authority_end = authority_begin then fail InvalidUrl
                    else (case parse_authority inet_pton6 authority_begin
                                 (substr s authority_begin (authority_end - authority_begin))
                                 (empty_url\<lparr>url_storage := s, scheme_begin := 0, scheme_size := sep\<rparr>) of
                            Inl e \<Rightarrow> Inl e
                          | Inr r \<Rightarrow>
                              if host_size r = 0 then fail InvalidUrl
                              else parse_path_query authority_end r)))"

section \<open>The grammar of accepted URLs\<close>

record url_parts =
  up_ipv6 :: bool
  up_host :: string
  up_port :: "string option"
  up_target :: string

definition render_host :: "url_parts \<Rightarrow> string"
where
  "render_host p =
     (if up_ipv6 p then [CHR ''[''] @ up_host p @ [CHR '']''] else up_host p)"

definition render_authority :: "url_parts \<Rightarrow> string"
where
  "render_authority p =
     render_host p @ (case up_port p of None \<Rightarrow> [] | Some d \<Rightarrow> CHR '':'' # d)"

definition render_url :: "url_parts \<Rightarrow> string"
  where "render_url p = ''http://'' @ render_authority p @ up_target p"

definition port_of :: "url_parts \<Rightarrow> uint16"
where
  "port_of p = (case up_port p of None \<Rightarrow> 80
                | Some d \<Rightarrow> (case parse_port d of Inl e \<Rightarrow> 0 | Inr n \<Rightarrow> n))"

definition wf_host :: "(string \<Rightarrow> bool) \<Rightarrow> url_parts \<Rightarrow> bool"
where
  "wf_host inet p =
     (if up_ipv6 p then valid_ipv6_literal inet (up_host p) \<and> CHR '']'' \<notin> set (up_host p)
      else up_host p \<noteq> [] \<and> hd (up_host p) \<noteq> CHR ''['' \<and> CHR '':'' \<notin> set (up_host p))"

definition wf_port :: "url_parts \<Rightarrow> bool"
where
  "wf_port p = (case up_port p of None \<Rightarrow> True
                | Some d \<Rightarrow> (case parse_port d of Inl e \<Rightarrow> False | Inr n \<Rightarrow> True))"

definition wf_authority :: "(string \<Rightarrow> bool) \<Rightarrow> url_parts \<Rightarrow> bool"
where
  "wf_authority inet p =
     (wf_host inet p \<and> wf_port p
      \<and> list_all (\<lambda>c. \<not> forbidden_url_byte c \<and> c \<notin> set ''/?#@%'') (render_authority p))"

definition wf_target :: "string \<Rightarrow> bool"
where
  "wf_target t =
     (t \<noteq> [] \<and> hd t = CHR ''/'' \<and> valid_percent_escapes t
      \<and> list_all (\<lambda>c. \<not> forbidden_url_byte c \<and> c \<noteq> CHR ''#'') t)"

definition wf_parts :: "(string \<Rightarrow> bool) \<Rightarrow> url_parts \<Rightarrow> bool"
  where "wf_parts inet p = (wf_authority inet p \<and> wf_target (up_target p))"

definition mk_url :: "url_parts \<Rightarrow> url"
where
  "mk_url p =
     (let a = 7 + length (render_authority p); t = up_target p; n = a + length t in
      \<lparr>url_storage = render_url p, scheme_begin = 0, scheme_size = 4,
       host_begin = (if up_ipv6 p then 8 else 7), host_size = length (up_host p),
       path_begin = a,
       path_size = (case find_chr (CHR ''?'') t of None \<Rightarrow> length t | Some q \<Rightarrow> q),
       query_begin = (case find_chr (CHR ''?'') t of None \<Rightarrow> n | Some q \<Rightarrow> a + q + 1),
       query_size = (case find_chr (CHR ''?'') t of None \<Rightarrow> 0 | Some q \<Rightarrow> length t - (q + 1)),
       target_begin = a, target_size = length t,
       url_port = port_of p, has_explicit_port = (up_port p \<noteq> None),
       host_is_ipv6_literal = up_ipv6 p\<rparr>)"

text \<open>The target as written: a missing path is the path \<open>/\<close>.\<close>

definition norm_target :: "string \<Rightarrow> string"
  where "norm_target t = (if t = [] \<or> hd t = CHR ''?'' then CHR ''/'' # t else t)"

section \<open>Completeness: every rendering is accepted\<close>

lemma http_letters: "\<forall>c. ascii_lower c \<in> set ''http'' \<longrightarrow> \<not> forbidden_url_byte c \<and> c \<notin> set '':#/?''"
  by code_simp

lemma http_scheme:
  assumes "ascii_iequals sch ''http''"
  shows "length sch = 4" "map ascii_lower sch = ''http''"
    "\<forall>c \<in> set sch. \<not> forbidden_url_byte c \<and> c \<notin> set '':#/?''"
proof -
  have m: "map ascii_lower sch = map ascii_lower ''http''"
    using assms by (simp add: ascii_iequals_map)
  have h: "map ascii_lower ''http'' = ''http''" by code_simp
  show "map ascii_lower sch = ''http''" using m by (simp only: h)
  then have "length (map ascii_lower sch) = length ''http''" by (simp only:)
  then show "length sch = 4" by simp
  have "ascii_lower ` set sch = set ''http''" using m h by (metis set_map)
  then show "\<forall>c \<in> set sch. \<not> forbidden_url_byte c \<and> c \<notin> set '':#/?''"
    using http_letters by blast
qed

lemma take_opt_fragment:
  assumes "CHR ''#'' \<notin> set a" and "f = [] \<or> hd f = CHR ''#''"
  shows "take_opt (find_chr (CHR ''#'') (a @ f)) (a @ f) = a"
proof (cases f)
  case Nil
  have "find_chr (CHR ''#'') a = None" using assms by (auto simp: find_if_None)
  with Nil show ?thesis by (simp add: take_opt_def)
next
  case (Cons c cs)
  then have "find_chr (CHR ''#'') (a @ f) = Some (length a)"
    using assms by (auto intro!: find_if_split)
  then show ?thesis by (simp add: take_opt_def)
qed

lemma not_forbidden_list:
  "\<not> contains_forbidden_url_byte s \<longleftrightarrow> list_all (\<lambda>c. \<not> forbidden_url_byte c) s"
  by (induction s) (simp_all add: contains_forbidden_url_byte_def)

text \<open>The end of the authority is the first \<open>/\<close> or \<open>?\<close> of the rest, or the end of the input.\<close>

lemma authority_end_found:
  assumes "\<forall>c \<in> set a. c \<notin> set ''/?''" and "t = [] \<or> hd t \<in> set ''/?''" and "length h = n"
  shows "(case find_from (find_first_of ''/?'') (h @ a @ t) n of
            None \<Rightarrow> length (h @ a @ t) | Some e \<Rightarrow> e) = n + length a"
proof (cases t)
  case Nil
  have "find_first_of ''/?'' a = None" using assms(1) by (simp add: find_if_None)
  with Nil assms(3) show ?thesis by (auto simp: find_from_def)
next
  case (Cons c cs)
  have "find_first_of ''/?'' (a @ c # cs) = Some (length a)"
    using assms Cons by (intro find_if_split) auto
  with Cons assms(3) show ?thesis by (auto simp: find_from_def)
qed

lemma rfind_chr_split: "c \<notin> set t \<Longrightarrow> rfind_chr c (s @ c # t) = Some (length s)"
  by (induction s) (auto simp: rfind_chr_None split: option.splits)

text \<open>What \<open>parse_authority\<close> stores for an authority it accepts.\<close>

definition authority_stored :: "url_parts \<Rightarrow> nat \<Rightarrow> url \<Rightarrow> url"
where
  "authority_stored p b r =
     r\<lparr>host_begin := (if up_ipv6 p then b + 1 else b), host_size := length (up_host p),
       url_port := (if up_port p = None then url_port r else port_of p),
       has_explicit_port := (up_port p \<noteq> None \<or> has_explicit_port r),
       host_is_ipv6_literal := (up_ipv6 p \<or> host_is_ipv6_literal r)\<rparr>"

definition port_text :: "url_parts \<Rightarrow> string"
  where "port_text p = (case up_port p of None \<Rightarrow> [] | Some d \<Rightarrow> CHR '':'' # d)"

lemma wf_authority_clean:
  "wf_authority inet p \<Longrightarrow> find_chr (CHR ''@'') (render_authority p) = None \<and> find_chr (CHR ''%'') (render_authority p) = None"
  by (auto simp: wf_authority_def find_if_None list_all_iff)

lemma wf_authority_port: "wf_authority inet p \<Longrightarrow> up_port p = Some d \<Longrightarrow> \<exists>n. parse_port d = Inr n"
  by (auto simp: wf_authority_def wf_port_def split: sum.splits)

lemma literal_render:
  assumes wf: "wf_authority inet p" and ipv6: "up_ipv6 p"
  shows "parse_authority inet b (render_authority p) r = Inr (authority_stored p b r)"
proof -
  let ?a = "render_authority p" and ?tl = "port_text p"
  note no = wf_authority_clean [OF wf]
  have h: "valid_ipv6_literal inet (up_host p)" "CHR '']'' \<notin> set (up_host p)"
    using wf ipv6 by (simp_all add: wf_authority_def wf_host_def)
  then have ne: "up_host p \<noteq> []" by (auto simp: valid_ipv6_literal_def)
  have a: "?a = CHR ''['' # up_host p @ CHR '']'' # ?tl"
    using ipv6 by (simp add: render_authority_def port_text_def render_host_def)
  have f: "find_chr (CHR '']'') ?a = Some (Suc (length (up_host p)))"
    unfolding a using h(2) find_if_split [of "up_host p" "\<lambda>x. x = CHR '']''" "CHR '']''" ?tl] by auto
  have pieces: "hd ?a = CHR ''[''" "substr ?a (Suc 0) (length (up_host p)) = up_host p"
      "drop (Suc (Suc (length (up_host p)))) ?a = ?tl"
    by (simp_all add: a substr_def)
  show ?thesis
    using no h ne ipv6 wf_authority_port [OF wf] unfolding parse_authority_def f
    by (cases "up_port p") (auto simp: pieces Let_def port_of_def port_text_def authority_stored_def simp del: drop_eq_Nil)
qed

lemma named_render:
  assumes wf: "wf_authority inet p" and name: "\<not> up_ipv6 p"
  shows "parse_authority inet b (render_authority p) r = Inr (authority_stored p b r)"
proof -
  let ?a = "render_authority p"
  note no = wf_authority_clean [OF wf]
  have h: "up_host p \<noteq> []" "hd (up_host p) \<noteq> CHR ''[''" "CHR '':'' \<notin> set (up_host p)"
    using wf name by (auto simp: wf_authority_def wf_host_def)
  have a: "?a = up_host p @ port_text p" "hd ?a \<noteq> CHR ''[''"
    using name h by (simp_all add: render_authority_def port_text_def render_host_def)
  show ?thesis
  proof (cases "up_port p")
    case None
    then have "rfind_chr (CHR '':'') ?a = None" using a(1) h(3) by (simp add: port_text_def rfind_chr_None)
    then show ?thesis using no a None name unfolding parse_authority_def by (simp add: port_text_def authority_stored_def)
  next
    case (Some d)
    with wf_authority_port [OF wf] obtain n where n: "parse_port d = Inr n" by blast
    have "CHR '':'' \<notin> set d"
      using n by (auto simp: parse_port_def from_chars_all_Some is_digit_decimal less_eq_char_def split: if_splits option.splits)
    then have "rfind_chr (CHR '':'') ?a = Some (length (up_host p))"
       "find_chr (CHR '':'') ?a = Some (length (up_host p))"
      using a(1) Some h(3) by (auto simp: port_text_def intro: rfind_chr_split find_if_split)
    then show ?thesis
      using no a Some name h n unfolding parse_authority_def
      by (simp add: port_of_def port_text_def authority_stored_def)
  qed
qed

lemma parse_authority_render:
  "wf_authority inet p \<Longrightarrow> parse_authority inet b (render_authority p) r = Inr (authority_stored p b r)"
  using literal_render named_render by blast

lemma add_root_path_norm:
  "t = [] \<or> hd t \<in> set ''/?'' \<Longrightarrow> length h = a \<Longrightarrow> add_root_path a (h @ t) = h @ norm_target t"
  by (cases t) (auto simp: norm_target_def add_root_path_def)

lemma parse_path_query_norm:
  assumes "t = [] \<or> hd t \<in> set ''/?''" and "valid_percent_escapes (norm_target t)"
    and "url_storage r = h @ t" and "length h = a"
  shows "parse_path_query a r =
    (let n = norm_target t; q = find_chr (CHR ''?'') n in
     Inr (r\<lparr>url_storage := h @ n, path_begin := a,
        path_size := (case q of None \<Rightarrow> length n | Some i \<Rightarrow> i),
        query_begin := (case q of None \<Rightarrow> a + length n | Some i \<Rightarrow> a + i + 1),
        query_size := (case q of None \<Rightarrow> 0 | Some i \<Rightarrow> length n - (i + 1)),
        target_begin := a, target_size := length n\<rparr>))"
proof -
  from assms(1,4) have "add_root_path a (h @ t) = h @ norm_target t" by (rule add_root_path_norm)
  with assms(2-4) show ?thesis
    by (cases "find_chr (CHR ''?'') (norm_target t)")
      (simp_all add: parse_path_query_def find_from_def Let_def)
qed

lemma forbidden_append [simp]:
  "contains_forbidden_url_byte (a @ b) \<longleftrightarrow>
     contains_forbidden_url_byte a \<or> contains_forbidden_url_byte b"
  by (simp add: contains_forbidden_url_byte_def)

lemma forbidden_sep [simp]: "\<not> contains_forbidden_url_byte ''://''"
  by code_simp

lemma no_forbidden: "\<forall>c \<in> set s. \<not> forbidden_url_byte c \<Longrightarrow> \<not> contains_forbidden_url_byte s"
  by (simp add: not_forbidden_list list_all_iff)

lemma render_authority_ne: "wf_authority inet p \<Longrightarrow> render_authority p \<noteq> [] \<and> up_host p \<noteq> []"
  by (auto simp: wf_authority_def wf_host_def render_authority_def render_host_def
      valid_ipv6_literal_def split: if_splits)

text \<open>The parser up to the authority, on an input of the accepted shape.\<close>

lemma Url_parse_prefix:
  assumes sch: "ascii_iequals sch ''http''" and wfa: "wf_authority inet p"
    and tb: "\<forall>c \<in> set t. \<not> forbidden_url_byte c \<and> c \<noteq> CHR ''#''" and t: "t = [] \<or> hd t \<in> set ''/?''"
    and f: "f = [] \<or> hd f = CHR ''#''" "\<not> contains_forbidden_url_byte f"
    and hp: "hp = ''http://''"
  shows "Url_parse inet (sch @ ''://'' @ render_authority p @ t @ f) =
    (case parse_authority inet 7 (render_authority p)
            (empty_url\<lparr>url_storage := hp @ render_authority p @ t, scheme_begin := 0, scheme_size := 4\<rparr>) of
       Inl e \<Rightarrow> Inl e
     | Inr r \<Rightarrow> if host_size r = 0 then fail InvalidUrl
                else parse_path_query (7 + length (render_authority p)) r)"
proof -
  let ?a = "render_authority p" let ?in = "sch @ ''://'' @ ?a @ t @ f"
  note hs = http_scheme [OF sch]
  have abytes: "\<forall>c \<in> set ?a. \<not> forbidden_url_byte c \<and> c \<notin> set ''/?#@%''"
    using wfa by (simp add: wf_authority_def list_all_iff)
  have ne: "?a \<noteq> []" using render_authority_ne [OF wfa] by simp
  have ok: "\<not> contains_forbidden_url_byte ?in"
    using hs(3) abytes tb f(2) no_forbidden [of sch] no_forbidden [of ?a] no_forbidden [of t]
    by (simp only: forbidden_append forbidden_sep) blast
  have "hd ''://'' \<notin> set sch" using hs(3) by auto
  then have sep: "find_str ''://'' ?in = Some 4"
    using find_str_split [of "''://''" sch "?a @ t @ f"] hs(1) by simp
  have "CHR ''#'' \<notin> set sch" "CHR ''#'' \<notin> set ?a" "CHR ''#'' \<notin> set t"
    using bspec [OF hs(3)] bspec [OF abytes] bspec [OF tb] by auto
  then have "CHR ''#'' \<notin> set (sch @ ''://'' @ ?a @ t)" by simp
  from take_opt_fragment [OF this f(1)]
  have wof: "take_opt (find_chr (CHR ''#'') ?in) ?in = sch @ ''://'' @ ?a @ t" by simp
  have st: "map ascii_lower (take 4 (sch @ ''://'' @ ?a @ t)) @ drop 4 (sch @ ''://'' @ ?a @ t)
      = hp @ ?a @ t"
    using hs(1,2) hp by simp
  have lhp: "length hp = 7" by (simp add: hp)
  have aend: "(case find_from (find_first_of ''/?'') (hp @ ?a @ t) 7 of
      None \<Rightarrow> length (hp @ ?a @ t) | Some e \<Rightarrow> e) = 7 + length ?a"
    using abytes t lhp by (intro authority_end_found) auto
  have sub: "substr (hp @ ?a @ t) 7 (7 + length ?a - 7) = ?a" by (simp add: substr_def lhp)
  have host: "take 4 ?in = sch" "?in \<noteq> []" using hs(1) by auto
  have len: "\<not> length (hp @ ?a @ t) \<le> 7" using ne lhp by simp
  have seven: "4 + 3 = (7::nat)" by simp
  show ?thesis
    using ne len
    by (simp only: Url_parse_def sep wof st Let_def option.case ok host sch aend sub seven) simp
qed

text \<open>Every rendering of well-formed parts parses to exactly the object \<open>mk_url\<close> describes.\<close>

theorem Url_parse_render:
  assumes sch: "ascii_iequals sch ''http''" and wf: "wf_parts inet p"
    and t: "up_target p = norm_target t" "t = [] \<or> hd t \<in> set ''/?''"
    and f: "f = [] \<or> hd f = CHR ''#''" "\<not> contains_forbidden_url_byte f"
  shows "Url_parse inet (sch @ ''://'' @ render_authority p @ t @ f) = Inr (mk_url p)"
proof -
  define hp where "hp = ''http://''"
  have lhp: "length hp = 7" by (simp add: hp_def)
  have wfa: "wf_authority inet p" and wft: "wf_target (norm_target t)"
    using wf t by (simp_all add: wf_parts_def)
  have tb: "\<forall>c \<in> set t. \<not> forbidden_url_byte c \<and> c \<noteq> CHR ''#''"
    using wft by (auto simp: wf_target_def norm_target_def list_all_iff split: if_splits)
  have esc: "valid_percent_escapes (norm_target t)" using wft by (simp add: wf_target_def)
  have port: "up_port p = None \<Longrightarrow> port_of p = 80" by (simp add: port_of_def)
  have pq: "parse_path_query (7 + length (render_authority p)) r =
    (let n = norm_target t; a = 7 + length (render_authority p); q = find_chr (CHR ''?'') n in
     Inr (r\<lparr>url_storage := (hp @ render_authority p) @ n, path_begin := a,
        path_size := (case q of None \<Rightarrow> length n | Some i \<Rightarrow> i),
        query_begin := (case q of None \<Rightarrow> a + length n | Some i \<Rightarrow> a + i + 1),
        query_size := (case q of None \<Rightarrow> 0 | Some i \<Rightarrow> length n - (i + 1)),
        target_begin := a, target_size := length n\<rparr>))"
    if "url_storage r = (hp @ render_authority p) @ t" for r
    unfolding Let_def
    by (rule parse_path_query_norm [OF t(2) esc that, unfolded Let_def]) (simp add: lhp)
  show ?thesis
    unfolding Url_parse_prefix [OF sch wfa tb t(2) f hp_def] parse_authority_render [OF wfa, unfolded authority_stored_def]
    using render_authority_ne [OF wfa] port
    by (simp add: pq mk_url_def Let_def t(1) render_url_def empty_url_def) (simp add: hp_def)
qed

lemma parse_authority_storage:
  "parse_authority inet b a r = Inr r' \<Longrightarrow> url_storage r' = url_storage r"
  by (auto simp: parse_authority_def Let_def split: if_splits option.splits sum.splits)

text \<open>An authority that is accepted, in brackets and without.\<close>

lemma literal_authority:
  assumes ok: "parse_authority inet b a r = Inr r'" and open_bracket: "hd a = CHR ''[''"
  shows "\<exists>p. render_authority p = a \<and> wf_host inet p \<and> wf_port p \<and> up_target p = t"
proof -
  from assms obtain i where i: "find_chr (CHR '']'') a = Some i" "i \<noteq> 1"
      and lit: "valid_ipv6_literal inet (substr a 1 (i - 1))"
    by (auto simp: parse_authority_def split: option.splits if_splits)
  from i(1) obtain pre tl where pre: "a = pre @ CHR '']'' # tl" "length pre = i" "CHR '']'' \<notin> set pre"
    by (cases rule: find_ifE) auto
  define h where "h = substr a 1 (i - 1)"
  obtain h' where h': "pre = CHR ''['' # h'" using pre open_bracket by (cases pre) auto
  have h: "h = h'" using pre(2) by (auto simp: h_def substr_def pre(1) h')
  have a: "a = CHR ''['' # h @ CHR '']'' # tl" and hb: "CHR '']'' \<notin> set h" and dr: "drop (Suc i) a = tl"
    using pre by (auto simp: h h')
  have tl: "tl = [] \<or> (hd tl = CHR '':'' \<and> (\<exists>n. parse_port (drop 1 tl) = Inr n))"
    using ok open_bracket i lit dr by (auto simp: parse_authority_def Let_def split: if_splits sum.splits)
  define p where "p = \<lparr>up_ipv6 = True, up_host = h,
    up_port = (if tl = [] then None else Some (drop 1 tl)), up_target = t\<rparr>"
  have "render_authority p = a" using tl by (cases tl) (auto simp: p_def render_authority_def render_host_def a)
  moreover have "wf_host inet p" using lit hb by (simp add: wf_host_def p_def h_def)
  moreover have "wf_port p" using tl by (auto simp: wf_port_def p_def)
  ultimately show ?thesis by (intro exI [of _ p]) (simp add: p_def)
qed

lemma named_authority:
  assumes ok: "parse_authority inet b a r = Inr r'" and plain: "hd a \<noteq> CHR ''[''" and ne: "a \<noteq> []"
  shows "\<exists>p. render_authority p = a \<and> wf_host inet p \<and> wf_port p \<and> up_target p = t"
proof (cases "rfind_chr (CHR '':'') a")
  case None
  define p where "p = \<lparr>up_ipv6 = False, up_host = a, up_port = None, up_target = t\<rparr>"
  have "wf_host inet p" using None plain ne by (simp add: p_def wf_host_def rfind_chr_None)
  then show ?thesis
    by (intro exI [of _ p]) (simp add: p_def render_authority_def render_host_def wf_port_def)
next
  case (Some c)
  with ok plain have c: "find_chr (CHR '':'') a = Some c" "take c a \<noteq> []" "\<exists>n. parse_port (drop (Suc c) a) = Inr n"
    by (auto simp: parse_authority_def split: if_splits sum.splits)
  define p where "p = \<lparr>up_ipv6 = False, up_host = take c a, up_port = Some (drop (Suc c) a), up_target = t\<rparr>"
  from c(1) obtain pre post where pre: "a = pre @ CHR '':'' # post" "length pre = c" "CHR '':'' \<notin> set pre"
    by (cases rule: find_ifE) auto
  have "wf_host inet p" using pre plain ne c(2) by (auto simp: p_def wf_host_def hd_append)
  moreover have "render_authority p = a" using pre by (auto simp: p_def render_authority_def render_host_def)
  moreover have "wf_port p" using c(3) by (auto simp: p_def wf_port_def)
  ultimately show ?thesis by (intro exI [of _ p]) (simp add: p_def)
qed

lemma parse_authority_sound:
  assumes ok: "parse_authority inet b a r = Inr r'" and ne: "a \<noteq> []"
    and bytes: "\<forall>c \<in> set a. \<not> forbidden_url_byte c \<and> c \<notin> set ''/?#''"
  shows "\<exists>p. render_authority p = a \<and> wf_authority inet p \<and> up_target p = t"
proof -
  have "CHR ''@'' \<notin> set a" "CHR ''%'' \<notin> set a"
    using ok by (auto simp: parse_authority_def find_if_None split: if_splits)
  then have wf: "wf_authority inet p" if "render_authority p = a" "wf_host inet p" "wf_port p" for p
    using that bytes by (auto simp: wf_authority_def list_all_iff)
  show ?thesis
    using literal_authority [OF ok, of t] named_authority [OF ok _ ne, of t] wf by blast
qed

lemma take_opt_append:
  assumes "c \<notin> set h"
  shows "take_opt (find_chr c (h @ r)) (h @ r) = h @ take_opt (find_chr c r) r"
proof -
  have "find_chr c (h @ r) = map_option ((+) (length h)) (find_chr c r)"
    using assms by (intro find_if_append_miss) auto
  then show ?thesis by (cases "find_chr c r") (auto simp: take_opt_def)
qed

lemma take_opt_find:
  obtains f where "r = take_opt (find_chr c r) r @ f" "c \<notin> set (take_opt (find_chr c r) r)"
    "f = [] \<or> hd f = c"
proof (cases "find_chr c r")
  case None
  then have "c \<notin> set r" by (auto simp: find_if_None)
  then show ?thesis using that [of "[]"] None by (simp add: take_opt_def)
next
  case (Some i)
  then obtain pre post where "r = pre @ c # post" "length pre = i" "c \<notin> set pre"
    by (cases rule: find_ifE) auto
  then show ?thesis using that [of "c # post"] Some by (auto simp: take_opt_def)
qed

section \<open>Soundness: what the parser accepts\<close>

text \<open>\<open>url_text inet input p\<close>: the input is a spelling of the parts \<open>p\<close>, up to the letter case of the
  scheme, a missing path and a fragment.\<close>

definition url_text :: "(string \<Rightarrow> bool) \<Rightarrow> string \<Rightarrow> url_parts \<Rightarrow> bool"
where
  "url_text inet input p \<longleftrightarrow>
     (\<exists>sch t f. input = sch @ ''://'' @ render_authority p @ t @ f \<and> ascii_iequals sch ''http''
        \<and> wf_parts inet p \<and> up_target p = norm_target t \<and> (t = [] \<or> hd t \<in> set ''/?'')
        \<and> (f = [] \<or> hd f = CHR ''#'') \<and> \<not> contains_forbidden_url_byte f)"

text \<open>How \<open>Url::parse\<close> cuts the text it accepts.\<close>

definition cut_of :: "(string \<Rightarrow> bool) \<Rightarrow> string \<Rightarrow> url \<Rightarrow> string \<Rightarrow> string \<Rightarrow> string \<Rightarrow> string \<Rightarrow> url \<Rightarrow> bool"
where
  "cut_of inet input u sch a t f r \<longleftrightarrow>
     input = sch @ ''://'' @ a @ t @ f \<and> ascii_iequals sch ''http'' \<and> a \<noteq> []
     \<and> \<not> contains_forbidden_url_byte input \<and> CHR ''#'' \<notin> set (a @ t) \<and> (\<forall>c \<in> set a. c \<notin> set ''/?'')
     \<and> (t = [] \<or> hd t \<in> set ''/?'') \<and> (f = [] \<or> hd f = CHR ''#'')
     \<and> parse_authority inet 7 a (empty_url\<lparr>url_storage := ''http://'' @ a @ t, scheme_begin := 0, scheme_size := 4\<rparr>) = Inr r
     \<and> host_size r \<noteq> 0 \<and> parse_path_query (7 + length a) r = Inr u"

lemma Url_parse_cut:
  assumes ok: "Url_parse inet input = Inr u"
  shows "\<exists>sch a t f r. cut_of inet input u sch a t f r"
proof -
  from ok obtain sep where ne: "\<not> contains_forbidden_url_byte input"
      and sep: "find_str ''://'' input = Some sep" and sch: "ascii_iequals (take sep input) ''http''"
    by (auto simp: Url_parse_def Let_def split: if_splits option.splits)
  define sch where "sch = take sep input"
  note hs = http_scheme [OF sch, folded sch_def]
  have "input = take sep input @ ''://'' @ drop (sep + length ''://'') input"
    using find_str_Some [OF sep] by blast
  then obtain rest where rest: "input = sch @ ''://'' @ rest" by (auto simp: sch_def)
  have sep4: "sep = 4" using hs(1) find_str_Some [OF sep] by (simp add: sch_def)
  obtain f where f: "rest = take_opt (find_chr (CHR ''#'') rest) rest @ f"
      "CHR ''#'' \<notin> set (take_opt (find_chr (CHR ''#'') rest) rest)" "f = [] \<or> hd f = CHR ''#''"
    by (rule take_opt_find [of rest "CHR ''#''"])
  define body where "body = take_opt (find_chr (CHR ''#'') rest) rest"
  have "CHR ''#'' \<notin> set (sch @ ''://'')" using bspec [OF hs(3)] by auto
  from take_opt_append [OF this, of rest]
  have wof: "take_opt (find_chr (CHR ''#'') input) input = sch @ ''://'' @ body"
    by (simp add: rest body_def)
  define hp where "hp = ''http://''"
  have lhp: "length hp = 7" by (simp add: hp_def)
  have st: "map ascii_lower (take 4 (sch @ ''://'' @ body)) @ drop 4 (sch @ ''://'' @ body) = hp @ body"
    using hs(1,2) by (simp add: hp_def)
  define a where "a = takeWhile (\<lambda>c. c \<notin> set ''/?'') body"
  define t where "t = dropWhile (\<lambda>c. c \<notin> set ''/?'') body"
  have at: "body = a @ t" by (simp add: a_def t_def)
  have abytes: "\<forall>c \<in> set a. c \<notin> set ''/?''" by (auto simp: a_def dest: set_takeWhileD)
  have thd: "t = [] \<or> hd t \<in> set ''/?''"
    using hd_dropWhile [of "\<lambda>c. c \<notin> set ''/?''" body] by (auto simp: t_def)
  have aend: "(case find_from (find_first_of ''/?'') (hp @ a @ t) 7 of
      None \<Rightarrow> length (hp @ a @ t) | Some e \<Rightarrow> e) = 7 + length a"
    using abytes thd lhp by (intro authority_end_found) auto
  have sub: "substr (hp @ a @ t) 7 (7 + length a - 7) = a" by (simp add: substr_def lhp)
  have seven: "4 + 3 = (7::nat)" by simp
  from ok have ok': "(if 7 + length a = 7 then fail InvalidUrl
      else (case parse_authority inet 7 a
                   (empty_url\<lparr>url_storage := hp @ a @ t, scheme_begin := 0, scheme_size := 4\<rparr>) of
              Inl e \<Rightarrow> Inl e
            | Inr r \<Rightarrow> if host_size r = 0 then fail InvalidUrl else parse_path_query (7 + length a) r))
     = Inr u"
    unfolding Url_parse_def sep option.case Let_def sep4 wof [unfolded at] st [unfolded at] seven aend sub
    by (auto split: if_splits)
  then have ane: "a \<noteq> []" by (auto split: if_splits)
  from ok' obtain r where r: "parse_authority inet 7 a
      (empty_url\<lparr>url_storage := hp @ a @ t, scheme_begin := 0, scheme_size := 4\<rparr>) = Inr r"
      "host_size r \<noteq> 0" "parse_path_query (7 + length a) r = Inr u"
    by (auto split: if_splits sum.splits)
  have "input = sch @ ''://'' @ a @ t @ f" using rest f(1) at unfolding body_def [symmetric] by simp
  moreover have "CHR ''#'' \<notin> set (a @ t)" using f(2) at unfolding body_def [symmetric] by simp
  ultimately have "cut_of inet input u sch a t f r"
    using sch ane ne abytes thd f(3) r unfolding cut_of_def sch_def hp_def by blast
  then show ?thesis by blast
qed

theorem Url_parse_sound:
  assumes ok: "Url_parse inet input = Inr u"
  shows "\<exists>p. url_text inet input p \<and> u = mk_url p"
proof -
  from Url_parse_cut [OF ok] obtain sch a t f r where "cut_of inet input u sch a t f r" by blast
  then have inp: "input = sch @ ''://'' @ a @ t @ f" and schi: "ascii_iequals sch ''http''" and ane: "a \<noteq> []"
    and ne: "\<not> contains_forbidden_url_byte input" "CHR ''#'' \<notin> set (a @ t)"
    and abytes: "\<forall>c \<in> set a. c \<notin> set ''/?''" and thd: "t = [] \<or> hd t \<in> set ''/?''" and fhd: "f = [] \<or> hd f = CHR ''#''"
    and r: "parse_authority inet 7 a (empty_url\<lparr>url_storage := ''http://'' @ a @ t, scheme_begin := 0, scheme_size := 4\<rparr>) = Inr r"
      "parse_path_query (7 + length a) r = Inr u"
    unfolding cut_of_def by blast+
  define hp where "hp = ''http://''"
  have lhp: "length hp = 7" by (simp add: hp_def)
  have inb: "\<forall>c \<in> set (a @ t). \<not> forbidden_url_byte c \<and> c \<noteq> CHR ''#''"
      and fb: "\<not> contains_forbidden_url_byte f"
    using ne inp by (auto simp: not_forbidden_list list_all_iff)
  obtain p where p: "render_authority p = a" "wf_authority inet p" "up_target p = norm_target t"
    using parse_authority_sound [OF r(1) ane, of "norm_target t"] inb abytes by auto
  have "url_storage r = (hp @ a) @ t" using parse_authority_storage [OF r(1)] by (simp add: hp_def)
  then have "add_root_path (7 + length a) (url_storage r) = (hp @ a) @ norm_target t"
    using thd by (simp only:) (rule add_root_path_norm, auto simp: lhp)
  then have "valid_percent_escapes (norm_target t)"
    using r(2) by (auto simp: parse_path_query_def Let_def lhp split: if_splits)
  then have "wf_target (norm_target t)"
    using inb thd by (auto simp: wf_target_def norm_target_def list_all_iff forbidden_url_byte_def)
  with p have wf: "wf_parts inet p" by (simp add: wf_parts_def)
  have inp': "input = sch @ ''://'' @ render_authority p @ t @ f" by (simp only: inp p(1))
  have tx: "url_text inet input p"
    unfolding url_text_def
    by (intro exI [of _ sch] exI [of _ t] exI [of _ f] conjI) (fact inp' schi wf p(3) thd fhd fb)+
  from Url_parse_render [OF schi wf p(3) thd fhd fb] ok inp' have "u = mk_url p" by simp
  with tx show ?thesis by blast
qed

section \<open>What a parsed URL looks like\<close>

lemma render_url_drop:
  "drop (7 + length (render_authority p)) (render_url p) = up_target p"
proof -
  have "drop (7 + length (render_authority p)) (render_url p)
      = drop (length (render_authority p)) (drop 7 (render_url p))"
    by (simp add: add.commute)
  then show ?thesis by (simp add: render_url_def)
qed

lemma mk_url_target [simp]: "url_target (mk_url p) = up_target p"
  by (simp add: url_target_def mk_url_def Let_def substr_def render_url_drop)

lemma mk_url_scheme [simp]: "url_scheme (mk_url p) = ''http''"
  by (simp add: url_scheme_def mk_url_def Let_def substr_def render_url_def)

lemma mk_url_host [simp]: "url_host (mk_url p) = up_host p"
  by (simp add: url_host_def mk_url_def Let_def substr_def render_url_def render_authority_def
      render_host_def)

lemma mk_url_storage: "url_storage (mk_url p) = render_url p"
  by (simp add: mk_url_def Let_def)

lemma mk_url_flags [simp]:
  "url_port (mk_url p) = port_of p"
  "has_explicit_port (mk_url p) \<longleftrightarrow> up_port p \<noteq> None"
  "host_is_ipv6_literal (mk_url p) = up_ipv6 p"
  by (simp_all add: mk_url_def Let_def)

lemma mk_url_path:
  "url_path (mk_url p) = (case find_chr (CHR ''?'') (up_target p) of
     None \<Rightarrow> up_target p | Some q \<Rightarrow> take q (up_target p))"
  by (simp add: url_path_def mk_url_def Let_def substr_def render_url_drop split: option.splits)

lemma mk_url_query:
  "url_query (mk_url p) = (case find_chr (CHR ''?'') (up_target p) of
     None \<Rightarrow> [] | Some q \<Rightarrow> drop (q + 1) (up_target p))"
proof (cases "find_chr (CHR ''?'') (up_target p)")
  case None
  then show ?thesis by (simp add: url_query_def mk_url_def Let_def substr_def)
next
  case (Some q)
  have "drop (7 + length (render_authority p) + q + 1) (render_url p) = drop (q + 1) (up_target p)"
    by (metis add.commute add.assoc drop_drop render_url_drop)
  with Some show ?thesis by (simp add: url_query_def mk_url_def Let_def substr_def)
qed

lemma norm_target_id: "t \<noteq> [] \<Longrightarrow> hd t = CHR ''/'' \<Longrightarrow> norm_target t = t"
  by (simp add: norm_target_def)

lemma Url_parse_render_url:
  assumes "wf_parts inet p"
  shows "Url_parse inet (render_url p) = Inr (mk_url p)"
proof -
  have t: "up_target p = norm_target (up_target p)" "hd (up_target p) = CHR ''/''"
    using assms by (auto simp: wf_parts_def wf_target_def norm_target_id)
  show ?thesis
    using Url_parse_render [of "''http''" inet p "up_target p" "[]"] assms t
    by (simp add: render_url_def contains_forbidden_url_byte_def)
qed

lemma Url_parse_parts:
  assumes "Url_parse inet input = Inr u"
  obtains p where "wf_parts inet p" "u = mk_url p" "url_text inet input p"
  using Url_parse_sound [OF assms] by (auto simp: url_text_def)

text \<open>The normal form is stable: parsing the storage of a parsed URL gives the same object.\<close>

theorem Url_parse_idempotent:
  assumes "Url_parse inet input = Inr u"
  shows "Url_parse inet (url_storage u) = Inr u"
  using assms by (rule Url_parse_parts) (simp add: mk_url_storage Url_parse_render_url)

lemma port_of_nonzero:
  assumes "wf_parts inet p"
  shows "port_of p \<noteq> 0"
proof (cases "up_port p")
  case (Some d)
  then obtain n where "parse_port d = Inr n"
    using assms by (auto simp: wf_parts_def wf_authority_def wf_port_def split: sum.splits)
  moreover from this have "n \<noteq> 0"
    by (auto simp: parse_port_def word_of_nat_eq_0_iff nat_dvd_not_less split: if_splits option.splits)
  ultimately show ?thesis using Some by (simp add: port_of_def)
qed (simp add: port_of_def)

lemma Url_parse_error_codes:
  assumes "Url_parse inet input = Inl e"
  shows "e \<in> {mk_error InvalidUrl, mk_error UnsupportedScheme, mk_error InvalidPort}"
proof -
  have port: "parse_port d = Inl e \<Longrightarrow> e = mk_error InvalidPort" for d e
    by (auto simp: parse_port_def split: if_splits option.splits)
  have auth: "parse_authority inet b a r = Inl e \<Longrightarrow> e \<in> {mk_error InvalidUrl, mk_error InvalidPort}"
    for b a r e
    by (auto simp: parse_authority_def Let_def dest: port split: if_splits option.splits sum.splits)
  show ?thesis
    using assms
    by (auto simp: Url_parse_def parse_path_query_def Let_def dest: auth
        split: if_splits option.splits sum.splits)
qed

section \<open>Properties\<close>

text \<open>
  C10: \<open>Url::parse\<close> accepts exactly the grammar \<open>url_text\<close> (any letter case of the scheme, a host
  or IPv6 literal, an optional port in range, a target whose missing path becomes \<open>/\<close>, an optional
  fragment), and the object it returns has the spans, port and flags of the parts.
\<close>

theorem url_parse_exact:
  "Url_parse inet input = Inr u \<longleftrightarrow> (\<exists>p. url_text inet input p \<and> u = mk_url p)"
proof
  assume "Url_parse inet input = Inr u"
  then show "\<exists>p. url_text inet input p \<and> u = mk_url p" by (rule Url_parse_sound)
next
  assume "\<exists>p. url_text inet input p \<and> u = mk_url p"
  then show "Url_parse inet input = Inr u"
    unfolding url_text_def using Url_parse_render by blast
qed

lemma forbidden_bytes: "\<not> forbidden_url_byte c \<Longrightarrow> c \<noteq> CHR '' '' \<and> c \<noteq> CHR 0x0D \<and> c \<noteq> CHR 0x0A \<and> c \<noteq> htab"
  by (auto simp: forbidden_url_byte_def)

lemma wf_parts_bytes:
  assumes "wf_parts inet p" and "c \<in> set (up_host p) \<union> set (up_target p)"
  shows "\<not> forbidden_url_byte c \<and> c \<noteq> CHR ''#''"
  using assms
  by (auto simp: wf_parts_def wf_authority_def wf_target_def list_all_iff render_authority_def render_host_def
      split: if_splits)

lemma mk_url_path_query:
  assumes "wf_target (up_target p)"
  shows "url_target (mk_url p) = url_path (mk_url p) @
      (if CHR ''?'' \<in> set (up_target p) then CHR ''?'' # url_query (mk_url p) else url_query (mk_url p))"
    and "url_path (mk_url p) \<noteq> []" "hd (url_path (mk_url p)) = CHR ''/''"
proof -
  have t: "up_target p \<noteq> []" "hd (up_target p) = CHR ''/''" using assms by (auto simp: wf_target_def)
  have "url_target (mk_url p) = url_path (mk_url p) @
      (if CHR ''?'' \<in> set (up_target p) then CHR ''?'' # url_query (mk_url p) else url_query (mk_url p))
    \<and> url_path (mk_url p) \<noteq> [] \<and> hd (url_path (mk_url p)) = CHR ''/''"
  proof (cases "find_chr (CHR ''?'') (up_target p)")
    case None
    then have "CHR ''?'' \<notin> set (up_target p)" by (auto simp: find_if_None)
    with None t show ?thesis by (simp add: mk_url_path mk_url_query)
  next
    case (Some q)
    then obtain pre post where pre: "up_target p = pre @ CHR ''?'' # post" "length pre = q"
      by (cases rule: find_ifE) auto
    then have "pre \<noteq> []" using t by (auto simp: hd_append)
    with pre Some t show ?thesis by (auto simp: mk_url_path mk_url_query hd_append)
  qed
  then show "url_target (mk_url p) = url_path (mk_url p) @
      (if CHR ''?'' \<in> set (up_target p) then CHR ''?'' # url_query (mk_url p) else url_query (mk_url p))"
    "url_path (mk_url p) \<noteq> []" "hd (url_path (mk_url p)) = CHR ''/''" by simp_all
qed

text \<open>
  C35: The accessors of a parsed URL are consistent.  The scheme is \<open>http\<close>, the port is not 0, the
  storage is the scheme, the authority and the target, the target is the path with the query, and
  neither host nor target has a byte (blank, control byte, \<open>#\<close>) that could end a request line.
\<close>

theorem url_parse_components:
  assumes "Url_parse inet input = Inr u"
  shows "url_scheme u = ''http'' \<and> url_host u \<noteq> [] \<and> url_port u \<noteq> 0
    \<and> (has_explicit_port u \<or> url_port u = 80)
    \<and> url_path u \<noteq> [] \<and> hd (url_path u) = CHR ''/''
    \<and> (url_target u = url_path u @ url_query u \<and> url_query u = []
       \<or> url_target u = url_path u @ ''?'' @ url_query u)
    \<and> (\<forall>c \<in> set (url_host u) \<union> set (url_target u). \<not> forbidden_url_byte c \<and> c \<noteq> CHR ''#'')"
proof -
  from assms obtain p where p: "wf_parts inet p" "u = mk_url p" by (rule Url_parse_parts)
  have wf: "wf_target (up_target p)" "wf_authority inet p" using p(1) by (auto simp: wf_parts_def)
  have q: "CHR ''?'' \<notin> set (up_target p) \<Longrightarrow> url_query (mk_url p) = []"
  proof -
    assume "CHR ''?'' \<notin> set (up_target p)"
    then have "find_chr (CHR ''?'') (up_target p) = None" unfolding find_if_None by blast
    then show ?thesis by (simp add: mk_url_query)
  qed
  show ?thesis
    using mk_url_path_query [OF wf(1)] render_authority_ne [OF wf(2)] port_of_nonzero [OF p(1)]
      wf_parts_bytes [OF p(1)] q
    by (cases "CHR ''?'' \<in> set (up_target p)") (auto simp: p(2) port_of_def split: option.splits)
qed

definition demo_url :: string
  where "demo_url = ''HTTP://[::1]:8080?q=%41#top''"

lemma demo_url_parse:
  "Url_parse (\<lambda>t. t = ''::1'') demo_url =
     Inr (mk_url \<lparr>up_ipv6 = True, up_host = ''::1'', up_port = Some ''8080'', up_target = ''/?q=%41''\<rparr>)"
  by code_simp

theorem url_parse_components_witness:
  "\<exists>u. Url_parse (\<lambda>t. t = ''::1'') demo_url = Inr u \<and> url_scheme u = ''http'' \<and> url_port u \<noteq> 0"
  using url_parse_components [OF demo_url_parse] demo_url_parse by blast

text \<open>
  The normal form is stable: parsing the storage of a parsed URL, as a redirect does with the
  text it builds from one, gives the same object.
\<close>

lemma url_parse_stable:
  assumes "Url_parse inet input = Inr u"
  shows "Url_parse inet (url_storage u) = Inr u"
  using assms by (rule Url_parse_idempotent)

lemma url_parse_stable_witness:
  "Url_parse (\<lambda>t. t = ''::1'') ''http://[::1]:8080/?q=%41'' = Url_parse (\<lambda>t. t = ''::1'') demo_url"
proof -
  have "url_storage (mk_url \<lparr>up_ipv6 = True, up_host = ''::1'', up_port = Some ''8080'',
      up_target = ''/?q=%41''\<rparr>) = ''http://[::1]:8080/?q=%41''" by code_simp
  with url_parse_stable [OF demo_url_parse] show ?thesis by (simp only: demo_url_parse)
qed

end
