(* ===== verification/Request_Serializer.thy ===== *)
theory Request_Serializer
  imports Request_Model Url_Model
begin

text \<open>
  \<open>serialize_request\<close> and \<open>effective_request_url\<close> of \<open>src/http/request_serializer.cpp\<close>, with their
  helpers.  A buffer the code appends to is an argument that is returned longer.
\<close>

fun method_token :: "http_method \<Rightarrow> string"
where
  "method_token Get = ''GET''"
| "method_token Head = ''HEAD''"
| "method_token Post = ''POST''"
| "method_token Put = ''PUT''"
| "method_token Patch = ''PATCH''"
| "method_token Delete = ''DELETE''"

definition method_has_content_semantics :: "http_method \<Rightarrow> bool"
  where "method_has_content_semantics m = (m = Post \<or> m = Put \<or> m = Patch)"

definition is_unreserved :: "char \<Rightarrow> bool"
where
  "is_unreserved ch =
     ((CHR ''0'' \<le> ch \<and> ch \<le> CHR ''9'') \<or> (CHR ''A'' \<le> ch \<and> ch \<le> CHR ''Z'')
      \<or> (CHR ''a'' \<le> ch \<and> ch \<le> CHR ''z'')
      \<or> ch = CHR ''-'' \<or> ch = CHR ''.'' \<or> ch = CHR ''_'' \<or> ch = CHR ''~'')"

definition kHex :: string
  where "kHex = ''0123456789ABCDEF''"

fun append_percent_encoded :: "string \<Rightarrow> string \<Rightarrow> string"
where
  "append_percent_encoded out [] = out"
| "append_percent_encoded out (ch # rest) =
     (if is_unreserved ch then append_percent_encoded (out @ [ch]) rest
      else append_percent_encoded
             (out @ [CHR ''%'', kHex ! (byte ch div 16 mod 16), kHex ! (byte ch mod 16)]) rest)"

text \<open>The loop over the parameters: \<open>index\<close> counts those that are done.\<close>

fun query_loop :: "string \<Rightarrow> nat \<Rightarrow> query_param list \<Rightarrow> string"
where
  "query_loop out index [] = out"
| "query_loop out index (p # ps) =
     (let out = (if index \<noteq> 0 then out @ ''&'' else out);
          out = append_percent_encoded out (qp_name p) @ ''='';
          out = append_percent_encoded out (qp_value p)
      in query_loop out (index + 1) ps)"

definition append_query_params :: "string \<Rightarrow> query_param list \<Rightarrow> string"
where
  "append_query_params out params =
     (if params = [] then out
      else
        let has_query = (find_chr (CHR ''?'') out \<noteq> None);
            out = (if \<not> has_query then out @ ''?''
                   else if out \<noteq> [] \<and> last out \<noteq> CHR ''?'' \<and> last out \<noteq> CHR ''&'' then out @ ''&''
                   else out)
        in query_loop out 0 params)"

text \<open>\<open>valid_header_name\<close> and \<open>valid_header_value\<close> have the bodies of \<open>valid_field_name\<close> and
  \<open>valid_field_value\<close>.\<close>

definition valid_header_name :: "string \<Rightarrow> bool"
  where "valid_header_name name = (if name = [] then False else list_all is_tchar name)"

definition valid_header_value :: "string \<Rightarrow> bool"
  where "valid_header_value v = list_all (\<lambda>ch. ch = htab \<or> \<not> (byte ch < 0x20 \<or> byte ch = 0x7f)) v"

definition parse_length_text :: "string \<Rightarrow> nat option"
  where "parse_length_text text = (if text = [] then None else from_chars_all 10 64 text)"

definition append_decimal :: "string \<Rightarrow> nat \<Rightarrow> string"
  where "append_decimal out v = out @ to_decimal v"

definition append_port :: "string \<Rightarrow> uint16 \<Rightarrow> string"
  where "append_port out port = out @ to_decimal (unat port)"

definition append_generated_host :: "string \<Rightarrow> url \<Rightarrow> string"
where
  "append_generated_host out u =
     (let out = out @ ''Host: '';
          out = (if host_is_ipv6_literal u then out @ ''['' @ url_host u @ '']'' else out @ url_host u);
          out = (if has_explicit_port u then append_port (out @ '':'') (url_port u) else out)
      in out @ crlf)"

fun encoded_query_reserve :: "query_param list \<Rightarrow> nat"
where
  "encoded_query_reserve [] = 0"
| "encoded_query_reserve (p # ps) =
     (length (qp_name p) + length (qp_value p)) * 3 + 2 + encoded_query_reserve ps"

definition effective_request_url :: "request \<Rightarrow> string"
where
  "effective_request_url r =
     append_query_params (take_opt (find_chr (CHR ''#'') (req_url r)) (req_url r)) (req_params r)"

section \<open>\<open>serialize_request\<close>\<close>

record serialized_request =
  ser_url :: url
  ser_head :: string
  ser_body :: string

text \<open>The loop over the header fields (lines 244 to 262): it counts and checks.\<close>

record header_scan =
  host_count :: nat
  content_length_count :: nat
  declared_content_length :: nat

fun scan_headers :: "header_scan \<Rightarrow> headers \<Rightarrow> header_scan result"
where
  "scan_headers st [] = Inr st"
| "scan_headers st (f # fs) =
     (if \<not> valid_header_name (field_name f) \<or> \<not> valid_header_value (field_value f)
      then fail InvalidHeader
      else if ascii_iequals (field_name f) ''Host'' then
        (if field_value f = [] then fail InvalidHeader
         else scan_headers (st\<lparr>host_count := host_count st + 1\<rparr>) fs)
      else if ascii_iequals (field_name f) ''Content-Length'' then
        (case parse_length_text (field_value f) of
           None \<Rightarrow> fail InvalidContentLength
         | Some v \<Rightarrow>
             scan_headers (st\<lparr>content_length_count := content_length_count st + 1,
                              declared_content_length := v\<rparr>) fs)
      else if ascii_iequals (field_name f) ''Transfer-Encoding'' then fail ConflictingMessageFraming
      else scan_headers st fs)"

fun append_fields :: "string \<Rightarrow> headers \<Rightarrow> string"
where
  "append_fields out [] = out"
| "append_fields out (f # fs) =
     append_fields (out @ field_name f @ '': '' @ field_value f @ crlf) fs"

definition build_head :: "request \<Rightarrow> url \<Rightarrow> header_scan \<Rightarrow> string"
where
  "build_head r u sc =
     (let request_target = append_query_params (url_target u) (req_params r);
          h = method_token (req_method r) @ '' '' @ request_target @ '' HTTP/1.1'' @ crlf;
          h = (if host_count sc = 0 then append_generated_host h u else h);
          h = append_fields h (req_headers r);
          h = (if content_length_count sc = 0
                  \<and> (req_body r \<noteq> [] \<or> method_has_content_semantics (req_method r))
               then append_decimal (h @ ''Content-Length: '') (length (req_body r)) @ crlf
               else h)
      in h @ crlf)"

definition serialize_request :: "(string \<Rightarrow> bool) \<Rightarrow> request \<Rightarrow> serialized_request result"
where
  "serialize_request inet r =
     (case Url_parse inet (req_url r) of
        Inl e \<Rightarrow> Inl e
      | Inr u \<Rightarrow>
          if method_token (req_method r) = [] then fail Unknown
          else
            (case scan_headers \<lparr>host_count = 0, content_length_count = 0,
                                declared_content_length = 0\<rparr> (req_headers r) of
               Inl e \<Rightarrow> Inl e
             | Inr sc \<Rightarrow>
                 if host_count sc > 1 then fail InvalidHeader
                 else if content_length_count sc > 1 then fail InvalidContentLength
                 else if content_length_count sc = 1
                         \<and> declared_content_length sc \<noteq> length (req_body r)
                 then fail InvalidContentLength
                 else Inr \<lparr>ser_url = u, ser_head = build_head r u sc, ser_body = req_body r\<rparr>))"

section \<open>Query parameters\<close>

definition percent_char :: "char \<Rightarrow> string"
where
  "percent_char ch =
     (if is_unreserved ch then [ch] else [CHR ''%'', kHex ! (byte ch div 16 mod 16), kHex ! (byte ch mod 16)])"

abbreviation percent_encode :: "string \<Rightarrow> string"
  where "percent_encode s \<equiv> concat (map percent_char s)"

definition param_text :: "query_param \<Rightarrow> string"
  where "param_text p = percent_encode (qp_name p) @ ''='' @ percent_encode (qp_value p)"

definition query_text :: "query_param list \<Rightarrow> string"
  where "query_text ps = join_with ''&'' (map param_text ps)"

lemma append_percent_encoded_eq: "append_percent_encoded out s = out @ percent_encode s"
  by (induction out s rule: append_percent_encoded.induct) (auto simp: percent_char_def)

lemma query_loop_Suc: "query_loop out (Suc i) ps = out @ concat (map (\<lambda>p. CHR ''&'' # param_text p) ps)"
  by (induction ps arbitrary: out i) (simp_all add: append_percent_encoded_eq param_text_def)

lemma join_Cons: "join_with [c] (x # xs) = x @ concat (map ((#) c) xs)"
  by (induction xs arbitrary: x) simp_all

lemma query_loop_0: "query_loop out 0 ps = out @ query_text ps"
  by (cases ps) (simp_all add: query_loop_Suc query_text_def join_Cons append_percent_encoded_eq
      param_text_def comp_def)

definition query_separator :: "string \<Rightarrow> string"
where
  "query_separator out =
     (if CHR ''?'' \<notin> set out then ''?''
      else if last out \<noteq> CHR ''?'' \<and> last out \<noteq> CHR ''&'' then ''&'' else [])"

lemma append_query_params_eq:
  "append_query_params out ps = (if ps = [] then out else out @ query_separator out @ query_text ps)"
  by (auto simp: append_query_params_def Let_def query_loop_0 query_separator_def find_if_None)

text \<open>Reading the parameters back: the receiver's side.\<close>

fun percent_decode :: "string \<Rightarrow> string option"
where
  "percent_decode [] = Some []"
| "percent_decode (ch # rest) =
     (if ch \<noteq> CHR ''%'' then map_option ((#) ch) (percent_decode rest)
      else (case rest of
              a # b # cs \<Rightarrow>
                (case (digit_val a, digit_val b) of
                   (Some x, Some y) \<Rightarrow> map_option ((#) (char_of (16 * x + y))) (percent_decode cs)
                 | _ \<Rightarrow> None)
            | _ \<Rightarrow> None))"

definition decode_param :: "string \<Rightarrow> query_param option"
where
  "decode_param t =
     (case find_chr (CHR ''='') t of
        None \<Rightarrow> None
      | Some i \<Rightarrow>
          (case (percent_decode (take i t), percent_decode (drop (i + 1) t)) of
             (Some n, Some v) \<Rightarrow> Some \<lparr>qp_name = n, qp_value = v\<rparr>
           | _ \<Rightarrow> None))"

text \<open>The query of a target stands behind its first question mark; empty pieces of it are not parameters.\<close>

definition query_of :: "string \<Rightarrow> string"
  where "query_of target = drop 1 (dropWhile (\<lambda>c. c \<noteq> CHR ''?'') target)"

definition decode_query :: "string \<Rightarrow> query_param option list"
  where "decode_query q = map decode_param (filter (\<lambda>t. t \<noteq> []) (split_on (CHR ''&'') q))"

lemma percent_char_decode: "percent_decode (percent_char c @ s) = map_option ((#) c) (percent_decode s)"
proof -
  have "\<forall>c. is_unreserved c \<and> c \<noteq> CHR ''%'' \<or> (\<not> is_unreserved c
      \<and> digit_val (kHex ! (byte c div 16 mod 16)) = Some (byte c div 16)
      \<and> digit_val (kHex ! (byte c mod 16)) = Some (byte c mod 16))" by code_simp
  then have "is_unreserved c \<and> c \<noteq> CHR ''%'' \<or> (\<not> is_unreserved c
      \<and> digit_val (kHex ! (byte c div 16 mod 16)) = Some (byte c div 16)
      \<and> digit_val (kHex ! (byte c mod 16)) = Some (byte c mod 16))" by blast
  then show ?thesis
    by (elim disjE conjE) (simp_all add: percent_char_def)
qed

lemma percent_decode_encode: "percent_decode (percent_encode s) = Some s"
  by (induction s) (simp_all add: percent_char_decode)

text \<open>The bytes an encoded text consists of.\<close>

definition query_byte :: "char \<Rightarrow> bool"
  where "query_byte c = (\<not> forbidden_url_byte c \<and> c \<notin> set ''#?&=/'')"

lemma percent_char_bytes: "c \<in> set (percent_char d) \<Longrightarrow> query_byte c"
proof -
  have "\<forall>d. list_all query_byte (percent_char d)" by code_simp
  then show "c \<in> set (percent_char d) \<Longrightarrow> query_byte c" by (auto simp: list_all_iff)
qed

lemma percent_encode_bytes: "c \<in> set (percent_encode s) \<Longrightarrow> query_byte c"
  by (auto dest: percent_char_bytes)

lemma param_text_amp: "CHR ''&'' \<notin> set (param_text p)"
  by (auto simp: param_text_def query_byte_def dest: percent_char_bytes)

lemma decode_param_text: "decode_param (param_text p) = Some p"
proof -
  have "find_chr (CHR ''='') (percent_encode (qp_name p) @ CHR ''='' # percent_encode (qp_value p))
      = Some (length (percent_encode (qp_name p)))"
    by (intro find_if_split) (auto simp: query_byte_def dest: percent_char_bytes)
  then show ?thesis by (simp add: decode_param_def param_text_def percent_decode_encode)
qed

lemma split_query_text: "ps \<noteq> [] \<Longrightarrow> split_on (CHR ''&'') (query_text ps) = map param_text ps"
  unfolding query_text_def by (intro split_join) (auto simp: param_text_amp)

lemma decode_query_text: "ps \<noteq> [] \<Longrightarrow> decode_query (query_text ps) = map Some ps"
proof -
  assume "ps \<noteq> []"
  moreover have "param_text p \<noteq> []" for p by (simp add: param_text_def)
  ultimately show ?thesis by (simp add: decode_query_def split_query_text decode_param_text)
qed

lemma decode_query_amp: "decode_query (q @ CHR ''&'' # r) = decode_query q @ decode_query r"
  by (simp add: decode_query_def split_on_append)

lemma decode_query_Nil: "decode_query [] = []"
  by (simp add: decode_query_def)

text \<open>What appending does to the query of a target.\<close>

lemma decode_appended:
  assumes "ps \<noteq> []" and "query_of t = [] \<or> last (query_of t) \<noteq> CHR ''?''"
  shows "decode_query (query_of (append_query_params t ps)) = decode_query (query_of t) @ map Some ps"
proof (cases "CHR ''?'' \<in> set t")
  case False
  then have q: "query_of (t @ x) = query_of x" for x by (auto simp: query_of_def dropWhile_append)
  from q [of "[]"] have "query_of t = []" by (simp add: query_of_def)
  moreover have "query_of (append_query_params t ps) = query_text ps"
    using False assms(1) q [of "''?'' @ query_text ps"]
    by (simp add: append_query_params_eq query_separator_def query_of_def)
  ultimately show ?thesis by (simp add: decode_query_text [OF assms(1)] decode_query_Nil)
next
  case True
  then obtain a q where t: "t = a @ CHR ''?'' # q" "CHR ''?'' \<notin> set a" by (meson split_list_first)
  then have "dropWhile (\<lambda>c. c \<noteq> CHR ''?'') (a @ CHR ''?'' # x) = CHR ''?'' # x" for x
    by (auto simp: dropWhile_append)
  then have q: "query_of t = q" "query_of (append_query_params t ps) = q @ query_separator t @ query_text ps"
    using assms(1) by (simp_all add: query_of_def t append_query_params_eq)
  consider "q = []" | "q \<noteq> []" "last q = CHR ''&''" | "q \<noteq> []" "last q \<noteq> CHR ''&''" by blast
  then show ?thesis
  proof cases
    case 1
    then have "query_separator t = []" by (simp add: query_separator_def t)
    with 1 show ?thesis by (simp add: q decode_query_text [OF assms(1)] decode_query_Nil)
  next
    case 2
    then obtain q0 where q0: "q = q0 @ CHR ''&'' # []" by (metis append_butlast_last_id)
    then have "query_separator t = []" by (simp add: query_separator_def t)
    then show ?thesis by (simp add: q q0 decode_query_amp decode_query_text [OF assms(1)] decode_query_Nil)
  next
    case 3
    then have "last q \<noteq> CHR ''?''" using assms(2) q(1) by simp
    with 3 have "query_separator t = ''&''" by (simp add: query_separator_def t)
    then show ?thesis by (simp add: q decode_query_amp decode_query_text [OF assms(1)])
  qed
qed

text \<open>
  The exception: a query that ends in a question mark of its own gets no separator, and the first name is glued to
  the last piece.
\<close>

lemma query_param_glued:
  "append_query_params ''/p?a?'' [\<lparr>qp_name = ''k'', qp_value = ''v''\<rparr>] = ''/p?a?k=v''
   \<and> decode_query (query_of ''/p?a?k=v'') = [Some \<lparr>qp_name = ''a?k'', qp_value = ''v''\<rparr>]"
  by code_simp

lemma percent_char_escapes: "valid_percent_escapes (percent_char c @ s) = valid_percent_escapes s"
proof -
  have "\<forall>c. is_unreserved c \<and> c \<noteq> CHR ''%'' \<or> (\<not> is_unreserved c
      \<and> is_hex_digit (kHex ! (byte c div 16 mod 16)) \<and> is_hex_digit (kHex ! (byte c mod 16)))" by code_simp
  then have "is_unreserved c \<and> c \<noteq> CHR ''%'' \<or> (\<not> is_unreserved c
      \<and> is_hex_digit (kHex ! (byte c div 16 mod 16)) \<and> is_hex_digit (kHex ! (byte c mod 16)))" by blast
  then show ?thesis by (auto simp: percent_char_def)
qed

lemma percent_encode_escapes: "valid_percent_escapes (percent_encode t @ s) = valid_percent_escapes s"
  by (induction t) (simp_all add: percent_char_escapes)

text \<open>The buffers reserved for the encoded query suffice, so appending never reallocates.\<close>

lemma length_percent_encode: "length (percent_encode s) \<le> 3 * length s"
  by (induction s) (simp_all add: percent_char_def)

lemma length_query_text: "ps \<noteq> [] \<Longrightarrow> length (query_text ps) + 1 \<le> encoded_query_reserve ps"
proof (induction ps)
  case (Cons p ps)
  have "length (param_text p) + 1 \<le> (length (qp_name p) + length (qp_value p)) * 3 + 2"
    using length_percent_encode [of "qp_name p"] length_percent_encode [of "qp_value p"]
    by (simp add: param_text_def)
  then show ?case
    using Cons by (cases ps) (simp_all add: query_text_def)
qed simp

end
