(* ===== verification/Request_Wire.thy ===== *)
theory Request_Wire
  imports Request_Serializer
begin

text \<open>
  What \<open>serialize_request\<close> writes, seen from the server: the head is cut into lines at CRLF
  (\<open>read_head\<close>), the fields on the wire are \<open>sent_fields\<close>, and the query of the target is read back
  with \<open>decode_query\<close>.
\<close>

section \<open>The receiver's reading of a head\<close>

text \<open>\<open>read_head s\<close> cuts lines off at CRLF up to the empty line; the rest is the body.\<close>

function read_head :: "string \<Rightarrow> (string list \<times> string) option"
where
  "read_head s =
     (case find_str crlf s of
        None \<Rightarrow> None
      | Some e \<Rightarrow>
          if e = 0 then Some ([], drop 2 s)
          else map_option (\<lambda>(ls, rest). (take e s # ls, rest)) (read_head (drop (e + 2) s)))"
  by pat_completeness auto
termination
  by (relation "measure length") (auto dest: find_str_Some_le)

declare read_head.simps [simp del]

definition no_line_end :: "string \<Rightarrow> bool"
  where "no_line_end s = (CHR 0x0D \<notin> set s \<and> CHR 0x0A \<notin> set s)"

lemma read_head_lines:
  "\<forall>l \<in> set ls. l \<noteq> [] \<and> no_line_end l \<Longrightarrow>
     read_head (concat (map (\<lambda>l. l @ crlf) ls) @ crlf @ rest) = Some (ls, rest)"
proof (induction ls)
  case Nil
  then show ?case by (subst read_head.simps) simp
next
  case (Cons l ls)
  let ?t = "concat (map (\<lambda>l. l @ crlf) ls) @ crlf @ rest"
  have "find_str crlf l = None" using Cons.prems by (intro find_str_absent) (auto simp: no_line_end_def)
  then have "find_str crlf (l @ crlf @ ?t) = Some (length l)" by (rule find_crlf_line)
  with Cons show ?case by (subst read_head.simps) simp
qed

section \<open>What the serializer writes\<close>

definition field_line :: "field \<Rightarrow> string"
  where "field_line f = field_name f @ '': '' @ field_value f"

definition host_text :: "url \<Rightarrow> string"
where
  "host_text u =
     (if host_is_ipv6_literal u then ''['' @ url_host u @ '']'' else url_host u)
     @ (if has_explicit_port u then CHR '':'' # to_decimal (unat (url_port u)) else [])"

definition needs_length :: "request \<Rightarrow> bool"
where
  "needs_length r =
     (values_of (req_headers r) ''Content-Length'' = []
      \<and> (req_body r \<noteq> [] \<or> method_has_content_semantics (req_method r)))"

text \<open>The fields on the wire: a generated \<open>Host\<close>, the caller's fields, a generated length.\<close>

definition sent_fields :: "request \<Rightarrow> url \<Rightarrow> headers"
where
  "sent_fields r u =
     (if values_of (req_headers r) ''Host'' = [] then [mk_field ''Host'' (host_text u)] else [])
     @ req_headers r
     @ (if needs_length r then [mk_field ''Content-Length'' (to_decimal (length (req_body r)))] else [])"

definition request_line :: "request \<Rightarrow> url \<Rightarrow> string"
where
  "request_line r u =
     method_token (req_method r) @ '' '' @ append_query_params (url_target u) (req_params r) @ '' HTTP/1.1''"

definition acceptable_field :: "field \<Rightarrow> bool"
where
  "acceptable_field f =
     (valid_field_name (field_name f) \<and> valid_field_value (field_value f)
      \<and> \<not> ascii_iequals (field_name f) ''Transfer-Encoding''
      \<and> (ascii_iequals (field_name f) ''Host'' \<longrightarrow> field_value f \<noteq> [])
      \<and> (ascii_iequals (field_name f) ''Content-Length'' \<longrightarrow>
           from_chars_all 10 64 (field_value f) \<noteq> None))"

lemma valid_header_eq [simp]:
  "valid_header_name = valid_field_name" "valid_header_value = valid_field_value"
  by (auto simp: fun_eq_iff valid_header_name_def valid_field_name_def valid_header_value_def
      valid_field_value_def field_byte_def list_all_iff)

lemma parse_length_text_eq [simp]: "parse_length_text t = from_chars_all 10 64 t"
proof -
  have "from_chars_all 10 64 [] = None" by (metis from_chars_all_Some not_Some_eq)
  then show ?thesis by (simp add: parse_length_text_def)
qed

lemma names_distinct:
  "ascii_iequals n ''Host'' \<Longrightarrow> \<not> ascii_iequals n ''Content-Length'' \<and> \<not> ascii_iequals n ''Transfer-Encoding''"
  "ascii_iequals n ''Content-Length'' \<Longrightarrow> \<not> ascii_iequals n ''Transfer-Encoding''"
  by (auto simp: ascii_iequals_def)

text \<open>The scan counts the two names and keeps the last length.\<close>

definition scanned :: "header_scan \<Rightarrow> headers \<Rightarrow> header_scan"
where
  "scanned st fs =
     \<lparr>host_count = host_count st + length (values_of fs ''Host''),
      content_length_count = content_length_count st + length (values_of fs ''Content-Length''),
      declared_content_length =
        (case rev (values_of fs ''Content-Length'') of
           [] \<Rightarrow> declared_content_length st
         | v # vs \<Rightarrow> the (from_chars_all 10 64 v))\<rparr>"

lemma values_of_Cons:
  "values_of (f # fs) n = (if ascii_iequals (field_name f) n then field_value f # values_of fs n else values_of fs n)"
  by (simp add: values_of_def)

lemma scanned_Cons:
  "ascii_iequals (field_name f) ''Host'' \<Longrightarrow> scanned (st\<lparr>host_count := host_count st + 1\<rparr>) fs = scanned st (f # fs)"
  "ascii_iequals (field_name f) ''Content-Length'' \<Longrightarrow> from_chars_all 10 64 (field_value f) = Some v \<Longrightarrow>
     scanned (st\<lparr>content_length_count := content_length_count st + 1, declared_content_length := v\<rparr>) fs
     = scanned st (f # fs)"
  "\<not> ascii_iequals (field_name f) ''Host'' \<Longrightarrow> \<not> ascii_iequals (field_name f) ''Content-Length'' \<Longrightarrow>
     scanned st (f # fs) = scanned st fs"
  using names_distinct
  by (auto simp: scanned_def values_of_Cons append_eq_Cons_conv split: list.splits cong: list.case_cong)

lemma scan_headers_eq:
  "scan_headers st fs = Inr sc \<longleftrightarrow> list_all acceptable_field fs \<and> sc = scanned st fs"
proof (induction st fs rule: scan_headers.induct)
  case (1 st)
  then show ?case by (auto simp: scanned_def values_of_def)
next
  case (2 st f fs)
  show ?case
  proof (cases "valid_field_name (field_name f) \<and> valid_field_value (field_value f)")
    case True
    consider (host) "ascii_iequals (field_name f) ''Host''"
      | (len) "ascii_iequals (field_name f) ''Content-Length''"
      | (te) "ascii_iequals (field_name f) ''Transfer-Encoding''"
      | (other) "\<not> ascii_iequals (field_name f) ''Host''" "\<not> ascii_iequals (field_name f) ''Content-Length''"
          "\<not> ascii_iequals (field_name f) ''Transfer-Encoding''" by blast
    then show ?thesis
    proof cases
      case host
      then show ?thesis
        using "2.IH"(1) True names_distinct(1) [OF host] scanned_Cons(1) [OF host]
        by (auto simp: acceptable_field_def)
    next
      case len
      then have "\<not> ascii_iequals (field_name f) ''Host''" using names_distinct(1) by blast
      with len show ?thesis
        using "2.IH"(2) True names_distinct(2) [OF len] scanned_Cons(2) [OF len]
        by (auto simp: acceptable_field_def split: option.splits)
    next
      case te
      then have "\<not> ascii_iequals (field_name f) ''Host''" "\<not> ascii_iequals (field_name f) ''Content-Length''"
        using names_distinct by blast+
      with te True show ?thesis by (simp add: acceptable_field_def)
    next
      case other
      then show ?thesis
        using "2.IH"(3) True scanned_Cons(3)
        by (auto simp: acceptable_field_def)
    qed
  qed (auto simp: acceptable_field_def)
qed

lemma append_fields_eq: "append_fields out fs = out @ concat (map (\<lambda>f. field_line f @ crlf) fs)"
  by (induction out fs rule: append_fields.induct) (simp_all add: field_line_def)

lemma append_generated_host_eq:
  "append_generated_host out u = out @ field_line (mk_field ''Host'' (host_text u)) @ crlf"
  by (simp add: append_generated_host_def append_port_def host_text_def field_line_def mk_field_def Let_def)

definition empty_scan :: header_scan
  where "empty_scan = \<lparr>host_count = 0, content_length_count = 0, declared_content_length = 0\<rparr>"

lemma build_head_eq:
  "build_head r u (scanned empty_scan (req_headers r)) =
     concat (map (\<lambda>l. l @ crlf) (request_line r u # map field_line (sent_fields r u))) @ crlf"
  by (simp add: build_head_def Let_def scanned_def empty_scan_def append_fields_eq append_generated_host_eq
      append_decimal_def sent_fields_def request_line_def needs_length_def mk_field_def field_line_def comp_def)

text \<open>When it succeeds, and with what.\<close>

definition well_framed :: "request \<Rightarrow> bool"
where
  "well_framed r =
     (list_all acceptable_field (req_headers r)
      \<and> length (values_of (req_headers r) ''Host'') \<le> 1
      \<and> (case values_of (req_headers r) ''Content-Length'' of
           [] \<Rightarrow> True
         | [v] \<Rightarrow> from_chars_all 10 64 v = Some (length (req_body r))
         | _ \<Rightarrow> False))"

lemma acceptable_lengths:
  "list_all acceptable_field fs \<Longrightarrow> v \<in> set (values_of fs ''Content-Length'') \<Longrightarrow> from_chars_all 10 64 v \<noteq> None"
  by (auto simp: values_of_def list_all_iff acceptable_field_def)

lemma method_token_nonempty [simp]: "method_token m \<noteq> []"
  by (cases m) simp_all

lemma serialize_request_Inr:
  "serialize_request inet r = Inr s \<longleftrightarrow>
     Url_parse inet (req_url r) = Inr (ser_url s) \<and> well_framed r
     \<and> s = \<lparr>ser_url = ser_url s,
            ser_head = concat (map (\<lambda>l. l @ crlf) (request_line r (ser_url s)
                         # map field_line (sent_fields r (ser_url s)))) @ crlf,
            ser_body = req_body r\<rparr>"
proof (cases "Url_parse inet (req_url r)")
  case (Inl e)
  then show ?thesis by (auto simp: serialize_request_def)
next
  case (Inr u)
  show ?thesis
  proof (cases "list_all acceptable_field (req_headers r)")
    case False
    then have "scan_headers empty_scan (req_headers r) \<noteq> Inr sc" for sc by (simp add: scan_headers_eq)
    then obtain e where "scan_headers empty_scan (req_headers r) = Inl e"
      by (cases "scan_headers empty_scan (req_headers r)") auto
    with False Inr show ?thesis by (simp add: serialize_request_def empty_scan_def well_framed_def)
  next
    case True
    let ?sc = "scanned empty_scan (req_headers r)"
    have sc: "scan_headers empty_scan (req_headers r) = Inr ?sc" using True by (simp add: scan_headers_eq)
    have wf: "well_framed r \<longleftrightarrow> \<not> host_count ?sc > 1 \<and> \<not> content_length_count ?sc > 1
        \<and> \<not> (content_length_count ?sc = 1 \<and> declared_content_length ?sc \<noteq> length (req_body r))"
      using True acceptable_lengths [OF True]
      by (cases "values_of (req_headers r) ''Content-Length''"
          "tl (values_of (req_headers r) ''Content-Length'')" rule: list.exhaust [case_product list.exhaust])
        (auto simp: well_framed_def scanned_def empty_scan_def)
    show ?thesis
      using sc Inr unfolding serialize_request_def empty_scan_def [symmetric]
      by (auto simp: wf build_head_eq)
  qed
qed

section \<open>The lines of a head\<close>

lemma no_line_end_simps [simp]:
  "no_line_end []"
  "no_line_end (c # s) \<longleftrightarrow> c \<noteq> CHR 0x0D \<and> c \<noteq> CHR 0x0A \<and> no_line_end s"
  "no_line_end (a @ b) \<longleftrightarrow> no_line_end a \<and> no_line_end b"
  by (auto simp: no_line_end_def)

lemma no_line_end_byte: "\<forall>c \<in> set s. \<not> forbidden_url_byte c \<Longrightarrow> no_line_end s"
  by (auto simp: no_line_end_def forbidden_url_byte_def)

lemma set_join: "c \<in> set (join_with sep xs) \<Longrightarrow> c \<in> set sep \<or> (\<exists>x \<in> set xs. c \<in> set x)"
  by (induction sep xs rule: join_with.induct) auto

lemma query_text_bytes: "c \<in> set (query_text ps) \<Longrightarrow> \<not> forbidden_url_byte c \<and> c \<noteq> CHR ''#'' \<and> c \<noteq> CHR ''?''"
proof -
  have "\<not> forbidden_url_byte (CHR ''&'')" "\<not> forbidden_url_byte (CHR ''='')" by code_simp+
  then show "c \<in> set (query_text ps) \<Longrightarrow> \<not> forbidden_url_byte c \<and> c \<noteq> CHR ''#'' \<and> c \<noteq> CHR ''?''"
    by (auto simp: query_text_def param_text_def query_byte_def
        dest!: set_join percent_char_bytes)
qed

lemma append_query_params_bytes:
  assumes "c \<in> set (append_query_params t ps)" and "\<forall>d \<in> set t. \<not> forbidden_url_byte d \<and> d \<noteq> CHR ''#''"
  shows "\<not> forbidden_url_byte c \<and> c \<noteq> CHR ''#''"
proof -
  have "\<not> forbidden_url_byte (CHR ''&'')" "\<not> forbidden_url_byte (CHR ''?'')" by code_simp+
  then show ?thesis
    using assms by (auto simp: append_query_params_eq query_separator_def dest: query_text_bytes split: if_splits)
qed

text \<open>The target on the wire is free of blanks and control bytes.\<close>

lemma wire_target_bytes:
  assumes "Url_parse inet i = Inr u" and "c \<in> set (append_query_params (url_target u) ps)"
  shows "\<not> forbidden_url_byte c \<and> c \<noteq> CHR ''#''"
proof -
  from assms(1) obtain p where p: "wf_parts inet p" "u = mk_url p" by (rule Url_parse_parts)
  show ?thesis
    by (rule append_query_params_bytes [OF assms(2)]) (use wf_parts_bytes [OF p(1)] p(2) in auto)
qed

lemma decimal_bytes: "c \<in> set (to_decimal n) \<Longrightarrow> field_byte c \<and> c \<noteq> CHR '' ''"
proof -
  have "\<forall>c. is_digit 10 c \<longrightarrow> field_byte c \<and> c \<noteq> CHR '' ''" by code_simp
  moreover have "\<forall>c \<in> set (to_decimal n). is_digit 10 c"
    unfolding to_decimal_def by (rule to_digits_digits) simp_all
  ultimately show "c \<in> set (to_decimal n) \<Longrightarrow> field_byte c \<and> c \<noteq> CHR '' ''" by blast
qed

lemma host_text_value:
  assumes "Url_parse inet i = Inr u"
  shows "host_text u \<noteq> [] \<and> valid_field_value (host_text u)"
proof -
  from assms obtain p where p: "wf_parts inet p" "u = mk_url p" by (rule Url_parse_parts)
  have "\<forall>c. \<not> forbidden_url_byte c \<longrightarrow> field_byte c" by code_simp
  then have h: "\<forall>c \<in> set (up_host p). field_byte c" using wf_parts_bytes [OF p(1)] by blast
  have b: "field_byte (CHR ''['')" "field_byte (CHR '']'')" "field_byte (CHR '':'')" by code_simp+
  have "up_host p \<noteq> []" using p(1) render_authority_ne by (auto simp: wf_parts_def)
  with h b decimal_bytes show ?thesis
    by (auto simp: host_text_def valid_field_value_def list_all_iff p(2))
qed

lemma tchar_fields: "valid_field_name ''Host''" "valid_field_name ''Content-Length''"
  by code_simp+

lemma sent_fields_valid:
  assumes "Url_parse inet i = Inr u" and "list_all acceptable_field (req_headers r)"
    and "f \<in> set (sent_fields r u)"
  shows "valid_field_name (field_name f) \<and> valid_field_value (field_value f)"
  using assms host_text_value [OF assms(1)] tchar_fields decimal_bytes
  by (auto simp: sent_fields_def mk_field_def list_all_iff acceptable_field_def valid_field_value_def
      split: if_splits)

lemma field_line_ok:
  assumes "valid_field_name (field_name f)" and "valid_field_value (field_value f)"
  shows "field_line f \<noteq> [] \<and> no_line_end (field_line f)"
proof -
  have "no_line_end '': ''" by (simp add: no_line_end_def)
  then show ?thesis
    using valid_field_name_no_crlf [OF assms(1)] valid_field_value_no_crlf [OF assms(2)]
    by (simp add: field_line_def no_line_end_def)
qed

lemma request_line_ok:
  assumes "Url_parse inet i = Inr u"
  shows "no_line_end (request_line r u)
    \<and> split_on (CHR '' '') (request_line r u) =
        [method_token (req_method r), append_query_params (url_target u) (req_params r), ''HTTP/1.1'']"
proof -
  let ?t = "append_query_params (url_target u) (req_params r)"
  have t: "\<forall>c \<in> set ?t. \<not> forbidden_url_byte c" using wire_target_bytes [OF assms] by blast
  then have "CHR '' '' \<notin> set ?t" by (auto simp: forbidden_url_byte_def)
  moreover have "CHR '' '' \<notin> set (method_token (req_method r))" "no_line_end (method_token (req_method r))"
    "no_line_end '' HTTP/1.1''" "no_line_end '' ''"
    by (cases "req_method r"; simp add: no_line_end_def)+
  moreover have "split_on (CHR '' '') ''HTTP/1.1'' = [''HTTP/1.1'']" by code_simp
  ultimately show ?thesis
    using no_line_end_byte [OF t] by (simp add: request_line_def split_on_append_sep)
qed

lemma serialized_read_head:
  assumes "serialize_request inet r = Inr s"
  shows "read_head (ser_head s @ b) =
    Some (request_line r (ser_url s) # map field_line (sent_fields r (ser_url s)), b)"
proof -
  from assms have u: "Url_parse inet (req_url r) = Inr (ser_url s)" and wf: "well_framed r"
    and h: "ser_head s = concat (map (\<lambda>l. l @ crlf) (request_line r (ser_url s)
                         # map field_line (sent_fields r (ser_url s)))) @ crlf"
    unfolding serialize_request_Inr by (auto dest: arg_cong [where f = ser_head])
  have "\<forall>l \<in> set (request_line r (ser_url s) # map field_line (sent_fields r (ser_url s))).
      l \<noteq> [] \<and> no_line_end l"
    using request_line_ok [OF u, of r] sent_fields_valid [OF u] wf field_line_ok
    by (auto simp: well_framed_def request_line_def)
  from read_head_lines [OF this, of b] show ?thesis unfolding h by simp
qed

section \<open>The URL a redirect is resolved against\<close>

lemma valid_escapes_append:
  "valid_percent_escapes a \<Longrightarrow> valid_percent_escapes (a @ b) = valid_percent_escapes b"
proof (induction a rule: valid_percent_escapes.induct)
  case (2 c cs)
  show ?case
  proof (cases "c = CHR ''%''")
    case True
    with "2.prems" obtain x y zs where cs: "cs = x # y # zs" "is_hex_digit x" "is_hex_digit y"
        "valid_percent_escapes zs"
      by (auto split: list.splits if_splits)
    with True "2.IH"(2) [OF _ cs(1) refl] show ?thesis by simp
  next
    case False
    with "2" show ?thesis by simp
  qed
qed simp

lemma query_text_escapes: "valid_percent_escapes (query_text ps)"
proof -
  have "valid_percent_escapes (concat (map (\<lambda>p. CHR ''&'' # param_text p) ps))" for ps
    by (induction ps) (simp_all add: param_text_def percent_encode_escapes)
  then show ?thesis
    by (cases ps) (simp_all add: query_text_def join_Cons param_text_def percent_encode_escapes comp_def)
qed

lemma norm_target_append:
  assumes "t = [] \<or> hd t \<in> set ''/?''"
  shows "norm_target (append_query_params t ps) = append_query_params (norm_target t) ps"
  using assms
  by (cases t) (auto simp: norm_target_def append_query_params_eq query_separator_def)

lemma wf_target_append:
  assumes "wf_target t"
  shows "wf_target (append_query_params t ps)"
proof -
  have "\<forall>c \<in> set (append_query_params t ps). \<not> forbidden_url_byte c \<and> c \<noteq> CHR ''#''"
    using append_query_params_bytes [of _ t ps] assms by (auto simp: wf_target_def list_all_iff)
  moreover have "valid_percent_escapes (append_query_params t ps)"
    using assms query_text_escapes
    by (auto simp: wf_target_def append_query_params_eq query_separator_def valid_escapes_append)
  moreover have "append_query_params t ps \<noteq> []" "hd (append_query_params t ps) = CHR ''/''"
    using assms by (auto simp: wf_target_def append_query_params_eq)
  ultimately show ?thesis by (auto simp: wf_target_def list_all_iff)
qed

lemma append_query_params_prefix:
  assumes "CHR ''?'' \<notin> set h"
  shows "append_query_params (h @ t) ps = h @ append_query_params t ps"
  using assms by (auto simp: append_query_params_eq query_separator_def last_append)

lemma authority_bytes:
  "wf_authority inet p \<Longrightarrow> c \<in> set (render_authority p) \<Longrightarrow> c \<notin> set ''/?#@%''"
  by (auto simp: wf_authority_def list_all_iff)

lemma effective_request_url_parse:
  assumes "Url_parse inet (req_url r) = Inr u"
  shows "\<exists>p. u = mk_url p \<and> wf_parts inet p \<and> Url_parse inet (effective_request_url r)
    = Inr (mk_url (p\<lparr>up_target := append_query_params (up_target p) (req_params r)\<rparr>))"
proof -
  from assms obtain p where p: "wf_parts inet p" "u = mk_url p" "url_text inet (req_url r) p"
    by (rule Url_parse_parts)
  then obtain sch t f where e: "req_url r = sch @ ''://'' @ render_authority p @ t @ f"
      "ascii_iequals sch ''http''" "up_target p = norm_target t" "t = [] \<or> hd t \<in> set ''/?''"
      "f = [] \<or> hd f = CHR ''#''"
    by (auto simp: url_text_def)
  let ?ps = "req_params r"
  let ?p = "p\<lparr>up_target := append_query_params (up_target p) ?ps\<rparr>"
  have wft: "wf_target (up_target p)" and wfa: "wf_authority inet p" using p(1) by (auto simp: wf_parts_def)
  let ?h = "sch @ ''://'' @ render_authority p"
  have h: "CHR ''?'' \<notin> set ?h" "CHR ''#'' \<notin> set ?h"
    using http_scheme(3) [OF e(2)] authority_bytes [OF wfa] by auto
  have "CHR ''#'' \<notin> set t"
    using wft e(3) by (auto simp: wf_target_def norm_target_def list_all_iff split: if_splits)
  with h have "CHR ''#'' \<notin> set (?h @ t)" by simp
  from take_opt_fragment [OF this e(5)]
  have eff: "effective_request_url r = sch @ ''://'' @ render_authority p @ append_query_params t ?ps"
    using append_query_params_prefix [OF h(1), of t ?ps] by (simp add: effective_request_url_def e(1))
  have ra: "render_authority ?p = render_authority p" "wf_host inet ?p = wf_host inet p" "wf_port ?p = wf_port p"
    by (simp_all add: render_authority_def render_host_def wf_host_def wf_port_def)
  moreover have "wf_parts inet ?p"
    using wfa wf_target_append [OF wft] by (simp only: wf_parts_def wf_authority_def ra) simp
  moreover have "up_target ?p = norm_target (append_query_params t ?ps)"
    by (simp add: norm_target_append [OF e(4)] e(3))
  moreover have "append_query_params t ?ps = [] \<or> hd (append_query_params t ?ps) \<in> set ''/?''"
    using e(4) by (cases t) (auto simp: append_query_params_eq query_separator_def)
  ultimately have "Url_parse inet (effective_request_url r) = Inr (mk_url ?p)"
    using Url_parse_render [OF e(2), of inet ?p "append_query_params t ?ps" "[]"]
    by (simp add: eff contains_forbidden_url_byte_def)
  with p show ?thesis by blast
qed

section \<open>Properties\<close>

text \<open>
  C5: No header injection.  Whatever the caller puts into fields, URL and query parameters, a server
  that cuts the head at CRLF reads exactly the request line and the fields that were meant, the head
  ends where the serializer ended it, and the request line has exactly three parts.
\<close>

theorem request_head_reads_back:
  assumes "serialize_request inet r = Inr s"
  shows "read_head (ser_head s @ ser_body s) =
      Some (request_line r (ser_url s) # map field_line (sent_fields r (ser_url s)), req_body r)
    \<and> split_on (CHR '' '') (request_line r (ser_url s)) =
      [method_token (req_method r), append_query_params (url_target (ser_url s)) (req_params r), ''HTTP/1.1'']"
proof -
  have "Url_parse inet (req_url r) = Inr (ser_url s)" and "ser_body s = req_body r"
    using assms unfolding serialize_request_Inr by (auto dest: arg_cong [where f = ser_body])
  with serialized_read_head [OF assms, of "ser_body s"] request_line_ok show ?thesis by simp
qed

definition demo_request :: request
where
  "demo_request =
     (add_query_param (mk_request Post ''http://h:81/p?a#f'') ''k'' ''x y'')
       \<lparr>req_headers := [mk_field ''X-Id'' ''7''], req_body := ''hi''\<rparr>"

lemma demo_request_ok: "\<exists>s. serialize_request (\<lambda>t. False) demo_request = Inr s"
proof -
  have "(case serialize_request (\<lambda>t. False) demo_request of Inl e \<Rightarrow> False | Inr s \<Rightarrow> True)" by code_simp
  then show ?thesis by (auto split: sum.splits)
qed

theorem request_head_reads_back_witness:
  "\<exists>s. serialize_request (\<lambda>t. False) demo_request = Inr s
    \<and> map_option snd (read_head (ser_head s @ ser_body s)) = Some ''hi''"
proof -
  have "req_body demo_request = ''hi''" by code_simp
  then show ?thesis using demo_request_ok request_head_reads_back by fastforce
qed

lemma to_decimal_length: "from_chars_all 10 64 (to_decimal n) = (if n < 2 ^ 64 then Some n else None)"
proof (cases "n < 2 ^ 64")
  case True
  then show ?thesis by (simp add: from_chars_to_decimal)
next
  case False
  have "\<not> (\<exists>v. from_chars_all 10 64 (to_decimal n) = Some v)"
    using False to_digits_value [of 10 n] by (auto simp: from_chars_all_Some to_decimal_def)
  with False show ?thesis by (simp add: not_None_eq [symmetric] del: not_None_eq)
qed

lemma wire_names:
  "\<not> ascii_iequals ''Host'' ''Content-Length''" "\<not> ascii_iequals ''Host'' ''Transfer-Encoding''"
  "\<not> ascii_iequals ''Content-Length'' ''Host''" "\<not> ascii_iequals ''Content-Length'' ''Transfer-Encoding''"
  by code_simp+

lemma values_of_append: "values_of (a @ b) n = values_of a n @ values_of b n"
  by (simp add: values_of_def)

lemma values_of_single:
  "values_of (mk_field m v # fs) n = (if ascii_iequals m n then v # values_of fs n else values_of fs n)"
  "values_of [] n = []"
  by (simp_all add: values_of_def mk_field_def)

text \<open>
  C14: The framing on the wire is unambiguous.  Among the fields of the head there is exactly one
  \<open>Host\<close>, not empty, no \<open>Transfer-Encoding\<close>, and at most one \<open>Content-Length\<close>, whose number is the
  length of the body; without one the body is empty.
\<close>

theorem request_framing:
  assumes "serialize_request inet r = Inr s" and "length (req_body r) < 2 ^ 64"
  shows "\<exists>fs. map_option fst (read_head (ser_head s)) = Some (request_line r (ser_url s) # map field_line fs)
    \<and> (\<exists>h. values_of fs ''Host'' = [h] \<and> h \<noteq> [])
    \<and> values_of fs ''Transfer-Encoding'' = []
    \<and> (values_of fs ''Content-Length'' = [] \<and> req_body r = []
       \<or> (\<exists>v. values_of fs ''Content-Length'' = [v] \<and> from_chars_all 10 64 v = Some (length (req_body r))))"
proof -
  let ?fs = "sent_fields r (ser_url s)"
  from assms have u: "Url_parse inet (req_url r) = Inr (ser_url s)" and wf: "well_framed r"
    unfolding serialize_request_Inr by blast+
  have hosts: "length (values_of (req_headers r) ''Host'') \<le> 1"
      "v \<in> set (values_of (req_headers r) ''Host'') \<Longrightarrow> v \<noteq> []" for v
    using wf by (auto simp: well_framed_def list_all_iff acceptable_field_def values_of_def)
  have "\<exists>h. values_of ?fs ''Host'' = [h] \<and> h \<noteq> []"
    using hosts host_text_value [OF u]
    by (cases "values_of (req_headers r) ''Host''")
      (auto simp: sent_fields_def values_of_append values_of_single wire_names)
  moreover have "values_of ?fs ''Transfer-Encoding'' = []"
  proof -
    have "values_of (req_headers r) ''Transfer-Encoding'' = []"
      using wf by (auto simp: well_framed_def values_of_def list_all_iff acceptable_field_def filter_empty_conv)
    then show ?thesis by (simp add: sent_fields_def values_of_append values_of_single wire_names)
  qed
  moreover have "values_of ?fs ''Content-Length'' = [] \<and> req_body r = []
       \<or> (\<exists>v. values_of ?fs ''Content-Length'' = [v] \<and> from_chars_all 10 64 v = Some (length (req_body r)))"
    using wf assms(2) to_decimal_length
    by (cases "values_of (req_headers r) ''Content-Length''")
      (auto simp: sent_fields_def values_of_append values_of_single wire_names well_framed_def needs_length_def
        split: list.splits)
  ultimately show ?thesis
    using serialized_read_head [OF assms(1), of "[]"] by (intro exI [of _ ?fs]) simp
qed

theorem request_framing_witness:
  "\<exists>s fs. serialize_request (\<lambda>t. False) demo_request = Inr s
    \<and> map_option fst (read_head (ser_head s)) = Some (request_line demo_request (ser_url s) # map field_line fs)
    \<and> values_of fs ''Transfer-Encoding'' = []"
proof -
  have "length (req_body demo_request) < 2 ^ 64" by code_simp
  with demo_request_ok request_framing [of "\<lambda>t. False" demo_request] show ?thesis by blast
qed

text \<open>
  C28: A request is serialized exactly when its URL parses, every field is a token with a clean value
  and no \<open>Transfer-Encoding\<close>, there is at most one \<open>Host\<close>, not empty, and at most one
  \<open>Content-Length\<close>, and that one says the length of the body.
\<close>

theorem serialize_request_succeeds:
  "(\<exists>s. serialize_request inet r = Inr s) \<longleftrightarrow> (\<exists>u. Url_parse inet (req_url r) = Inr u) \<and> well_framed r"
proof
  assume "(\<exists>u. Url_parse inet (req_url r) = Inr u) \<and> well_framed r"
  then obtain u where "Url_parse inet (req_url r) = Inr u" "well_framed r" by blast
  then show "\<exists>s. serialize_request inet r = Inr s"
    unfolding serialize_request_Inr
    by (intro exI [of _ "\<lparr>ser_url = u, ser_head = concat (map (\<lambda>l. l @ crlf) (request_line r u
      # map field_line (sent_fields r u))) @ crlf, ser_body = req_body r\<rparr>"]) simp
qed (auto simp: serialize_request_Inr)

text \<open>
  C29: Query parameters survive the encoding.  In the target they are appended to, the part before the query stays,
  and the query, which stands behind the first question mark, is read by a receiver as the parameters it had and
  behind them the appended ones, names and values of any bytes; unless it ended in a question mark of its own.
\<close>

theorem query_params_roundtrip:
  assumes "query_of t = [] \<or> last (query_of t) \<noteq> CHR ''?''"
  shows "decode_query (query_of (append_query_params t ps)) = decode_query (query_of t) @ map Some ps
    \<and> takeWhile (\<lambda>c. c \<noteq> CHR ''?'') (append_query_params t ps) = takeWhile (\<lambda>c. c \<noteq> CHR ''?'') t"
proof (cases "ps = []")
  case True
  then show ?thesis by (simp add: append_query_params_eq)
next
  case False
  have "takeWhile (\<lambda>c. c \<noteq> CHR ''?'') (append_query_params t ps) = takeWhile (\<lambda>c. c \<noteq> CHR ''?'') t"
  proof (cases "CHR ''?'' \<in> set t")
    case True
    then have "takeWhile (\<lambda>c. c \<noteq> CHR ''?'') (t @ x) = takeWhile (\<lambda>c. c \<noteq> CHR ''?'') t" for x
      by (auto simp: takeWhile_append)
    then show ?thesis by (simp add: append_query_params_eq)
  next
    case absent: False
    then have t: "\<forall>c \<in> set t. c \<noteq> CHR ''?''" by auto
    then have "takeWhile (\<lambda>c. c \<noteq> CHR ''?'') (t @ CHR ''?'' # query_text ps) = t"
      "takeWhile (\<lambda>c. c \<noteq> CHR ''?'') t = t" by (simp_all add: takeWhile_append)
    moreover have "append_query_params t ps = t @ CHR ''?'' # query_text ps"
      using False absent by (simp add: append_query_params_eq query_separator_def)
    ultimately show ?thesis by (simp only:)
  qed
  with decode_appended [OF False assms] show ?thesis by blast
qed

theorem query_params_roundtrip_witness:
  "decode_query (query_of (append_query_params ''/p?x=1'' [\<lparr>qp_name = ''a&b'', qp_value = ''=%''\<rparr>]))
    = [Some \<lparr>qp_name = ''x'', qp_value = ''1''\<rparr>, Some \<lparr>qp_name = ''a&b'', qp_value = ''=%''\<rparr>]"
proof -
  have "decode_query (query_of ''/p?x=1'') = [Some \<lparr>qp_name = ''x'', qp_value = ''1''\<rparr>]"
    "query_of ''/p?x=1'' = []  \<or> last (query_of ''/p?x=1'') \<noteq> CHR ''?''" by code_simp+
  with query_params_roundtrip [of "''/p?x=1''" "[\<lparr>qp_name = ''a&b'', qp_value = ''=%''\<rparr>]"] show ?thesis by simp
qed

text \<open>
  \<open>effective_request_url\<close>, which redirects are resolved against, names the resource that was
  requested: it parses, to the host, port and flags of the URL on the wire, and its target is the
  target of the request line.
\<close>

lemma effective_url_is_requested:
  assumes "serialize_request inet r = Inr s"
  shows "\<exists>u. Url_parse inet (effective_request_url r) = Inr u
    \<and> url_target u = append_query_params (url_target (ser_url s)) (req_params r)
    \<and> url_host u = url_host (ser_url s) \<and> url_port u = url_port (ser_url s)
    \<and> host_is_ipv6_literal u = host_is_ipv6_literal (ser_url s)"
proof -
  have "Url_parse inet (req_url r) = Inr (ser_url s)" using assms unfolding serialize_request_Inr by blast
  from effective_request_url_parse [OF this] show ?thesis by (auto simp: port_of_def)
qed

lemma effective_url_is_requested_witness:
  "\<exists>u. Url_parse (\<lambda>t. False) (effective_request_url demo_request) = Inr u"
  using demo_request_ok effective_url_is_requested by blast

text \<open>
  The space reserved for the encoded query is enough: appending the parameters adds at most
  \<open>encoded_query_reserve\<close> bytes.
\<close>

lemma query_reserve_enough:
  "length (append_query_params out ps) \<le> length out + encoded_query_reserve ps"
  using length_query_text [of ps] by (auto simp: append_query_params_eq query_separator_def)

end
