(* ===== verification/Redirect.thy ===== *)
theory Redirect
  imports Request_Wire
begin

text \<open>
  \<open>src/http/redirect.hpp\<close> and \<open>src/http/redirect.cpp\<close>: which statuses redirect, how the method and
  body change, and how a \<open>Location\<close> is resolved against the URL of the request.
  \<open>std::isalnum\<close> is that of the C locale.
\<close>

record redirect_behavior =
  rb_method :: http_method
  preserve_body :: bool

definition is_alnum :: "char \<Rightarrow> bool"
where
  "is_alnum c =
     ((CHR ''0'' \<le> c \<and> c \<le> CHR ''9'') \<or> (CHR ''A'' \<le> c \<and> c \<le> CHR ''Z'')
      \<or> (CHR ''a'' \<le> c \<and> c \<le> CHR ''z''))"

definition is_scheme_char :: "char \<Rightarrow> bool"
  where "is_scheme_char c = (is_alnum c \<or> c = CHR ''+'' \<or> c = CHR ''-'' \<or> c = CHR ''.'')"

text \<open>The loop of \<open>scheme_end\<close> from position \<open>index\<close>; \<open>None\<close> is \<open>npos\<close>.\<close>

fun scheme_loop :: "nat \<Rightarrow> string \<Rightarrow> nat option"
where
  "scheme_loop index [] = None"
| "scheme_loop index (c # cs) =
     (if c = CHR '':'' then Some index
      else if c = CHR ''/'' \<or> c = CHR ''?'' \<or> c = CHR ''#'' then None
      else if \<not> is_scheme_char c then None
      else scheme_loop (index + 1) cs)"

definition scheme_end :: "string \<Rightarrow> nat option"
where
  "scheme_end v =
     (case v of
        [] \<Rightarrow> None
      | c # cs \<Rightarrow>
          if \<not> ((CHR ''A'' \<le> c \<and> c \<le> CHR ''Z'') \<or> (CHR ''a'' \<le> c \<and> c \<le> CHR ''z'')) then None
          else scheme_loop 1 cs)"

definition build_origin :: "url \<Rightarrow> string"
where
  "build_origin base =
     (let origin = ''http://'';
          origin = (if host_is_ipv6_literal base then origin @ ''['' @ url_host base @ '']''
                    else origin @ url_host base)
      in if has_explicit_port base then origin @ '':'' @ to_decimal (unat (url_port base)) else origin)"

subsection \<open>\<open>remove_dot_segments\<close>\<close>

text \<open>
  \<open>pop_back\<close> on an empty vector is undefined behaviour, here a value of which nothing is known: what is proved of
  the loop rests on its guard.
\<close>

definition pop_back :: "'a list \<Rightarrow> 'a list"
  where "pop_back xs = (if xs = [] then undefined else butlast xs)"

definition push_segment :: "string list \<Rightarrow> string \<Rightarrow> string list"
where
  "push_segment segments segment =
     (if segment = ''..'' then (if segments \<noteq> [] then pop_back segments else segments)
      else if segment \<noteq> ''.'' then segments @ [segment]
      else segments)"

text \<open>The loop on what is left of the path behind \<open>begin\<close>.\<close>

function segment_loop :: "string list \<Rightarrow> string \<Rightarrow> string list"
where
  "segment_loop segments rest =
     (case find_chr (CHR ''/'') rest of
        None \<Rightarrow> push_segment segments rest
      | Some slash \<Rightarrow> segment_loop (push_segment segments (take slash rest)) (drop (slash + 1) rest))"
  by pat_completeness auto
termination
  by (relation "measure (\<lambda>(_, s). length s)") (auto dest: find_if_less)

declare segment_loop.simps [simp del]

definition remove_dot_segments :: "string \<Rightarrow> string"
where
  "remove_dot_segments path =
     (let begin = (if path = [] \<or> hd path \<noteq> CHR ''/'' then 0 else 1);
          segments = segment_loop [] (drop begin path);
          normalized = ''/'' @ join_with ''/'' segments;
          ends_with_dot = (length path \<ge> 2 \<and> drop (length path - 2) path = ''/.'');
          ends_with_dot_dot = (length path \<ge> 3 \<and> drop (length path - 3) path = ''/..'');
          keep_trailing_slash =
            (path \<noteq> [] \<and> (last path = CHR ''/'' \<or> ends_with_dot \<or> ends_with_dot_dot))
      in if keep_trailing_slash \<and> last normalized \<noteq> CHR ''/'' then normalized @ ''/'' else normalized)"

subsection \<open>Resolution\<close>

definition strip_fragment :: "string \<Rightarrow> string"
  where "strip_fragment v = (case find_chr (CHR ''#'') v of None \<Rightarrow> v | Some i \<Rightarrow> take i v)"

definition validate_redirect_url :: "(string \<Rightarrow> bool) \<Rightarrow> string \<Rightarrow> string result"
where
  "validate_redirect_url inet candidate =
     (let candidate = strip_fragment candidate
      in case Url_parse inet candidate of
           Inl e \<Rightarrow> if code e = UnsupportedScheme then fail UnsupportedRedirectScheme else Inl e
         | Inr u \<Rightarrow> Inr candidate)"

definition is_redirect_status :: "int \<Rightarrow> bool"
where
  "is_redirect_status status =
     (status = 301 \<or> status = 302 \<or> status = 303 \<or> status = 307 \<or> status = 308)"

definition redirect_behavior :: "int \<Rightarrow> http_method \<Rightarrow> redirect_behavior"
where
  "redirect_behavior status current =
     (if status = 303 then
        \<lparr>rb_method = (if current = Head then Head else Get), preserve_body = False\<rparr>
      else if (status = 301 \<or> status = 302) \<and> current = Post then
        \<lparr>rb_method = Get, preserve_body = False\<rparr>
      else \<lparr>rb_method = current, preserve_body = True\<rparr>)"

text \<open>The merge of a relative path with the path of the base (lines 204 to 222).\<close>

definition merge_path :: "url \<Rightarrow> string \<Rightarrow> string"
where
  "merge_path base relative_path =
     (if relative_path \<noteq> [] \<and> hd relative_path = CHR ''/'' then relative_path
      else (case rfind_chr (CHR ''/'') (url_path base) of
              None \<Rightarrow> ''/''
            | Some slash \<Rightarrow> take (slash + 1) (url_path base)) @ relative_path)"

definition resolve_redirect_location :: "(string \<Rightarrow> bool) \<Rightarrow> url \<Rightarrow> string \<Rightarrow> string result"
where
  "resolve_redirect_location inet base location =
     (if location = [] then fail MissingRedirectLocation
      else (case scheme_end location of
        Some explicit_scheme \<Rightarrow>
          if \<not> ascii_iequals (take explicit_scheme location) ''http''
          then fail UnsupportedRedirectScheme
          else validate_redirect_url inet location
      | None \<Rightarrow>
          if take 2 location = ''//'' then validate_redirect_url inet (''http:'' @ location)
          else
            let origin = build_origin base
            in if hd location = CHR ''#''
               then validate_redirect_url inet (origin @ url_target base @ location)
               else if hd location = CHR ''?''
               then validate_redirect_url inet (origin @ url_path base @ location)
               else
                 let suffix_begin = find_first_of ''?#'' location;
                     relative_path = take_opt suffix_begin location;
                     suffix = (case suffix_begin of None \<Rightarrow> [] | Some i \<Rightarrow> drop i location)
                 in validate_redirect_url inet
                      (origin @ remove_dot_segments (merge_path base relative_path) @ suffix)))"

section \<open>Dot segments\<close>

definition dot_segment :: "string \<Rightarrow> bool"
  where "dot_segment s = (s = ''.'' \<or> s = ''..'')"

definition dot_free :: "string \<Rightarrow> bool"
where
  "dot_free path =
     (path \<noteq> [] \<and> hd path = CHR ''/'' \<and> (\<forall>s \<in> set (split_on (CHR ''/'') (tl path)). \<not> dot_segment s))"

lemma segment_loop_fold: "segment_loop segs s = foldl push_segment segs (split_on (CHR ''/'') s)"
proof (induction segs s rule: segment_loop.induct)
  case (1 segs s)
  then show ?case
    by (subst segment_loop.simps)
      (auto simp: split_on_find_None split_on_find_Some split: option.split)
qed

lemma push_segment_parts:
  "x \<in> set (push_segment segs s) \<Longrightarrow> x \<in> set segs \<or> x = s \<and> \<not> dot_segment s"
  by (auto simp: push_segment_def pop_back_def dot_segment_def dest: in_set_butlastD split: if_splits)

lemma fold_segments:
  "x \<in> set (foldl push_segment segs ss) \<Longrightarrow> x \<in> set segs \<or> x \<in> set ss \<and> \<not> dot_segment x"
  by (induction ss arbitrary: segs) (auto dest: push_segment_parts)

lemma fold_segments_plain:
  "\<forall>s \<in> set ss. \<not> dot_segment s \<Longrightarrow> foldl push_segment segs ss = segs @ ss"
  by (induction ss arbitrary: segs) (auto simp: push_segment_def dot_segment_def)

lemma segments_of:
  assumes "x \<in> set (segment_loop [] s)"
  shows "CHR ''/'' \<notin> set x \<and> \<not> dot_segment x"
proof -
  from assms have "x \<in> set (split_on (CHR ''/'') s) \<and> \<not> dot_segment x"
    using fold_segments [of x "[]"] by (auto simp: segment_loop_fold)
  then show ?thesis using split_on_sep_free by metis
qed

lemma split_on_join_slash:
  assumes "\<forall>x \<in> set segs. CHR ''/'' \<notin> set x"
  shows "set (split_on (CHR ''/'') (join_with ''/'' segs)) \<subseteq> insert [] (set segs)"
    and "set (split_on (CHR ''/'') (join_with ''/'' segs @ ''/'')) \<subseteq> insert [] (set segs)"
proof -
  show "set (split_on (CHR ''/'') (join_with ''/'' segs)) \<subseteq> insert [] (set segs)"
    using assms split_join [of segs "CHR ''/''"] by (cases "segs = []") auto
  have "join_with ''/'' segs @ ''/'' = join_with ''/'' (segs @ [[]])" if "segs \<noteq> []"
    using that by (induction "''/''" segs rule: join_with.induct) auto
  then show "set (split_on (CHR ''/'') (join_with ''/'' segs @ ''/'')) \<subseteq> insert [] (set segs)"
    using assms split_join [of "segs @ [[]]" "CHR ''/''"] by (cases "segs = []") auto
qed

lemma remove_dot_segments_free: "dot_free (remove_dot_segments path)"
proof -
  define segs where "segs = segment_loop [] (drop (if path = [] \<or> hd path \<noteq> CHR ''/'' then 0 else 1) path)"
  have s: "\<forall>x \<in> set segs. CHR ''/'' \<notin> set x" "\<forall>x \<in> set segs. \<not> dot_segment x"
    unfolding segs_def using segments_of by blast+
  have nil: "\<not> dot_segment []" by (simp add: dot_segment_def)
  have "remove_dot_segments path = ''/'' @ join_with ''/'' segs
      \<or> remove_dot_segments path = ''/'' @ join_with ''/'' segs @ ''/''"
    by (simp add: remove_dot_segments_def Let_def segs_def)
  then show ?thesis
    using split_on_join_slash [OF s(1)] s(2) nil by (elim disjE) (auto simp: dot_free_def)
qed

lemma suffix_segment:
  assumes "drop (length p - Suc (length x)) p = c # x" and "c \<notin> set x"
  shows "x \<in> set (split_on c p)"
proof -
  have p: "p = take (length p - Suc (length x)) p @ c # x"
    using assms(1) append_take_drop_id [of "length p - Suc (length x)" p] by simp
  have "x \<in> set (split_on c (a @ c # x))" for a
    by (simp add: split_on_append split_on_absent [OF assms(2)])
  then show ?thesis using p by metis
qed

lemma remove_dot_segments_fixed:
  assumes "dot_free path"
  shows "remove_dot_segments path = path"
proof -
  from assms obtain t where p: "path = CHR ''/'' # t" by (cases path) (auto simp: dot_free_def)
  have nd: "\<forall>s \<in> set (split_on (CHR ''/'') t). \<not> dot_segment s" using assms p by (simp add: dot_free_def)
  have "segment_loop [] t = split_on (CHR ''/'') t"
    using nd by (simp add: segment_loop_fold fold_segments_plain)
  then have n: "''/'' @ join_with ''/'' (segment_loop [] t) = path" by (simp add: join_split p)
  have all: "\<forall>s \<in> set (split_on (CHR ''/'') path). \<not> dot_segment s" using nd p by (simp add: dot_segment_def)
  have "drop (length path - 2) path \<noteq> ''/.''"
    using all suffix_segment [of path "''.''" "CHR ''/''"] by (auto simp: dot_segment_def numeral_2_eq_2)
  moreover have "drop (length path - 3) path \<noteq> ''/..''"
    using all suffix_segment [of path "''..''" "CHR ''/''"] by (auto simp: dot_segment_def numeral_3_eq_3)
  ultimately show ?thesis using n by (simp add: remove_dot_segments_def p)
qed

section \<open>The origin of a parsed URL\<close>

text \<open>The parts that \<open>build_origin\<close> writes: the port in its shortest spelling.\<close>

definition origin_parts :: "url_parts \<Rightarrow> string \<Rightarrow> url_parts"
where
  "origin_parts p t =
     p\<lparr>up_port := map_option (\<lambda>d. to_decimal (unat (port_of p))) (up_port p), up_target := t\<rparr>"

lemma build_origin_render:
  "build_origin (mk_url p) = ''http://'' @ render_authority (origin_parts p t)"
  by (cases "up_port p")
    (simp_all add: build_origin_def origin_parts_def render_authority_def render_host_def Let_def)

lemma parse_port_decimal:
  assumes "n \<noteq> 0"
  shows "parse_port (to_decimal (unat n)) = Inr n"
proof -
  have n: "unat n < 2 ^ 16" using unsigned_less [of n] by simp
  then have "from_chars_all 10 32 (to_decimal (unat n)) = Some (unat n)"
    by (intro from_chars_to_decimal) simp
  moreover have "unat n \<noteq> 0" using assms by (simp add: unat_eq_0)
  moreover have "to_decimal (unat n) \<noteq> []" by (simp add: to_decimal_def)
  ultimately show ?thesis using n by (simp add: parse_port_def)
qed

lemma origin_parts_wf:
  assumes "wf_parts inet p" and "wf_target t"
  shows "wf_parts inet (origin_parts p t)" and "port_of (origin_parts p t) = port_of p"
proof -
  note port = parse_port_decimal [OF port_of_nonzero [OF assms(1)]]
  show eq: "port_of (origin_parts p t) = port_of p"
  proof (cases "up_port p")
    case (Some d)
    then have "port_of (origin_parts p t) = (case parse_port (to_decimal (unat (port_of p))) of Inl e \<Rightarrow> 0 | Inr n \<Rightarrow> n)"
      by (simp add: origin_parts_def port_of_def [of "p\<lparr>up_port := x, up_target := y\<rparr>" for x y])
    with port show ?thesis by simp
  qed (simp add: origin_parts_def port_of_def)
  have "\<forall>c. is_digit 10 c \<longrightarrow> \<not> forbidden_url_byte c \<and> c \<notin> set ''/?#@%''" by code_simp
  moreover have "\<forall>c \<in> set (to_decimal n). is_digit 10 c" for n
    unfolding to_decimal_def by (rule to_digits_digits) simp_all
  ultimately have dig: "\<forall>c \<in> set (to_decimal n). \<not> forbidden_url_byte c \<and> c \<notin> set ''/?#@%''" for n by blast
  have host: "wf_host inet (origin_parts p t) = wf_host inet p" "render_host (origin_parts p t) = render_host p"
    by (simp_all add: wf_host_def render_host_def origin_parts_def)
  define ok where "ok = (\<lambda>c. \<not> forbidden_url_byte c \<and> c \<notin> set ''/?#@%'')"
  have "list_all ok (render_host p)"
    using assms(1) by (simp add: wf_parts_def wf_authority_def render_authority_def ok_def)
  moreover have "ok (CHR '':'')" unfolding ok_def by code_simp
  moreover have "list_all ok (to_decimal n)" for n using dig [of n] by (simp add: list_all_iff ok_def)
  ultimately have "list_all ok (render_authority (origin_parts p t))"
    unfolding render_authority_def host by (cases "up_port p") (simp_all add: origin_parts_def)
  moreover have "wf_port (origin_parts p t)"
    by (cases "up_port p") (simp_all add: wf_port_def origin_parts_def port)
  moreover have "up_target (origin_parts p t) = t" by (simp add: origin_parts_def)
  ultimately show "wf_parts inet (origin_parts p t)"
    using assms unfolding ok_def by (simp add: wf_parts_def wf_authority_def host)
qed

text \<open>A candidate that begins with the origin of the base stays there.\<close>

lemma takeWhile_split:
  assumes "a @ t = b @ s" and "\<forall>c \<in> set a \<union> set b. \<not> P c" and "t = [] \<or> P (hd t)" and "s = [] \<or> P (hd s)"
  shows "a = b \<and> t = s"
proof -
  have "takeWhile (\<lambda>c. \<not> P c) (a @ t) = a" using assms(2,3) by (cases t) (auto simp: takeWhile_append)
  moreover have "takeWhile (\<lambda>c. \<not> P c) (b @ s) = b" using assms(2,4) by (cases s) (auto simp: takeWhile_append)
  ultimately show ?thesis using assms(1) by simp
qed

lemma strip_fragment_no_hash: "CHR ''#'' \<notin> set (strip_fragment s)"
proof (cases "find_chr (CHR ''#'') s")
  case None
  then have "strip_fragment s = s" by (simp add: strip_fragment_def)
  moreover have "CHR ''#'' \<notin> set s" using None by (auto simp: find_if_None)
  ultimately show ?thesis by simp
next
  case (Some i)
  then obtain pre c post where "s = pre @ c # post" "length pre = i" "\<forall>x \<in> set pre. x \<noteq> CHR ''#''"
    by (rule find_ifE)
  moreover have "strip_fragment s = take i s" by (simp add: strip_fragment_def Some)
  ultimately show ?thesis by auto
qed

lemma strip_fragment_append: "CHR ''#'' \<notin> set h \<Longrightarrow> strip_fragment (h @ s) = h @ strip_fragment s"
  using take_opt_append [of "CHR ''#''" h s]
  by (simp add: strip_fragment_def take_opt_def split: option.splits)

lemma validate_origin:
  assumes wf: "wf_parts inet p" and t: "t = [] \<or> hd t = CHR ''/''"
    and ok: "validate_redirect_url inet (build_origin (mk_url p) @ t) = Inr c" and ne: "t \<noteq> []"
  shows "Url_parse inet c = Inr (mk_url (origin_parts p (strip_fragment t))) \<and> wf_target (strip_fragment t)
    \<and> c = build_origin (mk_url p) @ strip_fragment t"
proof -
  define s where "s = strip_fragment t"
  let ?a = "render_authority (origin_parts p ''/'')"
  have "wf_target ''/''" by code_simp
  from origin_parts_wf [OF wf this] have wfa: "wf_authority inet (origin_parts p ''/'')"
    by (simp add: wf_parts_def)
  have "CHR ''#'' \<notin> set (''http://'' @ ?a)" using authority_bytes [OF wfa] by auto
  then have str: "strip_fragment ((''http://'' @ ?a) @ t) = (''http://'' @ ?a) @ s"
    unfolding s_def by (rule strip_fragment_append)
  have org: "build_origin (mk_url p) = ''http://'' @ ?a" by (rule build_origin_render)
  have c: "c = ''http://'' @ ?a @ s" and "\<exists>u. Url_parse inet (''http://'' @ ?a @ s) = Inr u"
    using ok str unfolding org by (auto simp: validate_redirect_url_def Let_def split: sum.splits if_splits)
  then obtain q where q: "url_text inet c q" using Url_parse_sound by metis
  then obtain sch t' f where e: "c = sch @ ''://'' @ render_authority q @ t' @ f" "ascii_iequals sch ''http''"
      "wf_parts inet q" "up_target q = norm_target t'" "t' = [] \<or> hd t' \<in> set ''/?''" "f = [] \<or> hd f = CHR ''#''"
    by (auto simp: url_text_def)
  have "CHR ''#'' \<notin> set s" unfolding s_def by (rule strip_fragment_no_hash)
  then have "CHR ''#'' \<notin> set c" using c authority_bytes [OF wfa] by auto
  with e(1,6) have f: "f = []" by (cases f) auto
  have sne: "s \<noteq> [] \<and> hd s = CHR ''/''" using t ne
    by (cases t) (auto simp: s_def strip_fragment_def split: option.splits)
  have "length sch = 4" using http_scheme(1) [OF e(2)] .
  moreover have "''http'' @ ''://'' @ ?a @ s = sch @ ''://'' @ render_authority q @ t'"
    using c e(1) f by simp
  ultimately have "drop 7 (''http'' @ ''://'' @ ?a @ s) = drop 7 (sch @ ''://'' @ render_authority q @ t')"
    by (simp only:)
  with \<open>length sch = 4\<close> have eq: "?a @ s = render_authority q @ t'" by simp
  have bytes: "\<forall>c \<in> set ?a \<union> set (render_authority q). \<not> c \<in> set ''/?''"
    using authority_bytes [OF wfa] authority_bytes [of inet q] e(3) by (auto simp: wf_parts_def)
  have "s = t'"
    using takeWhile_split [OF eq bytes] sne e(5) by simp
  with e(3,4) sne have wft: "wf_target s" by (auto simp: wf_parts_def norm_target_def)
  note wfo = origin_parts_wf [OF wf wft]
  have "render_url (origin_parts p s) = c"
    by (simp add: render_url_def c origin_parts_def render_authority_def render_host_def)
  with Url_parse_render_url [OF wfo(1)] have "Url_parse inet c = Inr (mk_url (origin_parts p s))" by simp
  with wft c org show ?thesis by (simp add: s_def)
qed

section \<open>What a resolved location is\<close>

lemma validate_redirect_url_Inr:
  "validate_redirect_url inet s = Inr c \<longleftrightarrow> c = strip_fragment s \<and> (\<exists>u. Url_parse inet c = Inr u)"
  by (auto simp: validate_redirect_url_def Let_def split: sum.splits if_splits)

lemma validate_redirect_url_Inl:
  "validate_redirect_url inet s = Inl e \<Longrightarrow>
     e \<in> {mk_error InvalidUrl, mk_error UnsupportedRedirectScheme, mk_error InvalidPort}"
  using Url_parse_error_codes
  by (fastforce simp: validate_redirect_url_def Let_def split: sum.splits if_splits)

text \<open>
  The target the code makes of a location without a scheme and authority, put together from its parts;
  \<open>Relative_Reference\<close> compares it with the target of RFC 3986.
\<close>

definition relative_target :: "url \<Rightarrow> string \<Rightarrow> string"
where
  "relative_target base location =
     strip_fragment
       (if hd location = CHR ''#'' then url_target base @ location
        else if hd location = CHR ''?'' then url_path base @ location
        else remove_dot_segments (merge_path base (takeWhile (\<lambda>c. c \<notin> set ''?#'') location))
             @ dropWhile (\<lambda>c. c \<notin> set ''?#'') location)"

lemma find_first_takeWhile:
  "take_opt (find_first_of cs s) s = takeWhile (\<lambda>c. c \<notin> set cs) s"
  "(case find_first_of cs s of None \<Rightarrow> [] | Some i \<Rightarrow> drop i s) = dropWhile (\<lambda>c. c \<notin> set cs) s"
  by (induction s) (auto simp: take_opt_def split: option.splits)

lemma resolve_relative:
  assumes "Url_parse inet i = Inr base" and "location \<noteq> []" and "scheme_end location = None"
    and "take 2 location \<noteq> ''//''" and "resolve_redirect_location inet base location = Inr c"
  shows "\<exists>p. base = mk_url p \<and> wf_parts inet p
    \<and> Url_parse inet c = Inr (mk_url (origin_parts p (relative_target base location)))"
proof -
  from assms(1) obtain p where p: "wf_parts inet p" "base = mk_url p" by (rule Url_parse_parts)
  have wft: "wf_target (up_target p)" using p(1) by (simp add: wf_parts_def)
  have tg: "url_target base \<noteq> []" "hd (url_target base) = CHR ''/''"
      "url_path base \<noteq> []" "hd (url_path base) = CHR ''/''"
    using mk_url_path_query [OF wft] wft p(2) by (auto simp: wf_target_def)
  have rm: "remove_dot_segments q \<noteq> [] \<and> hd (remove_dot_segments q) = CHR ''/''" for q
    using remove_dot_segments_free [of q] by (simp add: dot_free_def)
  have main: "validate_redirect_url inet (build_origin base @ t) = Inr c \<Longrightarrow> t \<noteq> [] \<Longrightarrow> hd t = CHR ''/''
      \<Longrightarrow> Url_parse inet c = Inr (mk_url (origin_parts p (strip_fragment t)))" for t
    using validate_origin [OF p(1), of t c] unfolding p(2) by blast
  define path where "path = takeWhile (\<lambda>c. c \<notin> set ''?#'') location"
  define suffix where "suffix = dropWhile (\<lambda>c. c \<notin> set ''?#'') location"
  define t where "t = (if hd location = CHR ''#'' then url_target base @ location
        else if hd location = CHR ''?'' then url_path base @ location
        else remove_dot_segments (merge_path base path) @ suffix)"
  have "validate_redirect_url inet (build_origin base @ t) = Inr c"
    using assms(2-5) unfolding resolve_redirect_location_def find_first_takeWhile Let_def
    unfolding path_def [symmetric] suffix_def [symmetric] by (simp add: t_def split: if_splits)
  moreover have "t \<noteq> []" "hd t = CHR ''/''" using tg rm by (simp_all add: t_def)
  moreover have "strip_fragment t = relative_target base location"
    unfolding relative_target_def path_def [symmetric] suffix_def [symmetric] t_def by simp
  ultimately have "Url_parse inet c = Inr (mk_url (origin_parts p (relative_target base location)))"
    using main by metis
  with main p show ?thesis by blast
qed

section \<open>Properties\<close>

definition demo_base :: url
where
  "demo_base = mk_url \<lparr>up_ipv6 = False, up_host = ''h.example'', up_port = Some ''0081'',
     up_target = ''/a/b/c?q''\<rparr>"

lemma demo_base_parse: "Url_parse (\<lambda>t. False) ''http://h.example:0081/a/b/c?q'' = Inr demo_base"
  by code_simp

lemma demo_resolve:
  "resolve_redirect_location (\<lambda>t. False) demo_base ''../d?x#f'' = Inr ''http://h.example:81/a/d?x''"
  by code_simp

text \<open>
  C26: Every redirect target the client follows is a valid \<open>http\<close> URL without a fragment.
\<close>

theorem redirect_target_valid:
  assumes "resolve_redirect_location inet base location = Inr c"
  shows "(\<exists>u. Url_parse inet c = Inr u \<and> url_scheme u = ''http'') \<and> CHR ''#'' \<notin> set c"
proof -
  have "\<exists>s. validate_redirect_url inet s = Inr c"
    using assms by (auto simp: resolve_redirect_location_def Let_def split: if_splits option.splits)
  then obtain s u where "c = strip_fragment s" "Url_parse inet c = Inr u"
    unfolding validate_redirect_url_Inr by blast
  moreover from this(2) obtain p where "u = mk_url p" by (rule Url_parse_parts)
  ultimately show ?thesis using strip_fragment_no_hash by auto
qed

theorem redirect_target_valid_witness:
  "\<exists>u. Url_parse (\<lambda>t. False) ''http://h.example:81/a/d?x'' = Inr u \<and> url_scheme u = ''http''"
  using redirect_target_valid [OF demo_resolve] by blast

text \<open>
  \<open>remove_dot_segments\<close> yields an absolute path without \<open>.\<close> and \<open>..\<close> segments, for any path, and a second
  application changes nothing.
\<close>

lemma dot_segments_gone:
  "dot_free (remove_dot_segments path)
   \<and> remove_dot_segments (remove_dot_segments path) = remove_dot_segments path"
  by (simp add: remove_dot_segments_free remove_dot_segments_fixed)

text \<open>
  The errors of a resolution.  A missing location is reported exactly for the empty text, and a
  foreign scheme is always the redirect's own error, never the parser's.
\<close>

lemma redirect_errors:
  assumes "resolve_redirect_location inet base location = Inl e"
  shows "native_code e = 0
    \<and> code e \<in> {MissingRedirectLocation, UnsupportedRedirectScheme, InvalidUrl, InvalidPort}
    \<and> (code e = MissingRedirectLocation) = (location = [])"
proof (cases "location = []")
  case True
  with assms show ?thesis by (auto simp: resolve_redirect_location_def)
next
  case False
  then have "e = mk_error UnsupportedRedirectScheme \<or> (\<exists>s. validate_redirect_url inet s = Inl e)"
    using assms by (auto simp: resolve_redirect_location_def Let_def split: if_splits option.splits)
  then have "e \<in> {mk_error InvalidUrl, mk_error UnsupportedRedirectScheme, mk_error InvalidPort}"
    using validate_redirect_url_Inl by auto
  with False show ?thesis by auto
qed

lemma redirect_errors_witness:
  "resolve_redirect_location (\<lambda>t. False) demo_base ''https://h/'' = fail UnsupportedRedirectScheme
   \<and> code (mk_error UnsupportedRedirectScheme) \<noteq> MissingRedirectLocation"
proof -
  have r: "resolve_redirect_location (\<lambda>t. False) demo_base ''https://h/'' = fail UnsupportedRedirectScheme"
    by code_simp
  from redirect_errors [OF this] r show ?thesis by simp
qed

text \<open>
  How a redirect changes the request: either method and body stay, or the body is dropped and the
  method becomes \<open>Get\<close>, or stays \<open>Head\<close>; 307 and 308 never change anything.
\<close>

lemma redirect_method_rules:
  "(if status = 307 \<or> status = 308 then redirect_behavior status m = \<lparr>rb_method = m, preserve_body = True\<rparr>
    else redirect_behavior status m \<in> {\<lparr>rb_method = m, preserve_body = True\<rparr>,
           \<lparr>rb_method = (if m = Head then Head else Get), preserve_body = False\<rparr>})
   \<and> rb_method (redirect_behavior status m) \<in> {m, Get}"
  by (simp add: redirect_behavior_def)

end
