(* ===== verification/Relative_Reference.thy ===== *)
theory Relative_Reference
  imports Redirect
begin

text \<open>
  The resolution of a relative reference as RFC 3986 describes it: section 5.2.4 with its input and output
  buffers, section 5.2.3 for the merge and section 5.2.2 for the choice between them, none of it in terms of
  the functions of \<open>src/http/redirect.cpp\<close>.  The code agrees with it, but for one slash of paths that end in
  a dot segment behind an empty segment (\<open>loses_slash\<close>).
\<close>

section \<open>Section 5.2.4: two buffers\<close>

text \<open>\<open>Remove the last segment and its preceding "/" (if any) from the output buffer.\<close>\<close>

definition drop_last_segment :: "string \<Rightarrow> string"
  where "drop_last_segment out = rev (drop 1 (dropWhile (\<lambda>c. c \<noteq> CHR ''/'') (rev out)))"

text \<open>The rules 2A to 2E, in their order.\<close>

function rfc_dots :: "string \<Rightarrow> string \<Rightarrow> string"
where
  "rfc_dots inp out =
     (if inp = [] then out
      else if take 3 inp = ''../'' then rfc_dots (drop 3 inp) out
      else if take 2 inp = ''./'' then rfc_dots (drop 2 inp) out
      else if take 3 inp = ''/./'' then rfc_dots (''/'' @ drop 3 inp) out
      else if inp = ''/.'' then rfc_dots ''/'' out
      else if take 4 inp = ''/../'' then rfc_dots (''/'' @ drop 4 inp) (drop_last_segment out)
      else if inp = ''/..'' then rfc_dots ''/'' (drop_last_segment out)
      else if inp = ''.'' \<or> inp = ''..'' then rfc_dots [] out
      else rfc_dots (dropWhile (\<lambda>c. c \<noteq> CHR ''/'') (tl inp))
             (out @ hd inp # takeWhile (\<lambda>c. c \<noteq> CHR ''/'') (tl inp)))"
  by pat_completeness auto
termination
proof (relation "measure (\<lambda>(inp, out). length inp)", goal_cases)
  case (9 inp out)
  then show ?case
    using length_dropWhile_le [of "\<lambda>c. c \<noteq> CHR ''/''" "tl inp"] by (cases inp) simp_all
qed (auto simp: neq_Nil_conv dest!: arg_cong [of "take _ _" _ length])

declare rfc_dots.simps [simp del]

definition rfc_remove :: "string \<Rightarrow> string"
  where "rfc_remove path = rfc_dots path []"

section \<open>The code's stack of segments\<close>

definition flat :: "string list \<Rightarrow> string"
  where "flat segs = concat (map ((#) (CHR ''/'')) segs)"

lemma flat_simps [simp]: "flat [] = []" "flat (x # xs) = CHR ''/'' # x @ flat xs" "flat (xs @ ys) = flat xs @ flat ys"
  by (simp_all add: flat_def)

lemma flat_join: "segs \<noteq> [] \<Longrightarrow> flat segs = CHR ''/'' # join_with ''/'' segs"
  by (cases segs) (simp_all add: flat_def join_Cons)

lemma drop_last_flat:
  assumes "\<forall>x \<in> set segs. CHR ''/'' \<notin> set x"
  shows "drop_last_segment (flat segs) = flat (butlast segs)"
proof (cases segs rule: rev_cases)
  case (snoc xs x)
  have "dropWhile (\<lambda>c. c \<noteq> CHR ''/'') (rev x @ CHR ''/'' # ys) = CHR ''/'' # ys" for ys
    using assms snoc by (subst dropWhile_append2) auto
  then show ?thesis by (simp add: drop_last_segment_def snoc)
qed (simp add: drop_last_segment_def)

text \<open>What is left of the segments of a path: the last one, when it is a dot segment, leaves an empty segment.\<close>

fun rfc_segments :: "string list \<Rightarrow> string list \<Rightarrow> string list"
where
  "rfc_segments segs [] = segs"
| "rfc_segments segs [x] = push_segment segs x @ (if dot_segment x then [[]] else [])"
| "rfc_segments segs (x # y # ys) = rfc_segments (push_segment segs x) (y # ys)"

lemma push_segment_cases:
  "push_segment segs ''.'' = segs" "push_segment segs ''..'' = butlast segs"
  "\<not> dot_segment x \<Longrightarrow> push_segment segs x = segs @ [x]"
  by (auto simp: push_segment_def pop_back_def dot_segment_def)

lemma push_segment_plain:
  assumes "\<forall>x \<in> set segs. CHR ''/'' \<notin> set x" and "CHR ''/'' \<notin> set y"
  shows "\<forall>x \<in> set (push_segment segs y). CHR ''/'' \<notin> set x"
  using assms push_segment_parts by metis

lemma rfc_dots_Nil [simp]: "rfc_dots [] out = out"
  by (subst rfc_dots.simps) simp

lemma rfc_dots_root: "rfc_dots ''/'' out = out @ ''/''"
  by (subst rfc_dots.simps) simp

text \<open>One segment in front of a slash, and a last one.\<close>

lemma take_dot:
  assumes "CHR ''/'' \<notin> set x"
  shows "take 2 (x @ CHR ''/'' # r) = ''./'' \<longleftrightarrow> x = ''.''" "take 3 (x @ CHR ''/'' # r) = ''../'' \<longleftrightarrow> x = ''..''"
proof -
  have "x = a" if t: "take n (x @ CHR ''/'' # r) = a @ ''/''" and "CHR ''/'' \<notin> set a" for n a
  proof -
    have "x @ CHR ''/'' # r = a @ CHR ''/'' # drop n (x @ CHR ''/'' # r)"
      using append_take_drop_id [of n "x @ CHR ''/'' # r"] unfolding t by simp
    from takeWhile_split [OF this, of "(=) (CHR ''/'')"] assms that(2) show ?thesis by auto
  qed
  from this [of 2 "''.''"] this [of 3 "''..''"]
  show "take 2 (x @ CHR ''/'' # r) = ''./'' \<longleftrightarrow> x = ''.''" "take 3 (x @ CHR ''/'' # r) = ''../'' \<longleftrightarrow> x = ''..''"
    by auto
qed

lemma rfc_dots_segment:
  assumes "CHR ''/'' \<notin> set x"
  shows "rfc_dots (CHR ''/'' # x @ CHR ''/'' # r) out =
    rfc_dots (CHR ''/'' # r)
      (if x = ''.'' then out else if x = ''..'' then drop_last_segment out else out @ CHR ''/'' # x)"
proof -
  have "dropWhile (\<lambda>c. c \<noteq> CHR ''/'') (x @ CHR ''/'' # r) = CHR ''/'' # r"
      "takeWhile (\<lambda>c. c \<noteq> CHR ''/'') (x @ CHR ''/'' # r) = x"
    using assms by (auto simp: dropWhile_append takeWhile_append)
  moreover have "take 3 (CHR ''/'' # x @ CHR ''/'' # r) = ''/./'' \<longleftrightarrow> x = ''.''"
      "take 4 (CHR ''/'' # x @ CHR ''/'' # r) = ''/../'' \<longleftrightarrow> x = ''..''"
    using take_dot [OF assms, of r] by (simp_all add: numeral_eq_Suc)
  ultimately show ?thesis
    by (subst rfc_dots.simps) (auto simp: numeral_eq_Suc)
qed

lemma rfc_dots_last:
  assumes "CHR ''/'' \<notin> set x"
  shows "rfc_dots (CHR ''/'' # x) out =
    (if x = ''.'' then out @ ''/'' else if x = ''..'' then drop_last_segment out @ ''/'' else out @ CHR ''/'' # x)"
proof (cases "x = ''.'' \<or> x = ''..''")
  case True
  then show ?thesis by (subst rfc_dots.simps) (elim disjE; simp add: rfc_dots_root)
next
  case False
  have *: "dropWhile (\<lambda>c. c \<noteq> CHR ''/'') x = []" "takeWhile (\<lambda>c. c \<noteq> CHR ''/'') x = x"
    using assms by (auto simp: dropWhile_eq_Nil_conv takeWhile_eq_all_conv)
  have "take 2 x \<noteq> ''./''" "take 3 x \<noteq> ''../''"
    using assms in_set_takeD [of "CHR ''/''" 2 x] in_set_takeD [of "CHR ''/''" 3 x] by auto
  then show ?thesis using False by (subst rfc_dots.simps) (simp add: *)
qed

lemma rfc_dots_segments:
  assumes "ss \<noteq> []" and "\<forall>x \<in> set segs \<union> set ss. CHR ''/'' \<notin> set x"
  shows "rfc_dots (CHR ''/'' # join_with ''/'' ss) (flat segs) = flat (rfc_segments segs ss)"
  using assms
proof (induction segs ss rule: rfc_segments.induct)
  case (2 segs x)
  then show ?case
    by (auto simp: rfc_dots_last drop_last_flat push_segment_cases dot_segment_def)
next
  case (3 segs x y ys)
  have "rfc_dots (CHR ''/'' # join_with ''/'' (x # y # ys)) (flat segs)
      = rfc_dots (CHR ''/'' # join_with ''/'' (y # ys)) (flat (push_segment segs x))"
    using 3 by (auto simp: rfc_dots_segment drop_last_flat push_segment_cases dot_segment_def)
  also have "\<dots> = flat (rfc_segments (push_segment segs x) (y # ys))"
    using 3 push_segment_plain [of segs x] by (intro "3.IH") auto
  finally show ?case by simp
qed simp

lemma rfc_segments_fold:
  "ss \<noteq> [] \<Longrightarrow> rfc_segments segs ss = foldl push_segment segs ss @ (if dot_segment (last ss) then [[]] else [])"
  by (induction segs ss rule: rfc_segments.induct) simp_all

lemma rfc_remove_segments:
  "rfc_remove (CHR ''/'' # s) =
     flat (segment_loop [] s @ (if dot_segment (last (split_on (CHR ''/'') s)) then [[]] else []))"
proof -
  have "rfc_dots (CHR ''/'' # join_with ''/'' (split_on (CHR ''/'') s)) (flat [])
      = flat (rfc_segments [] (split_on (CHR ''/'') s))"
    by (rule rfc_dots_segments) (auto dest: split_on_sep_free)
  then show ?thesis
    by (simp add: rfc_remove_def join_split rfc_segments_fold segment_loop_fold)
qed

section \<open>Where the code and the RFC differ\<close>

text \<open>
  A path that ends in a dot segment, and of which an empty segment is left in front of it: the RFC keeps the
  slash of both, the code writes one (the test of \<open>normalized.back()\<close>, lines 121 to 125).
\<close>

definition loses_slash :: "string \<Rightarrow> bool"
where
  "loses_slash path \<longleftrightarrow>
     dot_segment (last (split_on (CHR ''/'') path)) \<and> take 2 (rev (rfc_remove path)) = ''//''"

lemma last_split_suffix:
  "drop (length p - Suc (length x)) p = c # x \<Longrightarrow> c \<notin> set x \<Longrightarrow> last (split_on c p) = x"
proof -
  assume d: "drop (length p - Suc (length x)) p = c # x" and x: "c \<notin> set x"
  have p: "p = take (length p - Suc (length x)) p @ c # x"
    using d append_take_drop_id [of "length p - Suc (length x)" p] by simp
  have "last (split_on c (a @ c # x)) = x" for a by (simp add: split_on_append split_on_absent [OF x])
  then show ?thesis using p by metis
qed

lemma split_last_text: "\<exists>a. c # s = a @ c # last (split_on c s)"
proof (induction s rule: rev_induct)
  case Nil
  show ?case by (intro exI [of _ "[]"]) simp
next
  case (snoc x xs)
  show ?case
  proof (cases "x = c")
    case True
    then show ?thesis using split_on_append [of c xs "[]"] by (intro exI [of _ "c # xs"]) simp
  next
    case False
    obtain l where l: "l = last (split_on c xs)" by blast
    from snoc.IH obtain a where a: "c # xs = a @ c # l" unfolding l by blast
    have "c \<notin> set l" unfolding l by (meson last_in_set split_on_nonempty split_on_sep_free)
    then have n: "c \<notin> set (l @ [x])" using False by auto
    have e: "c # xs @ [x] = a @ c # l @ [x]" using a by simp
    have "last (split_on c (c # xs @ [x])) = l @ [x]"
      unfolding e by (simp add: split_on_append split_on_absent [OF n])
    moreover have "last (split_on c (c # xs @ [x])) = last (split_on c (xs @ [x]))"
      using split_on_append [of c "[]" "xs @ [x]"] split_on_nonempty [of c "xs @ [x]"] by simp
    ultimately show ?thesis using e by auto
  qed
qed

lemma ends_in_segment:
  assumes "path = CHR ''/'' # s" and "x = last (split_on (CHR ''/'') s)"
  shows "last path = CHR ''/'' \<longleftrightarrow> x = []"
    and "length path \<ge> 2 \<and> drop (length path - 2) path = ''/.'' \<longleftrightarrow> x = ''.''"
    and "length path \<ge> 3 \<and> drop (length path - 3) path = ''/..'' \<longleftrightarrow> x = ''..''"
    and "last (split_on (CHR ''/'') path) = x"
proof -
  obtain a where a: "path = a @ CHR ''/'' # x" using split_last_text [of "CHR ''/''" s] assms by auto
  have n: "CHR ''/'' \<notin> set x" unfolding assms(2) by (meson last_in_set split_on_nonempty split_on_sep_free)
  show l: "last (split_on (CHR ''/'') path) = x" unfolding a by (simp add: split_on_append split_on_absent [OF n])
  show "last path = CHR ''/'' \<longleftrightarrow> x = []"
    using n by (cases "x = []") (auto simp: a dest: last_in_set)
  have ends: "Suc (length y) \<le> length path \<and> drop (length path - Suc (length y)) path = CHR ''/'' # y \<longleftrightarrow> x = y"
    if "CHR ''/'' \<notin> set y" for y
  proof
    assume "Suc (length y) \<le> length path \<and> drop (length path - Suc (length y)) path = CHR ''/'' # y"
    with that l last_split_suffix [of path y "CHR ''/''"] show "x = y" by simp
  qed (simp add: a)
  from ends [of "''.''"] show "length path \<ge> 2 \<and> drop (length path - 2) path = ''/.'' \<longleftrightarrow> x = ''.''"
    by (simp add: numeral_2_eq_2)
  from ends [of "''..''"] show "length path \<ge> 3 \<and> drop (length path - 3) path = ''/..'' \<longleftrightarrow> x = ''..''"
    by (simp add: numeral_3_eq_3)
qed

lemma last_flat: "segs \<noteq> [] \<Longrightarrow> CHR ''/'' \<notin> set (last segs) \<Longrightarrow> last (flat segs) = CHR ''/'' \<longleftrightarrow> last segs = []"
proof (cases segs rule: rev_cases)
  case (snoc ys y)
  assume "CHR ''/'' \<notin> set (last segs)"
  with snoc have "y \<noteq> [] \<longrightarrow> last y \<noteq> CHR ''/''" by (metis last_in_set last_snoc)
  with snoc show "last (flat segs) = CHR ''/'' \<longleftrightarrow> last segs = []" by auto
qed simp

lemma remove_dot_segments_rfc:
  assumes "path \<noteq> []" and "hd path = CHR ''/''"
  shows "remove_dot_segments path = (if loses_slash path then butlast (rfc_remove path) else rfc_remove path)"
proof -
  from assms obtain s where p: "path = CHR ''/'' # s" by (cases path) auto
  define x where "x = last (split_on (CHR ''/'') s)"
  define segs where "segs = segment_loop [] s"
  note ends = ends_in_segment [OF p x_def]
  have plain: "\<forall>y \<in> set segs. CHR ''/'' \<notin> set y" unfolding segs_def using segments_of by blast
  have rfc: "rfc_remove path = flat (segs @ (if dot_segment x then [[]] else []))"
    unfolding p segs_def x_def by (rule rfc_remove_segments)
  define n where "n = CHR ''/'' # join_with ''/'' segs"
  have code: "remove_dot_segments path =
      (if (x = [] \<or> x = ''.'' \<or> x = ''..'') \<and> last n \<noteq> CHR ''/'' then n @ ''/'' else n)"
    using ends(1-3) unfolding remove_dot_segments_def Let_def n_def segs_def by (simp add: p)
  have n: "segs \<noteq> [] \<Longrightarrow> n = flat segs \<and> (last n = CHR ''/'' \<longleftrightarrow> last segs = [])" "segs = [] \<Longrightarrow> n = ''/''"
    using flat_join last_flat plain by (auto simp: n_def)
  show ?thesis
  proof (cases "dot_segment x")
    case False
    obtain ss where ss: "split_on (CHR ''/'') s = ss @ [x]"
      using append_butlast_last_id [OF split_on_nonempty] unfolding x_def by metis
    then have "segs = foldl push_segment [] ss @ [x]"
      using push_segment_cases(3) [OF False] by (simp add: segs_def segment_loop_fold)
    then have "segs \<noteq> []" "last segs = x" by simp_all
    with False n ends(4) show ?thesis unfolding code rfc loses_slash_def by (auto simp: dot_segment_def)
  next
    case True
    have "take 2 (rev (f @ ''/'')) = ''//'' \<longleftrightarrow> f \<noteq> [] \<and> last f = CHR ''/''" for f
      by (cases f rule: rev_cases) auto
    moreover have "flat segs \<noteq> [] \<longleftrightarrow> segs \<noteq> []" by (cases segs) simp_all
    ultimately have "take 2 (rev (flat segs @ ''/'')) = ''//'' \<longleftrightarrow> segs \<noteq> [] \<and> last segs = []"
      using plain last_flat by (metis last_in_set)
    with True n ends(4) show ?thesis
      unfolding code rfc loses_slash_def by (cases "segs = []") (auto simp: dot_segment_def)
  qed
qed

section \<open>Sections 5.2.3 and 5.2.2: the target\<close>

text \<open>All but the last segment of the base path, the whole of it up to its last slash, in front of the reference.\<close>

definition rfc_merge :: "string \<Rightarrow> string \<Rightarrow> string"
  where "rfc_merge base_path reference = rev (dropWhile (\<lambda>c. c \<noteq> CHR ''/'') (rev base_path)) @ reference"

definition reference_path :: "string \<Rightarrow> string"
  where "reference_path location = takeWhile (\<lambda>c. c \<notin> set ''?#'') location"

definition reference_query :: "string \<Rightarrow> string"
  where "reference_query location =
    takeWhile (\<lambda>c. c \<noteq> CHR ''#'') (drop (length (reference_path location)) location)"

definition absolute_path :: "url \<Rightarrow> string \<Rightarrow> string"
where
  "absolute_path base location =
     (if take 1 (reference_path location) = ''/'' then reference_path location
      else rfc_merge (url_path base) (reference_path location))"

text \<open>The target of a reference without scheme and authority; the query is written with its question mark.\<close>

definition rfc_target :: "url \<Rightarrow> string \<Rightarrow> string"
where
  "rfc_target base location =
     (if reference_path location = [] then
        (if reference_query location = [] then url_target base else url_path base @ reference_query location)
      else rfc_remove (absolute_path base location) @ reference_query location)"

lemma strip_fragment_takeWhile: "strip_fragment s = takeWhile (\<lambda>c. c \<noteq> CHR ''#'') s"
  by (induction s) (auto simp: strip_fragment_def split: option.splits)

lemma reference_parts:
  "location = reference_path location @ dropWhile (\<lambda>c. c \<notin> set ''?#'') location"
  "reference_query location = strip_fragment (dropWhile (\<lambda>c. c \<notin> set ''?#'') location)"
proof -
  have "takeWhile P s @ dropWhile P s = s" "drop (length (takeWhile P s)) s = dropWhile P s" for P and s :: string
    by (rule takeWhile_dropWhile_id, rule dropWhile_eq_drop [symmetric])
  then show "location = reference_path location @ dropWhile (\<lambda>c. c \<notin> set ''?#'') location"
    "reference_query location = strip_fragment (dropWhile (\<lambda>c. c \<notin> set ''?#'') location)"
    unfolding reference_path_def reference_query_def strip_fragment_takeWhile by metis+
qed

lemma merge_path_rfc:
  assumes "r = reference_path location" and "r \<noteq> []" and "CHR ''/'' \<in> set (url_path base)"
  shows "merge_path base r = absolute_path base location"
proof (cases "hd r = CHR ''/''")
  case True
  with assms(2) have "take 1 r = ''/''" by (cases r) simp_all
  with True assms(1,2) show ?thesis by (simp add: merge_path_def absolute_path_def)
next
  case False
  from assms(3) obtain i where i: "rfind_chr (CHR ''/'') (url_path base) = Some i"
    using rfind_chr_None by (metis option.exhaust)
  then obtain pre post where p: "url_path base = pre @ CHR ''/'' # post" "length pre = i" "CHR ''/'' \<notin> set post"
    by (rule rfind_chrE)
  have "dropWhile (\<lambda>c. c \<noteq> CHR ''/'') (rev post @ CHR ''/'' # rev pre) = CHR ''/'' # rev pre"
    using p(3) by (auto simp: dropWhile_append)
  then have "rfc_merge (url_path base) r = take (i + 1) (url_path base) @ r" by (simp add: rfc_merge_def p)
  moreover from False assms(2) have "take 1 r \<noteq> ''/''" by (cases r) simp_all
  ultimately show ?thesis using False i assms(1) by (simp add: merge_path_def absolute_path_def)
qed

lemma remove_dot_segments_bytes:
  "c \<in> set (remove_dot_segments p) \<Longrightarrow> c = CHR ''/'' \<or> c \<in> set p"
proof -
  have join: "c \<in> set (join_with ''/'' ss) \<Longrightarrow> c = CHR ''/'' \<or> (\<exists>x \<in> set ss. c \<in> set x)" for ss
    by (cases ss) (auto simp: join_Cons split: if_splits)
  have "\<Union> (set ` set (split_on (CHR ''/'') s)) \<subseteq> set s" for s
    by (induction s) (simp, force simp: UN_subset_iff split: list.splits if_splits)
  then have split: "x \<in> set (split_on (CHR ''/'') s) \<Longrightarrow> c \<in> set x \<Longrightarrow> c \<in> set s" for x s by blast
  have "x \<in> set (segment_loop [] s) \<Longrightarrow> c \<in> set x \<Longrightarrow> c \<in> set s" for x s
    using fold_segments [of x "[]"] split by (auto simp: segment_loop_fold)
  then show "c \<in> set (remove_dot_segments p) \<Longrightarrow> c = CHR ''/'' \<or> c \<in> set p"
    unfolding remove_dot_segments_def Let_def
    by (auto dest!: join split: if_splits dest: in_set_dropD)
qed

lemma relative_target_rfc:
  assumes "wf_target (up_target p)" and "location \<noteq> []" and "\<not> loses_slash (absolute_path (mk_url p) location)"
  shows "relative_target (mk_url p) location = rfc_target (mk_url p) location"
proof -
  let ?base = "mk_url p" and ?r = "reference_path location" and ?s = "dropWhile (\<lambda>c. c \<notin> set ''?#'') location"
  note loc = reference_parts [of location]
  have tgt: "CHR ''#'' \<notin> set (up_target p)" using assms(1) by (auto simp: wf_target_def list_all_iff)
  then have "CHR ''#'' \<notin> set (url_target ?base)" by simp
  moreover have path: "url_path ?base \<noteq> []" "hd (url_path ?base) = CHR ''/''"
    using mk_url_path_query [OF assms(1)] by simp_all
  ultimately have no_hash: "CHR ''#'' \<notin> set (url_path ?base)"
    using mk_url_path_query(1) [OF assms(1)] by (metis in_set_conv_decomp append_assoc append_Cons)
  show ?thesis
  proof (cases "?r = []")
    case True
    then have s: "location = ?s" using loc(1) by simp
    then have "hd location \<in> set ''?#''" using assms(2) hd_dropWhile [of "\<lambda>c. c \<notin> set ''?#''" location] by metis
    then consider "hd location = CHR ''#''" | "hd location = CHR ''?''" by auto
    then show ?thesis
    proof cases
      case 1
      then have "strip_fragment location = []" using assms(2) by (cases location) (simp_all add: strip_fragment_takeWhile)
      with 1 True s loc(2) show ?thesis
        by (simp add: relative_target_def rfc_target_def strip_fragment_append [OF tgt])
    next
      case 2
      then have "strip_fragment location \<noteq> []" using assms(2) by (cases location) (simp_all add: strip_fragment_takeWhile)
      with 2 True s loc(2) show ?thesis
        by (simp add: relative_target_def rfc_target_def strip_fragment_append [OF no_hash])
    qed
  next
    case False
    then have "hd location \<notin> set ''?#''" by (cases location) (auto simp: reference_path_def split: if_splits)
    then have h: "hd location \<noteq> CHR ''#''" "hd location \<noteq> CHR ''?''" by simp_all
    have "CHR ''/'' \<in> set (url_path ?base)" using path by (metis hd_in_set)
    note m = merge_path_rfc [OF refl False this]
    let ?m = "absolute_path ?base location"
    have abs: "?m \<noteq> []" "hd ?m = CHR ''/''"
      using path unfolding m [symmetric] by (auto simp: merge_path_def hd_append split: option.splits)
    have "CHR ''#'' \<notin> set ?r" by (auto simp: reference_path_def dest: set_takeWhileD)
    then have "CHR ''#'' \<notin> set ?m"
      using no_hash unfolding m [symmetric] by (auto simp: merge_path_def dest: in_set_takeD split: option.splits)
    then have "CHR ''#'' \<notin> set (remove_dot_segments ?m)" using remove_dot_segments_bytes by fastforce
    from strip_fragment_append [OF this] m h False loc(2) show ?thesis
      using remove_dot_segments_rfc [OF abs] assms(3)
      unfolding relative_target_def rfc_target_def reference_path_def [symmetric] by simp
  qed
qed

section \<open>Properties\<close>

text \<open>
  C22: A \<open>Location\<close> without a scheme and without a leading \<open>//\<close> never leaves the origin.  It is
  resolved to a URL that parses, with the host, port and flags of the base, whatever the text of the
  location, and its target is the one RFC 3986 derives from the two, with the fragment dropped, unless the path ends
  in a dot segment behind an empty segment.
\<close>

theorem relative_redirect_same_origin:
  assumes "Url_parse inet i = Inr base" and "location \<noteq> []" and "scheme_end location = None"
    and "take 2 location \<noteq> ''//''" and "resolve_redirect_location inet base location = Inr c"
  shows "\<exists>u. Url_parse inet c = Inr u \<and> url_host u = url_host base \<and> url_port u = url_port base
    \<and> has_explicit_port u = has_explicit_port base
    \<and> host_is_ipv6_literal u = host_is_ipv6_literal base
    \<and> (\<not> loses_slash (absolute_path base location) \<longrightarrow> url_target u = rfc_target base location)"
proof -
  from resolve_relative [OF assms] obtain p where p: "base = mk_url p" "wf_parts inet p"
      "Url_parse inet c = Inr (mk_url (origin_parts p (relative_target base location)))" by blast
  have "wf_target ''/''" by code_simp
  then have "port_of (origin_parts p ''/'') = port_of p" by (rule origin_parts_wf [OF p(2)])
  moreover have "port_of (origin_parts p t) = port_of (origin_parts p ''/'')" for t
    by (simp add: origin_parts_def port_of_def)
  ultimately have "port_of (origin_parts p t) = port_of p" for t by metis
  moreover have "wf_target (up_target p)" using p(2) by (simp add: wf_parts_def)
  note relative_target_rfc [OF this assms(2)]
  ultimately show ?thesis using p by (simp add: origin_parts_def)
qed

theorem relative_redirect_same_origin_witness:
  "\<exists>u. Url_parse (\<lambda>t. False) ''http://h.example:81/a/d?x'' = Inr u \<and> url_host u = ''h.example''
    \<and> url_port u = 81 \<and> url_target u = ''/a/d?x''"
proof -
  have loc: "''../d?x#f'' \<noteq> []" "scheme_end ''../d?x#f'' = None" "take 2 ''../d?x#f'' \<noteq> ''//''"
    by code_simp+
  have "url_host demo_base = ''h.example''" "url_port demo_base = 81"
      "rfc_target demo_base ''../d?x#f'' = ''/a/d?x''" "\<not> loses_slash (absolute_path demo_base ''../d?x#f'')"
    by code_simp+
  with relative_redirect_same_origin [OF demo_base_parse loc demo_resolve] show ?thesis by metis
qed

text \<open>
  C36: \<open>remove_dot_segments\<close> of an absolute path is the \<open>Remove Dot Segments\<close> of RFC 3986, section 5.2.4, computed with
  its input and output buffers: \<open>..\<close> takes the segment before it away, and at the root nothing.  The one
  difference is a slash that is missing where the path ends in a dot segment behind an empty segment.
\<close>

theorem dot_segments_removed:
  assumes "path \<noteq> []" and "hd path = CHR ''/''"
  shows "remove_dot_segments path = (if loses_slash path then butlast (rfc_remove path) else rfc_remove path)"
  using assms by (rule remove_dot_segments_rfc)

theorem dot_segments_removed_witness:
  "remove_dot_segments ''/a/b/./../../../c/d/..'' = ''/c/'' \<and> remove_dot_segments ''/a//.'' = ''/a/''"
proof -
  have "rfc_remove ''/a/b/./../../../c/d/..'' = ''/c/''" "\<not> loses_slash ''/a/b/./../../../c/d/..''"
    "rfc_remove ''/a//.'' = ''/a//''" "loses_slash ''/a//.''" by code_simp+
  with dot_segments_removed [of "''/a/b/./../../../c/d/..''"] dot_segments_removed [of "''/a//.''"]
  show ?thesis by simp
qed

end
