(* ===== verification/Limits.thy ===== *)
theory Limits
  imports Prelude
begin

text \<open>
  \<open>ResponseLimits\<close> of \<open>include/cpp_request/response_limits.hpp\<close> and the overflow-safe budget test
  \<open>would_exceed\<close> that \<open>src/http/chunked_decoder.cpp\<close> and \<open>src/http/response_parser.cpp\<close> share.
\<close>

record response_limits =
  max_head_bytes :: nat
  max_body_bytes :: nat
  max_chunk_line_bytes :: nat
  max_trailer_bytes :: nat

definition default_limits :: response_limits
where
  "default_limits =
     \<lparr>max_head_bytes = 64 * 1024, max_body_bytes = 64 * 1024 * 1024,
      max_chunk_line_bytes = 8 * 1024, max_trailer_bytes = 64 * 1024\<rparr>"

text \<open>The test at its width: three values of type \<open>std::size_t\<close>.\<close>

definition would_exceed_sz :: "size_t \<Rightarrow> size_t \<Rightarrow> size_t \<Rightarrow> bool"
  where "would_exceed_sz current addition limit = (current > limit \<or> addition > limit - current)"

text \<open>The same test on the values, as the parsers below use it.\<close>

definition would_exceed :: "nat \<Rightarrow> nat \<Rightarrow> nat \<Rightarrow> bool"
  where "would_exceed current addition limit = (current > limit \<or> addition > limit - current)"

lemma would_exceed_iff: "would_exceed c a l \<longleftrightarrow> c + a > l"
  by (auto simp: would_exceed_def)

text \<open>
  On 64-bit values the test computes the mathematical comparison for every input, including
  those whose sum wraps around.
\<close>

lemma would_exceed_sz_exact:
  "would_exceed_sz c a l \<longleftrightarrow> would_exceed (unat c) (unat a) (unat l)"
proof (cases "c > l")
  case True
  then show ?thesis by (simp add: would_exceed_sz_def would_exceed_def word_less_nat_alt)
next
  case False
  then have "unat (l - c) = unat l - unat c" by (simp add: unat_sub)
  with False show ?thesis by (simp add: would_exceed_sz_def would_exceed_def word_less_nat_alt)
qed

text \<open>The sum written out, which the code avoids, is wrong where it wraps.\<close>

lemma naive_sum_wraps: "\<not> (2 + (- 1) > (10 :: size_t)) \<and> would_exceed_sz 2 (- 1) 10"
  by (simp add: would_exceed_sz_def)

end
