(* ===== verification/Chunked_Decoder.thy ===== *)
theory Chunked_Decoder
  imports Ascii Char_Conv Errors Limits
begin

text \<open>
  \<open>ChunkedDecoder\<close> of \<open>src/http/chunked_decoder.hpp\<close> and \<open>src/http/chunked_decoder.cpp\<close>: the
  grammar of a chunk-size line with its extensions, the trailer lines, and the state machine
  \<open>process\<close> over the two strings the caller shares with it.  \<open>process\<close> is modelled with its cursor
  into the input, because an error return leaves the input unconsumed.
\<close>

datatype chunk_progress = ChunkNeedMore | ChunkComplete

datatype chunk_stage = SizeLine | Data | DataCrlf | Trailers | DecodeDone

record chunked_decoder =
  cd_limits :: response_limits
  cd_stage :: chunk_stage
  chunk_remaining :: nat
  trailer_bytes_seen :: nat

definition mk_decoder :: "response_limits \<Rightarrow> chunked_decoder"
where
  "mk_decoder limits =
     \<lparr>cd_limits = limits, cd_stage = SizeLine, chunk_remaining = 0, trailer_bytes_seen = 0\<rparr>"

section \<open>Chunk extensions\<close>

definition skip_ows :: "string \<Rightarrow> string"
  where "skip_ows text = dropWhile is_ows text"

text \<open>\<open>parse_token\<close>: the rest after a non-empty token, or \<open>None\<close> (false).\<close>

definition parse_token :: "string \<Rightarrow> string option"
where
  "parse_token text =
     (let rest = dropWhile is_tchar text
      in if length rest = length text then None else Some rest)"

definition is_qdtext :: "char \<Rightarrow> bool"
where
  "is_qdtext ch =
     (ch = htab \<or> ch = CHR '' '' \<or> byte ch = 0x21 \<or> (byte ch \<ge> 0x23 \<and> byte ch \<le> 0x5b)
      \<or> (byte ch \<ge> 0x5d \<and> byte ch \<le> 0x7e) \<or> byte ch \<ge> 0x80)"

definition is_quoted_pair_char :: "char \<Rightarrow> bool"
where
  "is_quoted_pair_char ch =
     (ch = htab \<or> ch = CHR '' '' \<or> (byte ch \<ge> 0x21 \<and> byte ch \<le> 0x7e) \<or> byte ch \<ge> 0x80)"

text \<open>The loop of \<open>parse_quoted_string\<close>, behind the opening quote.\<close>

fun quoted_tail :: "string \<Rightarrow> string option"
where
  "quoted_tail [] = None"
| "quoted_tail (ch # rest) =
     (if ch = CHR 0x22 then Some rest
      else if ch = CHR 0x5C then
        (case rest of
           [] \<Rightarrow> None
         | d # ds \<Rightarrow> if \<not> is_quoted_pair_char d then None else quoted_tail ds)
      else if \<not> is_qdtext ch then None
      else quoted_tail rest)"

definition parse_quoted_string :: "string \<Rightarrow> string option"
where
  "parse_quoted_string text =
     (case text of
        [] \<Rightarrow> None
      | ch # rest \<Rightarrow> if ch \<noteq> CHR 0x22 then None else quoted_tail rest)"

text \<open>The optional value of an extension (lines 184 to 200): the rest behind it, or \<open>None\<close>.\<close>

definition extension_value :: "string \<Rightarrow> string option"
where
  "extension_value s =
     (if s \<noteq> [] \<and> hd s = CHR ''='' then
        (let v = skip_ows (tl s)
         in if v = [] then None
            else if hd v = CHR 0x22 then map_option skip_ows (parse_quoted_string v)
            else map_option skip_ows (parse_token v))
      else Some s)"

lemma skip_ows_length [simp]: "length (skip_ows s) \<le> length s"
  by (simp add: skip_ows_def length_dropWhile_le)

lemma parse_token_length: "parse_token s = Some r \<Longrightarrow> length r < length s"
  using length_dropWhile_le [of is_tchar s] by (auto simp: parse_token_def Let_def split: if_splits)

lemma quoted_tail_length: "quoted_tail s = Some r \<Longrightarrow> length r < length s"
proof (induction s rule: quoted_tail.induct)
  case (2 ch rest)
  then show ?case by (auto split: if_splits list.splits)
qed simp

lemma extension_value_length: "extension_value s = Some r \<Longrightarrow> length r \<le> length s"
proof -
  assume r: "extension_value s = Some r"
  show ?thesis
  proof (cases "s \<noteq> [] \<and> hd s = CHR ''=''")
    case True
    then have "length (skip_ows (tl s)) < length s" by (cases s) (auto simp: le_imp_less_Suc)
    moreover have "length r \<le> length (skip_ows (tl s))"
      using r True skip_ows_length le_trans
      by (auto simp: extension_value_def Let_def parse_quoted_string_def
          dest!: parse_token_length quoted_tail_length split: if_splits list.splits
          intro!: order.trans [OF skip_ows_length])
    ultimately show ?thesis by simp
  next
    case False
    with r show ?thesis by (simp add: extension_value_def)
  qed
qed

function extension_list :: "string \<Rightarrow> bool"
where
  "extension_list s =
     (case parse_token (skip_ows s) of
        None \<Rightarrow> False
      | Some s1 \<Rightarrow>
          (case extension_value (skip_ows s1) of
             None \<Rightarrow> False
           | Some s2 \<Rightarrow>
               if s2 = [] then True
               else if hd s2 \<noteq> CHR '';'' then False
               else if tl s2 = [] then False
               else extension_list (tl s2)))"
  by pat_completeness auto
termination
proof (relation "measure length", simp)
  fix s s1 s2 :: string
  assume "parse_token (skip_ows s) = Some s1" "extension_value (skip_ows s1) = Some s2"
  then have "length s2 < length s"
    using parse_token_length extension_value_length skip_ows_length
    by (meson le_less_trans less_le_trans order_trans)
  then show "(tl s2, s) \<in> measure length" by auto
qed

declare extension_list.simps [simp del]

definition valid_chunk_extensions :: "string \<Rightarrow> bool"
where
  "valid_chunk_extensions extension =
     (if extension = [] then False else extension_list extension)"

section \<open>Chunk-size lines and trailer lines\<close>

definition parse_chunk_size :: "string \<Rightarrow> nat result"
where
  "parse_chunk_size line =
     (let semicolon = find_chr (CHR '';'') line;
          size_text = rev (dropWhile is_ows (rev (take_opt semicolon line)))
      in if size_text = [] then fail InvalidChunkSize
         else if (case semicolon of
                    None \<Rightarrow> False
                  | Some i \<Rightarrow> \<not> valid_chunk_extensions (drop (i + 1) line))
         then fail InvalidChunkFraming
         else (case from_chars_all 16 64 size_text of
                 None \<Rightarrow> fail InvalidChunkSize
               | Some v \<Rightarrow> Inr v))"

definition valid_trailer_line :: "string \<Rightarrow> bool"
where
  "valid_trailer_line line =
     (if line = [] \<or> hd line = CHR '' '' \<or> hd line = htab then False
      else (case find_chr (CHR '':'') line of
              None \<Rightarrow> False
            | Some colon \<Rightarrow>
                if colon = 0 then False
                else
                  let name = take colon line; v = drop (colon + 1) line
                  in if \<not> valid_field_name name \<or> \<not> valid_field_value v then False
                     else \<not> ascii_iequals name ''Content-Length''
                          \<and> \<not> ascii_iequals name ''Transfer-Encoding''))"

definition consume_prefix :: "string \<Rightarrow> nat \<Rightarrow> string"
  where "consume_prefix input count = (if count \<noteq> 0 then drop count input else input)"

section \<open>The state machine\<close>

lemma find_from_crlf_bounds:
  "find_from (find_str crlf) s pos = Some e \<Longrightarrow> pos \<le> e \<and> e + 2 \<le> length s \<and> pos < length s"
  by (auto simp: find_from_Some dest!: find_str_Some_le)

text \<open>
  \<open>process_loop d cursor input output\<close>: one call is one turn of \<open>while (true)\<close>.  It returns the
  result, the decoder, what is left in \<open>input\<close> and the new \<open>output\<close>.
\<close>

function process_loop ::
  "chunked_decoder \<Rightarrow> nat \<Rightarrow> string \<Rightarrow> string
     \<Rightarrow> chunk_progress result \<times> chunked_decoder \<times> string \<times> string"
where
  "process_loop d cursor input output =
     (case cd_stage d of
        SizeLine \<Rightarrow>
          (case find_from (find_str crlf) input cursor of
             None \<Rightarrow>
               if length input - cursor > max_chunk_line_bytes (cd_limits d)
               then (fail ResponseLimitExceeded, d, input, output)
               else (Inr ChunkNeedMore, d, consume_prefix input cursor, output)
           | Some line_end \<Rightarrow>
               if line_end - cursor > max_chunk_line_bytes (cd_limits d)
               then (fail ResponseLimitExceeded, d, input, output)
               else
                 (case parse_chunk_size (substr input cursor (line_end - cursor)) of
                    Inl e \<Rightarrow> (Inl e, d, input, output)
                  | Inr n \<Rightarrow>
                      if n \<noteq> 0
                         \<and> would_exceed (length output) n (max_body_bytes (cd_limits d))
                      then (fail ResponseLimitExceeded, d, input, output)
                      else
                        process_loop
                          (d\<lparr>chunk_remaining := n,
                             cd_stage := (if n = 0 then Trailers else Data)\<rparr>)
                          (line_end + 2) input output))
      | Data \<Rightarrow>
          (let amount = min (chunk_remaining d) (length input - cursor);
               output = output @ substr input cursor amount;
               cursor = cursor + amount;
               d = d\<lparr>chunk_remaining := chunk_remaining d - amount\<rparr>
           in if chunk_remaining d \<noteq> 0
              then (Inr ChunkNeedMore, d, consume_prefix input cursor, output)
              else process_loop (d\<lparr>cd_stage := DataCrlf\<rparr>) cursor input output)
      | DataCrlf \<Rightarrow>
          if length input - cursor < 2
          then (Inr ChunkNeedMore, d, consume_prefix input cursor, output)
          else if input ! cursor \<noteq> CHR 0x0D \<or> input ! (cursor + 1) \<noteq> CHR 0x0A
          then (fail InvalidChunkFraming, d, input, output)
          else process_loop (d\<lparr>cd_stage := SizeLine\<rparr>) (cursor + 2) input output
      | Trailers \<Rightarrow>
          (case find_from (find_str crlf) input cursor of
             None \<Rightarrow>
               if would_exceed (trailer_bytes_seen d) (length input - cursor)
                    (max_trailer_bytes (cd_limits d))
               then (fail ResponseLimitExceeded, d, input, output)
               else (Inr ChunkNeedMore, d, consume_prefix input cursor, output)
           | Some line_end \<Rightarrow>
               (let line_bytes = line_end - cursor + 2
                in if would_exceed (trailer_bytes_seen d) line_bytes
                        (max_trailer_bytes (cd_limits d))
                   then (fail ResponseLimitExceeded, d, input, output)
                   else
                     let d = d\<lparr>trailer_bytes_seen := trailer_bytes_seen d + line_bytes\<rparr>;
                         line = substr input cursor (line_end - cursor);
                         cursor = line_end + 2
                     in if line = []
                        then (Inr ChunkComplete, d\<lparr>cd_stage := DecodeDone\<rparr>,
                              consume_prefix input cursor, output)
                        else if \<not> valid_trailer_line line
                        then (fail InvalidHeader, d, input, output)
                        else process_loop d cursor input output))
      | DecodeDone \<Rightarrow> (Inr ChunkComplete, d, consume_prefix input cursor, output))"
  by pat_completeness auto

termination
  by (relation "measures [\<lambda>(d, cursor, input, output). length input - cursor,
        \<lambda>(d, cursor, input, output). if cd_stage d = Data then 1 else 0]")
    (auto dest!: find_from_crlf_bounds)

declare process_loop.simps [simp del]

definition chunked_process ::
  "chunked_decoder \<Rightarrow> string \<Rightarrow> string
     \<Rightarrow> chunk_progress result \<times> chunked_decoder \<times> string \<times> string"
  where "chunked_process d input output = process_loop d 0 input output"

end
