(* ===== verification/Response_Parser.thy ===== *)
theory Response_Parser
  imports Chunked_Decoder Request_Model
begin

text \<open>
  \<open>ResponseParser\<close> of \<open>src/http/response_parser.hpp\<close> and \<open>src/http/response_parser.cpp\<close>, with
  \<open>Response\<close> of \<open>include/cpp_request/response.hpp\<close>: the head of a response, the framing its fields
  announce, and the state machine that reads head and body from a buffer that grows read by read.
  Every operation returns its result and the parser, also after an error.
\<close>

record response =
  status_code :: int
  reason :: string
  rs_headers :: headers
  body :: string

definition empty_response :: response
  where "empty_response = \<lparr>status_code = 0, reason = [], rs_headers = [], body = []\<rparr>"

record parsed_head =
  ph_status :: int
  ph_reason :: string
  ph_headers :: headers

record framing_info =
  fr_length_count :: nat
  fr_content_length :: nat
  fr_te_fields :: nat
  fr_te_tokens :: nat
  fr_te_is_chunked :: bool
  fr_close_requested :: bool

definition empty_framing :: framing_info
where
  "empty_framing =
     \<lparr>fr_length_count = 0, fr_content_length = 0, fr_te_fields = 0, fr_te_tokens = 0,
      fr_te_is_chunked = True, fr_close_requested = False\<rparr>"

section \<open>The head\<close>

definition valid_reason_phrase :: "string \<Rightarrow> bool"
  where "valid_reason_phrase r = list_all (\<lambda>ch. ch = htab \<or> \<not> (byte ch < 0x20 \<or> byte ch = 0x7f)) r"

definition decimal_byte :: "char \<Rightarrow> bool"
  where "decimal_byte c = (\<not> (c < CHR ''0'' \<or> c > CHR ''9''))"

text \<open>
  The status line (lines 164 to 195).  The three bytes are digits, so \<open>std::from_chars\<close> into an
  \<open>int\<close> reads them as a number below \<open>2 ^ 31\<close>.
\<close>

definition parse_status_line :: "string \<Rightarrow> (int \<times> string) result"
where
  "parse_status_line status_line =
     (let kVersionPrefix = ''HTTP/1.1 ''; code_begin = length kVersionPrefix
      in if length status_line < code_begin + 3 \<or> take code_begin status_line \<noteq> kVersionPrefix
         then fail InvalidStatusLine
         else if \<not> decimal_byte (status_line ! code_begin)
                 \<or> \<not> decimal_byte (status_line ! (code_begin + 1))
                 \<or> \<not> decimal_byte (status_line ! (code_begin + 2))
         then fail InvalidStatusLine
         else (case from_chars_all 10 31 (substr status_line code_begin 3) of
                 None \<Rightarrow> fail InvalidStatusLine
               | Some n \<Rightarrow>
                   if n < 100 \<or> n > 999 then fail InvalidStatusLine
                   else if length status_line > code_begin + 3 then
                     (if status_line ! (code_begin + 3) \<noteq> CHR '' '' then fail InvalidStatusLine
                      else if \<not> valid_reason_phrase (drop (code_begin + 4) status_line)
                      then fail InvalidStatusLine
                      else Inr (int n, drop (code_begin + 4) status_line))
                   else Inr (int n, [])))"

text \<open>The loop over the field lines (lines 205 to 234), on the block behind \<open>line_begin\<close>.\<close>

definition parse_field_line :: "string \<Rightarrow> (string \<times> string) result"
where
  "parse_field_line line =
     (if line = [] \<or> hd line = CHR '' '' \<or> hd line = htab then fail InvalidHeader
      else (case find_chr (CHR '':'') line of
              None \<Rightarrow> fail InvalidHeader
            | Some colon \<Rightarrow>
                if colon = 0 then fail InvalidHeader
                else
                  let name = take colon line; v = trim_ows (drop (colon + 1) line)
                  in if \<not> valid_field_name name \<or> \<not> valid_field_value v then fail InvalidHeader
                     else Inr (name, v)))"

function head_loop :: "headers \<Rightarrow> string \<Rightarrow> headers result"
where
  "head_loop hs block =
     (if block = [] then Inr hs
      else
        (case parse_field_line (take_opt (find_str crlf block) block) of
           Inl e \<Rightarrow> Inl e
         | Inr (name, v) \<Rightarrow>
             (case find_str crlf block of
                None \<Rightarrow> Inr (headers_add hs name v)
              | Some line_end \<Rightarrow> head_loop (headers_add hs name v) (drop (line_end + 2) block))))"
  by pat_completeness auto
termination
  by (relation "measure (\<lambda>(_, s). length s)") auto

declare head_loop.simps [simp del]

definition parse_head :: "string \<Rightarrow> parsed_head result"
where
  "parse_head block =
     (let first_line_end = find_str crlf block in
      case parse_status_line (take_opt first_line_end block) of
        Inl e \<Rightarrow> Inl e
      | Inr (status, rsn) \<Rightarrow>
          (case first_line_end of
             None \<Rightarrow> Inr \<lparr>ph_status = status, ph_reason = rsn, ph_headers = []\<rparr>
           | Some e \<Rightarrow>
               (case head_loop [] (drop (e + 2) block) of
                  Inl err \<Rightarrow> Inl err
                | Inr hs \<Rightarrow> Inr \<lparr>ph_status = status, ph_reason = rsn, ph_headers = hs\<rparr>)))"

section \<open>Framing\<close>

definition parse_content_length :: "string \<Rightarrow> nat option"
  where "parse_content_length text = (if text = [] then None else from_chars_all 10 64 text)"

text \<open>The loop over the codings of one \<open>Transfer-Encoding\<close> field (lines 274 to 297).\<close>

function coding_loop :: "framing_info \<Rightarrow> string \<Rightarrow> framing_info result"
where
  "coding_loop fr v =
     (let comma = find_chr (CHR '','') v;
          token = trim_ows (take_opt comma v)
      in if token = [] then fail MalformedResponse
         else
           let fr = fr\<lparr>fr_te_tokens := fr_te_tokens fr + 1,
                       fr_te_is_chunked := (fr_te_is_chunked fr \<and> ascii_iequals token ''chunked'')\<rparr>
           in (case comma of
                 None \<Rightarrow> Inr fr
               | Some i \<Rightarrow> coding_loop fr (drop (i + 1) v)))"
  by pat_completeness auto
termination
  by (relation "measure (\<lambda>(_, v). length v)") (auto dest!: find_if_less [OF sym])

declare coding_loop.simps [simp del]

fun framing_loop :: "framing_info \<Rightarrow> headers \<Rightarrow> framing_info result"
where
  "framing_loop fr [] = Inr fr"
| "framing_loop fr (f # fs) =
     (let fr = (if ascii_iequals (field_name f) ''Connection'' \<and> contains_token (field_value f) ''close''
                then fr\<lparr>fr_close_requested := True\<rparr> else fr)
      in if ascii_iequals (field_name f) ''Content-Length'' then
           (case parse_content_length (field_value f) of
              None \<Rightarrow> fail InvalidContentLength
            | Some v \<Rightarrow>
                framing_loop (fr\<lparr>fr_length_count := fr_length_count fr + 1,
                                fr_content_length := v\<rparr>) fs)
         else if \<not> ascii_iequals (field_name f) ''Transfer-Encoding'' then framing_loop fr fs
         else (case coding_loop (fr\<lparr>fr_te_fields := fr_te_fields fr + 1\<rparr>) (field_value f) of
                 Inl e \<Rightarrow> Inl e
               | Inr fr \<Rightarrow> framing_loop fr fs))"

definition analyze_framing :: "headers \<Rightarrow> framing_info result"
where
  "analyze_framing hs =
     (case framing_loop empty_framing hs of
        Inl e \<Rightarrow> Inl e
      | Inr fr \<Rightarrow> if fr_length_count fr > 1 then fail InvalidContentLength else Inr fr)"

definition is_header_terminated_response :: "http_method \<Rightarrow> int \<Rightarrow> bool"
where
  "is_header_terminated_response m status =
     (m = Head \<or> status = 101 \<or> status = 204 \<or> status = 304)"

definition is_interim_status :: "int \<Rightarrow> bool"
  where "is_interim_status status = (status \<ge> 100 \<and> status < 200 \<and> status \<noteq> 101)"

definition framing_header_forbidden_on_status :: "int \<Rightarrow> bool"
  where "framing_header_forbidden_on_status status = (status = 101 \<or> status = 204)"

section \<open>The state machine\<close>

datatype parse_progress = ParseNeedMore | ParseComplete

datatype parse_stage = StageHead | ContentLengthBody | CloseDelimitedBody | ChunkedBody | StageComplete

record response_parser =
  request_method :: http_method
  rp_limits :: response_limits
  rp_stage :: parse_stage
  rp_response :: response
  rp_buffer :: string
  rp_decoder :: chunked_decoder
  length_remaining :: nat
  close_requested :: bool
  close_delimited :: bool
  body_forbidden :: bool

definition mk_parser :: "http_method \<Rightarrow> response_limits \<Rightarrow> response_parser"
where
  "mk_parser m limits =
     \<lparr>request_method = m, rp_limits = limits, rp_stage = StageHead, rp_response = empty_response,
      rp_buffer = [], rp_decoder = mk_decoder limits, length_remaining = 0,
      close_requested = False, close_delimited = False, body_forbidden = False\<rparr>"

type_synonym parse_result = "parse_progress result \<times> response_parser"

text \<open>How a turn of the loop of \<open>process_buffer\<close> ends: it returns, or it goes on.\<close>

datatype turn = Return "parse_progress result" response_parser | Continue response_parser

text \<open>The turn of a complete head (lines 370 to 450), once head and framing are known.\<close>

definition accept_head :: "response_parser \<Rightarrow> parsed_head \<Rightarrow> framing_info \<Rightarrow> turn"
where
  "accept_head p h fr =
     (if is_interim_status (ph_status h) then
        (if fr_length_count fr \<noteq> 0 \<or> fr_te_fields fr \<noteq> 0 then Return (fail MalformedResponse) p
         else Continue p)
      else
        let p = p\<lparr>rp_response := (rp_response p)\<lparr>status_code := ph_status h, reason := ph_reason h,
                                                  rs_headers := ph_headers h\<rparr>,
                  close_requested := (fr_close_requested fr \<or> ph_status h = 101)\<rparr>
        in if fr_te_fields fr \<noteq> 0 \<and> fr_length_count fr \<noteq> 0
           then Return (fail ConflictingMessageFraming) p
           else if framing_header_forbidden_on_status (ph_status h)
                   \<and> (fr_length_count fr \<noteq> 0 \<or> fr_te_fields fr \<noteq> 0)
           then Return (fail MalformedResponse) p
           else if is_header_terminated_response (request_method p) (ph_status h)
           then Return (Inr ParseComplete) (p\<lparr>rp_stage := StageComplete\<rparr>)
           else if ph_status h = 205 then
             (let p = p\<lparr>body_forbidden := True\<rparr>
              in if fr_te_fields fr \<noteq> 0 then
                   (if fr_te_tokens fr \<noteq> 1 \<or> \<not> fr_te_is_chunked fr
                    then Return (fail MalformedResponse) p
                    else Continue (p\<lparr>rp_stage := ChunkedBody\<rparr>))
                 else if fr_length_count fr = 1 then
                   (if fr_content_length fr \<noteq> 0 then Return (fail InvalidContentLength) p
                    else Return (Inr ParseComplete) (p\<lparr>rp_stage := StageComplete\<rparr>))
                 else Continue (p\<lparr>close_delimited := True, rp_stage := CloseDelimitedBody\<rparr>))
           else if fr_te_fields fr \<noteq> 0 then
             (if fr_te_tokens fr \<noteq> 1 \<or> \<not> fr_te_is_chunked fr then Return (fail MalformedResponse) p
              else Continue (p\<lparr>rp_stage := ChunkedBody\<rparr>))
           else if fr_length_count fr = 1 then
             (if fr_content_length fr > max_body_bytes (rp_limits p)
              then Return (fail ResponseLimitExceeded) p
              else
                let p = p\<lparr>length_remaining := fr_content_length fr\<rparr>
                in if length_remaining p = 0
                   then Return (Inr ParseComplete) (p\<lparr>rp_stage := StageComplete\<rparr>)
                   else Continue (p\<lparr>rp_stage := ContentLengthBody\<rparr>))
           else Continue (p\<lparr>close_delimited := True, rp_stage := CloseDelimitedBody\<rparr>))"

abbreviation crlfcrlf :: string
  where "crlfcrlf \<equiv> [CHR 0x0D, CHR 0x0A, CHR 0x0D, CHR 0x0A]"

abbreviation add_body :: "response_parser \<Rightarrow> string \<Rightarrow> response"
  where "add_body p s \<equiv> (rp_response p)\<lparr>body := body (rp_response p) @ s\<rparr>"

text \<open>One turn of the loop, by stage.\<close>

definition head_turn :: "response_parser \<Rightarrow> turn"
where
  "head_turn p =
     (case find_str crlfcrlf (rp_buffer p) of
        None \<Rightarrow>
          if length (rp_buffer p) > max_head_bytes (rp_limits p)
          then Return (fail ResponseLimitExceeded) p
          else Return (Inr ParseNeedMore) p
      | Some head_end \<Rightarrow>
          if would_exceed head_end 4 (max_head_bytes (rp_limits p))
          then Return (fail ResponseLimitExceeded) p
          else (case parse_head (take head_end (rp_buffer p)) of
                  Inl e \<Rightarrow> Return (Inl e) p
                | Inr h \<Rightarrow>
                    (let p = p\<lparr>rp_buffer := drop (head_end + 4) (rp_buffer p)\<rparr>
                     in case analyze_framing (ph_headers h) of
                          Inl e \<Rightarrow> Return (Inl e) p
                        | Inr fr \<Rightarrow> accept_head p h fr)))"

definition length_turn :: "response_parser \<Rightarrow> turn"
where
  "length_turn p =
     (let amount = min (length_remaining p) (length (rp_buffer p));
          p = p\<lparr>rp_response := add_body p (take amount (rp_buffer p)),
                rp_buffer := drop amount (rp_buffer p),
                length_remaining := length_remaining p - amount\<rparr>
      in if length_remaining p = 0
         then Return (Inr ParseComplete) (p\<lparr>rp_stage := StageComplete\<rparr>)
         else Return (Inr ParseNeedMore) p)"

definition close_turn :: "response_parser \<Rightarrow> turn"
where
  "close_turn p =
     (if body_forbidden p \<and> rp_buffer p \<noteq> [] then Return (fail MalformedResponse) p
      else if rp_buffer p \<noteq> [] then
        (if would_exceed (length (body (rp_response p))) (length (rp_buffer p))
              (max_body_bytes (rp_limits p))
         then Return (fail ResponseLimitExceeded) p
         else Return (Inr ParseNeedMore) (p\<lparr>rp_response := add_body p (rp_buffer p), rp_buffer := []\<rparr>))
      else Return (Inr ParseNeedMore) p)"

definition chunked_turn :: "response_parser \<Rightarrow> turn"
where
  "chunked_turn p =
     (case chunked_process (rp_decoder p) (rp_buffer p) (body (rp_response p)) of
        (decoded, d, inp, out) \<Rightarrow>
          (let p = p\<lparr>rp_decoder := d, rp_buffer := inp,
                     rp_response := (rp_response p)\<lparr>body := out\<rparr>\<rparr>
           in case decoded of
                Inl e \<Rightarrow> Return (Inl e) p
              | Inr progress \<Rightarrow>
                  if body_forbidden p \<and> body (rp_response p) \<noteq> []
                  then Return (fail MalformedResponse) p
                  else if progress = ChunkNeedMore then Return (Inr ParseNeedMore) p
                  else Return (Inr ParseComplete) (p\<lparr>rp_stage := StageComplete\<rparr>)))"

definition process_turn :: "response_parser \<Rightarrow> turn"
where
  "process_turn p =
     (case rp_stage p of
        StageHead \<Rightarrow> head_turn p
      | ContentLengthBody \<Rightarrow> length_turn p
      | CloseDelimitedBody \<Rightarrow> close_turn p
      | ChunkedBody \<Rightarrow> chunked_turn p
      | StageComplete \<Rightarrow> Return (Inr ParseComplete) p)"

lemma accept_head_buffer: "accept_head p h fr = Continue p' \<Longrightarrow> rp_buffer p' = rp_buffer p"
  by (auto simp: accept_head_def Let_def split: if_splits)

lemma process_turn_shrinks: "process_turn p = Continue p' \<Longrightarrow> length (rp_buffer p') < length (rp_buffer p)"
  by (auto simp: process_turn_def head_turn_def length_turn_def close_turn_def chunked_turn_def Let_def
      dest!: accept_head_buffer find_str_Some_le
      split: parse_stage.splits option.splits sum.splits if_splits prod.splits)

function process_buffer :: "response_parser \<Rightarrow> parse_result"
where
  "process_buffer p =
     (case process_turn p of
        Return r p' \<Rightarrow> (r, p')
      | Continue p' \<Rightarrow> process_buffer p')"
  by pat_completeness auto
termination
  by (relation "measure (\<lambda>p. length (rp_buffer p))") (auto dest: process_turn_shrinks)

declare process_buffer.simps [simp del]

definition feed :: "response_parser \<Rightarrow> string \<Rightarrow> parse_result"
where
  "feed p bytes =
     process_buffer (if bytes \<noteq> [] then p\<lparr>rp_buffer := rp_buffer p @ bytes\<rparr> else p)"

definition finish_eof :: "response_parser \<Rightarrow> parse_result"
where
  "finish_eof p =
     (case rp_stage p of
        CloseDelimitedBody \<Rightarrow>
          if body_forbidden p \<and> rp_buffer p \<noteq> [] then (fail MalformedResponse, p)
          else if rp_buffer p \<noteq> []
                  \<and> would_exceed (length (body (rp_response p))) (length (rp_buffer p))
                      (max_body_bytes (rp_limits p))
          then (fail ResponseLimitExceeded, p)
          else
            let p = (if rp_buffer p \<noteq> []
                     then p\<lparr>rp_response := add_body p (rp_buffer p), rp_buffer := []\<rparr> else p)
            in (Inr ParseComplete, p\<lparr>rp_stage := StageComplete\<rparr>)
      | StageComplete \<Rightarrow> (Inr ParseComplete, p)
      | _ \<Rightarrow> (fail UnexpectedEof, p))"

definition complete :: "response_parser \<Rightarrow> bool"
  where "complete p = (rp_stage p = StageComplete)"

definition connection_reusable :: "response_parser \<Rightarrow> bool"
  where "connection_reusable p = (complete p \<and> \<not> close_requested p \<and> \<not> close_delimited p)"

definition pending_bytes :: "response_parser \<Rightarrow> string"
  where "pending_bytes p = rp_buffer p"

text \<open>\<open>take_response\<close> asserts that the parser is complete; the parser is not used afterwards.\<close>

definition take_response :: "response_parser \<Rightarrow> response option"
  where "take_response p = (if complete p then Some (rp_response p) else None)"

end
