(* ===== verification/Incremental.thy ===== *)
theory Incremental
  imports Prelude
begin

text \<open>
  The contract between the HTTP parsers and the code that feeds them bytes as they arrive from the
  network.  A parser is a state with a \<open>feed\<close> operation; \<open>more r\<close> says that a result asks for
  further bytes.  The law \<open>feed_append\<close> says that a parser that asked for more has lost nothing:
  feeding the rest gives what feeding everything at once gives.  \<open>seen\<close> is what the caller can tell
  about an answer: the result, and the state as far as it is read again (the bytes left in a buffer
  after an error are not).  What follows, for any way of cutting a stream into reads, is proved here
  once.  The chunked decoder and the response parser
  interpret the locale on the code's definitions.
\<close>

fun feed_all :: "('s \<Rightarrow> string \<Rightarrow> 'r \<times> 's) \<Rightarrow> ('r \<Rightarrow> bool) \<Rightarrow> 's \<Rightarrow> string list \<Rightarrow> 'r \<times> 's"
where
  "feed_all feed more s [] = feed s []"
| "feed_all feed more s [x] = feed s x"
| "feed_all feed more s (x # y # ys) =
     (case feed s x of (r, s') \<Rightarrow> if more r then feed_all feed more s' (y # ys) else (r, s'))"

locale incremental =
  fixes feed :: "'s \<Rightarrow> string \<Rightarrow> 'r \<times> 's"
    and more :: "'r \<Rightarrow> bool"
    and seen :: "'r \<times> 's \<Rightarrow> 'o"
  assumes feed_append: "feed s a = (r, s') \<Longrightarrow> more r \<Longrightarrow> seen (feed s (a @ b)) = seen (feed s' b)"
    and seen_result: "seen (r, s) = seen (q, t) \<Longrightarrow> r = q"
    and seen_more: "seen (r, s) = seen (r, t) \<Longrightarrow> more r \<Longrightarrow> s = t"
begin

text \<open>Feeding segments amounts to feeding the concatenation of those that were read.\<close>

lemma feed_all_prefix:
  "segs \<noteq> [] \<Longrightarrow>
     \<exists>xs ys. segs = xs @ ys \<and> xs \<noteq> []
       \<and> seen (feed_all feed more s segs) = seen (feed s (concat xs))
       \<and> (ys \<noteq> [] \<longrightarrow> \<not> more (fst (feed_all feed more s segs)))"
proof (induction segs arbitrary: s)
  case (Cons x zs)
  show ?case
  proof (cases zs)
    case Nil
    then show ?thesis by (rule_tac x = "[x]" in exI, rule_tac x = "[]" in exI) simp
  next
    case (Cons y ys)
    obtain r s' where f: "feed s x = (r, s')" by fastforce
    show ?thesis
    proof (cases "more r")
      case True
      have "zs \<noteq> []" using Cons by simp
      from Cons.IH [OF this, of s'] obtain us vs where us: "zs = us @ vs" "us \<noteq> []"
          "seen (feed_all feed more s' zs) = seen (feed s' (concat us))"
          "vs \<noteq> [] \<longrightarrow> \<not> more (fst (feed_all feed more s' zs))"
        by blast
      moreover have "feed_all feed more s (x # zs) = feed_all feed more s' zs"
        using f True Cons by simp
      ultimately show ?thesis
        using feed_append [OF f True, of "concat us"]
        by (metis append_Cons concat.simps(2) list.distinct(1))
    next
      case False
      with f Cons show ?thesis by (rule_tac x = "[x]" in exI, rule_tac x = zs in exI) simp
    qed
  qed
qed simp

lemma seen_fst: "seen p = seen q \<Longrightarrow> fst p = fst q"
  using seen_result [of "fst p" "snd p" "fst q" "snd q"] by simp

lemma feed_all_more:
  assumes "more (fst (feed_all feed more s segs))"
  shows "feed_all feed more s segs = feed s (concat segs)"
proof (cases "segs = []")
  case False
  with feed_all_prefix [OF False, of s] assms
  have eq: "seen (feed_all feed more s segs) = seen (feed s (concat segs))" by auto
  with assms seen_more [of "fst (feed s (concat segs))"] seen_fst [OF eq] show ?thesis
    by (metis prod.collapse)
qed simp

end

text \<open>
  A result may also be final.  Then bytes beyond it are left in the state untouched: \<open>push\<close> puts
  further bytes behind the pending ones.
\<close>

locale incremental_final = incremental feed more seen
  for feed :: "'s \<Rightarrow> string \<Rightarrow> 'r \<times> 's" and more :: "'r \<Rightarrow> bool" and seen :: "'r \<times> 's \<Rightarrow> 'o" +
  fixes final :: "'r \<Rightarrow> bool"
    and push :: "'s \<Rightarrow> string \<Rightarrow> 's"
  assumes feed_final: "feed s a = (r, s') \<Longrightarrow> final r \<Longrightarrow> feed s (a @ b) = (r, push s' b)"
    and final_not_more: "final r \<Longrightarrow> \<not> more r"
    and seen_final: "seen (r, s) = seen (r, t) \<Longrightarrow> final r \<Longrightarrow> s = t"
begin

lemma feed_all_final:
  assumes "feed_all feed more s segs = (r, s')" and "final r"
  shows "\<exists>rest. feed s (concat segs) = (r, push s' rest)"
proof (cases "segs = []")
  case True
  with assms feed_final [of s "[]" r s' "[]"] show ?thesis by auto
next
  case False
  from feed_all_prefix [OF False, of s] obtain xs ys
    where xy: "segs = xs @ ys" and eq: "seen (feed_all feed more s segs) = seen (feed s (concat xs))"
    by blast
  obtain q t where q: "feed s (concat xs) = (q, t)" by fastforce
  with eq assms seen_result have "q = r" by metis
  moreover from this q eq assms seen_final have "t = s'" by metis
  ultimately have "feed s (concat xs @ concat ys) = (r, push s' (concat ys))"
    using q assms feed_final by blast
  with xy show ?thesis by auto
qed

text \<open>
  Cutting the same stream in two ways gives the same answer, whenever both end with an answer or
  a request for more.
\<close>

lemma segmentation_independent:
  assumes "feed_all feed more s xs = (r, s')" "final r \<or> more r"
    and "feed_all feed more s ys = (q, t')" "final q \<or> more q"
    and "concat xs = concat ys"
  shows "r = q"
proof -
  have "fst (feed s (concat zs)) = p"
    if "feed_all feed more s zs = (p, u)" "final p \<or> more p" for zs p u
    using that feed_all_final [of s zs p u] feed_all_more [of s zs] by (metis fst_conv)
  then show ?thesis using assms by metis
qed

end

end
