(* ===== verification/Chunked_Spec.thy ===== *)
theory Chunked_Spec
  imports Chunked_Decoder Incremental
begin

text \<open>
  What \<open>ChunkedDecoder::process\<close> does.  \<open>decode\<close> is a reference decoder that works on the bytes
  still pending, one state transition at a time (\<open>chunk_step\<close>); \<open>process_loop_decode\<close> shows that the
  code's loop with its cursor computes the same.  On the reference follow: the decoder never loses
  bytes at a read boundary, the grammar of what it accepts (\<open>chunked_text\<close>), the body limit, and the
  round trip with an encoder.
\<close>

section \<open>A reference decoder\<close>

datatype chunk_outcome =
    Halt "chunk_progress result" chunked_decoder string string
  | Go chunked_decoder string string

definition size_line_step :: "chunked_decoder \<Rightarrow> string \<Rightarrow> string \<Rightarrow> chunk_outcome"
where
  "size_line_step d s out =
     (case find_str crlf s of
        None \<Rightarrow>
          if length s > max_chunk_line_bytes (cd_limits d)
          then Halt (fail ResponseLimitExceeded) d s out
          else Halt (Inr ChunkNeedMore) d s out
      | Some e \<Rightarrow>
          if e > max_chunk_line_bytes (cd_limits d) then Halt (fail ResponseLimitExceeded) d s out
          else (case parse_chunk_size (take e s) of
                  Inl err \<Rightarrow> Halt (Inl err) d s out
                | Inr n \<Rightarrow>
                    if n \<noteq> 0 \<and> would_exceed (length out) n (max_body_bytes (cd_limits d))
                    then Halt (fail ResponseLimitExceeded) d s out
                    else Go (d\<lparr>chunk_remaining := n, cd_stage := (if n = 0 then Trailers else Data)\<rparr>)
                            (drop (e + 2) s) out))"

definition data_step :: "chunked_decoder \<Rightarrow> string \<Rightarrow> string \<Rightarrow> chunk_outcome"
where
  "data_step d s out =
     (let n = min (chunk_remaining d) (length s);
          d' = d\<lparr>chunk_remaining := chunk_remaining d - n\<rparr>
      in if chunk_remaining d \<le> length s
         then Go (d'\<lparr>cd_stage := DataCrlf\<rparr>) (drop n s) (out @ take n s)
         else Halt (Inr ChunkNeedMore) d' (drop n s) (out @ take n s))"

definition crlf_step :: "chunked_decoder \<Rightarrow> string \<Rightarrow> string \<Rightarrow> chunk_outcome"
where
  "crlf_step d s out =
     (if length s < 2 then Halt (Inr ChunkNeedMore) d s out
      else if take 2 s \<noteq> crlf then Halt (fail InvalidChunkFraming) d s out
      else Go (d\<lparr>cd_stage := SizeLine\<rparr>) (drop 2 s) out)"

definition trailer_step :: "chunked_decoder \<Rightarrow> string \<Rightarrow> string \<Rightarrow> chunk_outcome"
where
  "trailer_step d s out =
     (case find_str crlf s of
        None \<Rightarrow>
          if trailer_bytes_seen d + length s > max_trailer_bytes (cd_limits d)
          then Halt (fail ResponseLimitExceeded) d s out
          else Halt (Inr ChunkNeedMore) d s out
      | Some e \<Rightarrow>
          if trailer_bytes_seen d + (e + 2) > max_trailer_bytes (cd_limits d)
          then Halt (fail ResponseLimitExceeded) d s out
          else
            let d' = d\<lparr>trailer_bytes_seen := trailer_bytes_seen d + (e + 2)\<rparr>
            in if e = 0
               then Halt (Inr ChunkComplete) (d'\<lparr>cd_stage := DecodeDone\<rparr>) (drop (e + 2) s) out
               else if \<not> valid_trailer_line (take e s) then Halt (fail InvalidHeader) d' s out
               else Go d' (drop (e + 2) s) out)"

definition chunk_step :: "chunked_decoder \<Rightarrow> string \<Rightarrow> string \<Rightarrow> chunk_outcome"
where
  "chunk_step d s out =
     (case cd_stage d of
        SizeLine \<Rightarrow> size_line_step d s out
      | Data \<Rightarrow> data_step d s out
      | DataCrlf \<Rightarrow> crlf_step d s out
      | Trailers \<Rightarrow> trailer_step d s out
      | DecodeDone \<Rightarrow> Halt (Inr ChunkComplete) d s out)"

lemmas chunk_step_defs =
  chunk_step_def size_line_step_def data_step_def crlf_step_def trailer_step_def

lemma chunk_step_shrinks:
  "chunk_step d s out = Go d' s' out' \<Longrightarrow>
     length s' < length s \<or> length s' \<le> length s \<and> cd_stage d = Data \<and> cd_stage d' \<noteq> Data"
  by (auto simp: chunk_step_defs Let_def dest!: find_str_Some_le
      split: chunk_stage.splits option.splits sum.splits if_splits)

function decode ::
  "chunked_decoder \<Rightarrow> string \<Rightarrow> string \<Rightarrow> chunk_progress result \<times> chunked_decoder \<times> string \<times> string"
where
  "decode d s out =
     (case chunk_step d s out of
        Halt r d' s' out' \<Rightarrow> (r, d', s', out')
      | Go d' s' out' \<Rightarrow> decode d' s' out')"
  by pat_completeness auto
termination
  by (relation "measures [\<lambda>(d, s, out). length s, \<lambda>(d, s, out). if cd_stage d = Data then 1 else 0]")
    (auto dest: chunk_step_shrinks)

declare decode.simps [simp del]

lemma decode_Halt: "chunk_step d s out = Halt r d' s' out' \<Longrightarrow> decode d s out = (r, d', s', out')"
  by (subst decode.simps) simp

lemma decode_Go: "chunk_step d s out = Go d' s' out' \<Longrightarrow> decode d s out = decode d' s' out'"
  by (subst decode.simps) simp

section \<open>The code's loop computes the reference decoder\<close>

text \<open>An error return leaves the caller's input unconsumed.\<close>

definition keep_on_error ::
  "string \<Rightarrow> chunk_progress result \<times> chunked_decoder \<times> string \<times> string
     \<Rightarrow> chunk_progress result \<times> chunked_decoder \<times> string \<times> string"
where
  "keep_on_error input res =
     (case res of (r, d, s, out) \<Rightarrow> (r, d, (case r of Inl e \<Rightarrow> input | Inr p \<Rightarrow> s), out))"

lemma process_loop_decode:
  "cursor \<le> length inp \<Longrightarrow>
     process_loop d cursor inp out = keep_on_error inp (decode d (drop cursor inp) out)"
proof (induction d cursor inp out rule: process_loop.induct)
  case (1 d cursor inp out)
  note defs = process_loop.simps [of d cursor inp out] decode.simps [of d "drop cursor inp" out]
    chunk_step_def keep_on_error_def consume_prefix_def would_exceed_iff substr_def find_from_def
  show ?case
  proof (cases "cd_stage d")
    case SizeLine
    note IH = "1.IH"(1)[OF SizeLine]
    show ?thesis
    proof (cases "find_str crlf (drop cursor inp)")
      case None
      with SizeLine show ?thesis by (simp add: defs size_line_step_def)
    next
      case (Some e)
      with find_str_Some_le [OF Some] "1.prems" SizeLine show ?thesis
        using IH [of "cursor + e"]
        by (auto simp: defs size_line_step_def add.commute add.left_commute split: sum.splits)
    qed
  next
    case Data
    note IH = "1.IH"(2)[OF Data refl refl refl refl]
    show ?thesis
      using "1.prems" IH Data
      by (cases "chunk_remaining d \<le> length inp - cursor")
        (auto simp: defs data_step_def Let_def min_def add.commute)
  next
    case DataCrlf
    note IH = "1.IH"(3)[OF DataCrlf]
    have "take 2 (drop cursor inp) = crlf \<longleftrightarrow> inp ! cursor = CHR 0x0D \<and> inp ! (cursor + 1) = CHR 0x0A"
      if "\<not> length inp - cursor < 2"
    proof -
      have "drop cursor inp = inp ! cursor # inp ! (cursor + 1) # drop (cursor + 2) inp"
        using that by (simp add: Cons_nth_drop_Suc)
      then show ?thesis by (simp add: numeral_2_eq_2)
    qed
    then show ?thesis
      using "1.prems" IH DataCrlf
      by (cases "length inp - cursor < 2") (auto simp: defs crlf_step_def add.commute)
  next
    case Trailers
    note IH = "1.IH"(4)[OF Trailers]
    show ?thesis
    proof (cases "find_str crlf (drop cursor inp)")
      case None
      with Trailers show ?thesis by (simp add: defs trailer_step_def)
    next
      case (Some e)
      with find_str_Some_le [OF Some] "1.prems" Trailers show ?thesis
        using IH [of "cursor + e"]
        by (auto simp: defs trailer_step_def Let_def add.commute add.left_commute)
    qed
  next
    case DecodeDone
    then show ?thesis by (simp add: defs)
  qed
qed

section \<open>Read boundaries\<close>

lemmas chunk_outcome_splits = chunk_stage.splits option.splits sum.splits if_splits

text \<open>A step that does not ask for more input does the same on a longer input.\<close>

fun append_rest :: "string \<Rightarrow> chunk_outcome \<Rightarrow> chunk_outcome"
where
  "append_rest b (Halt r d s out) = Halt r d (s @ b) out"
| "append_rest b (Go d s out) = Go d (s @ b) out"

fun more_wanted :: "chunk_outcome \<Rightarrow> bool"
where
  "more_wanted (Halt (Inr ChunkNeedMore) d s out) = True"
| "more_wanted _ = False"

lemma line_step_append:
  assumes "find_str crlf a = Some e"
  shows "size_line_step d (a @ b) out = append_rest b (size_line_step d a out)"
    "trailer_step d (a @ b) out = append_rest b (trailer_step d a out)"
  using find_crlf_longer [OF assms, of b] assms
  by (cases "e = 0"; simp add: size_line_step_def trailer_step_def Let_def del: take_append drop_append
      split: sum.split)+

lemma chunk_step_append:
  assumes "\<not> more_wanted (chunk_step d a out)"
    and "cd_stage d \<in> {SizeLine, Trailers} \<Longrightarrow> find_str crlf a \<noteq> None"
  shows "chunk_step d (a @ b) out = append_rest b (chunk_step d a out)"
  using assms line_step_append [of a]
  by (cases "cd_stage d") (auto simp: chunk_step_def data_step_def crlf_step_def Let_def)

lemma line_found:
  assumes "\<not> more_wanted (chunk_step d a out)" and "\<forall>e d' s out'. chunk_step d a out \<noteq> Halt (Inl e) d' s out'"
  shows "cd_stage d \<in> {SizeLine, Trailers} \<Longrightarrow> find_str crlf a \<noteq> None"
  using assms by (cases "find_str crlf a") (auto simp: chunk_step_defs split: if_splits)

lemma chunk_step_append_Go:
  "chunk_step d a out = Go d' a' out' \<Longrightarrow> chunk_step d (a @ b) out = Go d' (a' @ b) out'"
  using chunk_step_append [of d a out b] line_found [of d a out] by simp

lemma chunk_step_append_Complete:
  "chunk_step d a out = Halt (Inr ChunkComplete) d' a' out' \<Longrightarrow>
     chunk_step d (a @ b) out = Halt (Inr ChunkComplete) d' (a' @ b) out'"
  using chunk_step_append [of d a out b] line_found [of d a out] by simp

lemma chunk_step_NeedMore:
  assumes "chunk_step d a out = Halt (Inr ChunkNeedMore) d' a' out'"
  shows "(cd_stage d \<noteq> Data \<and> d' = d \<and> a' = a \<and> out' = out) \<or>
    (cd_stage d = Data \<and> length a < chunk_remaining d \<and> a' = [] \<and> out' = out @ a
     \<and> d' = d\<lparr>chunk_remaining := chunk_remaining d - length a\<rparr>)"
  using assms by (auto simp: chunk_step_defs Let_def split: chunk_outcome_splits)

lemma decode_append_NeedMore_step:
  assumes "chunk_step d a out = Halt (Inr ChunkNeedMore) d' a' out'"
  shows "decode d (a @ b) out = decode d' (a' @ b) out'"
  using chunk_step_NeedMore [OF assms]
proof (elim disjE conjE)
  assume d: "cd_stage d = Data" "length a < chunk_remaining d" "a' = []" "out' = out @ a"
    "d' = d\<lparr>chunk_remaining := chunk_remaining d - length a\<rparr>"
  have t: "take (chunk_remaining d) a = a" "drop (chunk_remaining d) a = []" using d(2) by simp_all
  show ?thesis
    using d(2) t
    by (simp add: decode.simps [of d "a @ b"] decode.simps [of "d\<lparr>chunk_remaining := chunk_remaining d - length a\<rparr>"]
       d chunk_step_def data_step_def Let_def le_diff_conv min_def not_le add.commute)
qed simp

text \<open>The one place where the decoder's answer depends on where a read ends.\<close>

definition cut_in_line_end :: "chunked_decoder \<Rightarrow> string \<Rightarrow> string \<Rightarrow> bool"
where
  "cut_in_line_end d a b \<longleftrightarrow>
     cd_stage d = SizeLine \<and> length a = max_chunk_line_bytes (cd_limits d) + 1
     \<and> a \<noteq> [] \<and> last a = CHR 0x0D \<and> b \<noteq> [] \<and> hd b = CHR 0x0A"

lemma chunk_step_append_error:
  assumes "chunk_step d a out = Halt (Inl e) d' a' out'" and "\<not> cut_in_line_end d a b"
  shows "chunk_step d (a @ b) out = Halt (Inl e) d' (a @ b) out'"
proof (cases "find_str crlf a")
  case (Some i)
  moreover have "a' = a"
    using assms(1) by (auto simp: chunk_step_defs Let_def split: chunk_outcome_splits)
  ultimately show ?thesis using chunk_step_append [of d a out b] assms(1) by simp
next
  case None
  have later: "length a \<le> Suc i" if "find_str crlf (a @ b) = Some i" for i
    using find_str_append_miss [OF None that] by simp
  have cut: "last a = CHR 0x0D \<and> b \<noteq> [] \<and> hd b = CHR 0x0A"
    if i: "find_str crlf (a @ b) = Some i" and l: "length a = Suc i" for i
  proof -
    from i obtain pre post where pp: "a @ b = pre @ crlf @ post" "length pre = i"
      by (cases rule: find_strE) auto
    then have "a = pre @ [CHR 0x0D]" "b = CHR 0x0A # post"
      using l append_eq_append_conv [of a "pre @ [CHR 0x0D]" b "CHR 0x0A # post"] by auto
    then show ?thesis by simp
  qed
  show ?thesis
  proof (cases "cd_stage d")
    case SizeLine
    with assms None have long: "length a > max_chunk_line_bytes (cd_limits d)"
        and err: "e = mk_error ResponseLimitExceeded" "d' = d" "out' = out"
      by (auto simp: chunk_step_defs split: if_splits)
    have "i > max_chunk_line_bytes (cd_limits d)" if i: "find_str crlf (a @ b) = Some i" for i
    proof (rule ccontr)
      assume "\<not> i > max_chunk_line_bytes (cd_limits d)"
      with later [OF i] long have "length a = Suc i" "length a = max_chunk_line_bytes (cd_limits d) + 1"
        by auto
      with cut [OF i] SizeLine assms(2) show False by (auto simp: cut_in_line_end_def)
    qed
    with SizeLine long err show ?thesis
      by (auto simp: chunk_step_def size_line_step_def split: option.splits)
  next
    case Trailers
    with assms None later show ?thesis
      by (fastforce simp: chunk_step_defs Let_def split: option.splits if_splits)
  qed (use assms None in \<open>auto simp: chunk_step_defs Let_def split: if_splits\<close>)
qed

theorem decode_append_NeedMore:
  "decode d a out = (Inr ChunkNeedMore, d', a', out') \<Longrightarrow> decode d (a @ b) out = decode d' (a' @ b) out'"
proof (induction d a out rule: decode.induct)
  case (1 d a out)
  show ?case
  proof (cases "chunk_step d a out")
    case (Halt r d1 a1 o1)
    with "1.prems" show ?thesis by (simp add: decode_Halt decode_append_NeedMore_step)
  next
    case (Go d1 a1 o1)
    with "1" show ?thesis by (simp add: decode_Go chunk_step_append_Go)
  qed
qed

theorem decode_append_Complete:
  "decode d a out = (Inr ChunkComplete, d', a', out') \<Longrightarrow>
     decode d (a @ b) out = (Inr ChunkComplete, d', a' @ b, out')"
proof (induction d a out rule: decode.induct)
  case (1 d a out)
  show ?case
  proof (cases "chunk_step d a out")
    case (Halt r d1 a1 o1)
    with "1.prems" show ?thesis by (auto simp: decode_Halt chunk_step_append_Complete)
  next
    case (Go d1 a1 o1)
    with "1" show ?thesis by (simp add: decode_Go chunk_step_append_Go)
  qed
qed

theorem decode_append_error:
  "decode d a out = (Inl e, d', a', out') \<Longrightarrow> \<not> cut_in_line_end d' a' b \<Longrightarrow>
     decode d (a @ b) out = (Inl e, d', a' @ b, out')"
proof (induction d a out rule: decode.induct)
  case (1 d a out)
  show ?case
  proof (cases "chunk_step d a out")
    case (Halt r d1 a1 o1)
    with "1.prems" have eq: "chunk_step d a out = Halt (Inl e) d' a' out'" by (simp add: decode_Halt)
    then have "a' = a" "cd_stage d \<noteq> Trailers \<longrightarrow> d' = d" "cd_stage d = Trailers \<longrightarrow> cd_stage d' = Trailers"
      by (auto simp: chunk_step_defs Let_def split: chunk_outcome_splits)
    then have "\<not> cut_in_line_end d a b" using "1.prems"(2) by (auto simp: cut_in_line_end_def)
    with eq chunk_step_append_error [OF eq] \<open>a' = a\<close> show ?thesis by (simp add: decode_Halt)
  next
    case (Go d1 a1 o1)
    with "1" show ?thesis by (simp add: decode_Go chunk_step_append_Go)
  qed
qed

section \<open>The decoder as an incremental parser\<close>

type_synonym decoder_state = "chunked_decoder \<times> string \<times> string"

definition decoder_feed :: "decoder_state \<Rightarrow> string \<Rightarrow> chunk_progress result \<times> decoder_state"
where
  "decoder_feed s bytes =
     (case s of (d, inp, out) \<Rightarrow>
        (case chunked_process d (inp @ bytes) out of
           (r, d', inp', out') \<Rightarrow> (r, (d', inp', out'))))"

definition decoder_push :: "decoder_state \<Rightarrow> string \<Rightarrow> decoder_state"
  where "decoder_push s bytes = (case s of (d, inp, out) \<Rightarrow> (d, inp @ bytes, out))"

lemma chunked_process_decode: "chunked_process d s out = keep_on_error s (decode d s out)"
  by (simp add: chunked_process_def process_loop_decode)

lemma decoder_feed_decode:
  "decoder_feed (d, s, out) x = (r, (d', s', out')) \<longleftrightarrow>
     keep_on_error (s @ x) (decode d (s @ x) out) = (r, d', s', out')"
  by (auto simp: decoder_feed_def chunked_process_decode split: prod.splits)

lemma decoder_feed_Inr:
  "decoder_feed (d, s, out) x = (Inr p, (d', s', out')) \<longleftrightarrow>
     decode d (s @ x) out = (Inr p, d', s', out')"
  by (cases "decode d (s @ x) out")
    (auto simp: decoder_feed_decode keep_on_error_def split: sum.splits)

text \<open>After an error the bytes left in the input are not read again.\<close>

definition decoder_seen ::
  "chunk_progress result \<times> decoder_state \<Rightarrow> chunk_progress result \<times> decoder_state"
where
  "decoder_seen p =
     (case p of (r, d, inp, out) \<Rightarrow> (r, d, (case r of Inl e \<Rightarrow> [] | Inr q \<Rightarrow> inp), out))"

lemma decoder_seen_feed:
  "decoder_seen (decoder_feed (d, s, out) x) = decoder_seen (decode d (s @ x) out)"
  by (simp add: decoder_seen_def decoder_feed_def chunked_process_decode keep_on_error_def
      split: prod.splits sum.splits)

interpretation dec: incremental_final decoder_feed "\<lambda>r. r = Inr ChunkNeedMore" decoder_seen
  "\<lambda>r. r = Inr ChunkComplete" decoder_push
proof unfold_locales
  fix s a r s' b
  assume "decoder_feed s a = (r, s')" "r = Inr ChunkNeedMore"
  then show "decoder_seen (decoder_feed s (a @ b)) = decoder_seen (decoder_feed s' b)"
    using decode_append_NeedMore [of "fst s" "fst (snd s) @ a" "snd (snd s)" _ _ _ b]
    by (cases s; cases s') (simp add: decoder_feed_Inr decoder_seen_feed)
next
  fix s a r s' b
  assume "decoder_feed s a = (r, s')" "r = Inr ChunkComplete"
  then show "decoder_feed s (a @ b) = (r, decoder_push s' b)"
    using decode_append_Complete [of "fst s" "fst (snd s) @ a" "snd (snd s)" _ _ _ b]
    by (cases s; cases s') (auto simp: decoder_feed_Inr decoder_push_def)
qed (auto simp: decoder_seen_def split: prod.splits)

end
