(* ===== verification/Chunked_Grammar.thy ===== *)
theory Chunked_Grammar
  imports Chunked_Spec
begin

text \<open>
  What a chunked body is.  \<open>chunked_text\<close> is the grammar of RFC 9112, section 7.1, with the
  program's resource limits; \<open>chunked_process_accepts\<close> shows that \<open>ChunkedDecoder::process\<close> accepts
  exactly its texts.  Further: the exact form of a chunk-size line, the budget invariant that bounds
  the decoded body and the bytes kept between reads, and the round trip with an encoder.
\<close>

section \<open>The grammar of chunked bodies\<close>

text \<open>
  \<open>chunked_text lim k t data\<close>: the text \<open>t\<close> is a whole chunked body that carries \<open>data\<close>, behind
  \<open>k\<close> body bytes that were decoded before.  \<open>trailer_text lim k t\<close>: a trailer section, its blank line
  included, behind \<open>k\<close> trailer bytes.
\<close>

inductive trailer_text :: "response_limits \<Rightarrow> nat \<Rightarrow> string \<Rightarrow> bool" for lim
where
  blank: "k + 2 \<le> max_trailer_bytes lim \<Longrightarrow> trailer_text lim k crlf"
| line: "find_str crlf l = None \<Longrightarrow> valid_trailer_line l \<Longrightarrow>
    k + (length l + 2) \<le> max_trailer_bytes lim \<Longrightarrow> trailer_text lim (k + (length l + 2)) t \<Longrightarrow>
    trailer_text lim k (l @ crlf @ t)"

definition size_line :: "response_limits \<Rightarrow> string \<Rightarrow> nat \<Rightarrow> bool"
where
  "size_line lim l n =
     (find_str crlf l = None \<and> length l \<le> max_chunk_line_bytes lim \<and> parse_chunk_size l = Inr n)"

inductive chunked_text :: "response_limits \<Rightarrow> nat \<Rightarrow> string \<Rightarrow> string \<Rightarrow> bool" for lim
where
  last: "size_line lim l 0 \<Longrightarrow> trailer_text lim 0 t \<Longrightarrow> chunked_text lim k (l @ crlf @ t) []"
| chunk: "size_line lim l (length c) \<Longrightarrow> c \<noteq> [] \<Longrightarrow> k + length c \<le> max_body_bytes lim \<Longrightarrow>
    chunked_text lim (k + length c) t data \<Longrightarrow>
    chunked_text lim k (l @ crlf @ c @ crlf @ t) (c @ data)"

text \<open>What a decoder in a given stage still expects.\<close>

definition awaits :: "chunked_decoder \<Rightarrow> nat \<Rightarrow> string \<Rightarrow> string \<Rightarrow> bool"
where
  "awaits d k t data =
     (case cd_stage d of
        SizeLine \<Rightarrow> chunked_text (cd_limits d) k t data
      | Data \<Rightarrow> (\<exists>c u more. t = c @ crlf @ u \<and> length c = chunk_remaining d \<and> data = c @ more
                  \<and> chunked_text (cd_limits d) (k + length c) u more)
      | DataCrlf \<Rightarrow> (\<exists>u. t = crlf @ u \<and> chunked_text (cd_limits d) k u data)
      | Trailers \<Rightarrow> data = [] \<and> trailer_text (cd_limits d) (trailer_bytes_seen d) t
      | DecodeDone \<Rightarrow> t = [] \<and> data = [])"

text \<open>No trailer byte is counted before the last chunk.\<close>

definition fresh_trailers :: "chunked_decoder \<Rightarrow> bool"
  where "fresh_trailers d = (cd_stage d \<in> {Trailers, DecodeDone} \<or> trailer_bytes_seen d = 0)"

lemma fresh_trailers_mk [simp]: "fresh_trailers (mk_decoder lim)"
  by (simp add: fresh_trailers_def mk_decoder_def)

lemma chunk_step_fresh:
  "chunk_step d s out = Go d' s' out' \<Longrightarrow> fresh_trailers d \<Longrightarrow> fresh_trailers d'"
  by (auto simp: chunk_step_defs fresh_trailers_def Let_def split: chunk_outcome_splits)

text \<open>One step takes off the front of the text what the grammar says.\<close>

lemma awaits_size_line:
  assumes "chunk_step d s out = Go d' (t' @ rest) (out @ done)" and "fresh_trailers d"
    and "awaits d' (length out + length done) t' data" and SizeLine: "cd_stage d = SizeLine"
  shows "\<exists>t. s = t @ rest \<and> awaits d (length out) t (done @ data)"
proof -
  from SizeLine assms(1) obtain e where e: "find_str crlf s = Some e"
    by (auto simp: chunk_step_defs split: chunk_outcome_splits)
  note parts = find_str_Some [OF e] find_crlf_take [OF e]
  from e SizeLine assms(1) obtain n where n: "parse_chunk_size (take e s) = Inr n"
      "e \<le> max_chunk_line_bytes (cd_limits d)" "n \<noteq> 0 \<longrightarrow> length out + n \<le> max_body_bytes (cd_limits d)"
      "d' = d\<lparr>chunk_remaining := n, cd_stage := (if n = 0 then Trailers else Data)\<rparr>"
      "drop (e + 2) s = t' @ rest" "done = []"
    by (auto simp: chunk_step_def size_line_step_def would_exceed_iff split: chunk_outcome_splits)
  have line: "size_line (cd_limits d) (take e s) n" using n parts by (simp add: size_line_def)
  have s: "s = (take e s @ crlf @ t') @ rest"
    using parts n(5) by simp
  have "awaits d (length out) (take e s @ crlf @ t') data"
  proof (cases "n = 0")
    case True
    with assms(2,3) n line SizeLine show ?thesis
      by (auto simp: awaits_def fresh_trailers_def simp del: append_Cons intro: chunked_text.last)
  next
    case False
    with assms(3) n obtain c u m where c: "t' = c @ crlf @ u" "length c = n" "data = c @ m"
        "chunked_text (cd_limits d) (length out + n) u m"
      by (auto simp: awaits_def)
    with False n line SizeLine chunked_text.chunk [of "cd_limits d" "take e s" c "length out" u m]
    show ?thesis by (auto simp: awaits_def simp del: append_Cons)
  qed
  with s n(6) show ?thesis by (metis append_Nil)
qed

lemma awaits_data:
  assumes "chunk_step d s out = Go d' (t' @ rest) (out @ done)" and "fresh_trailers d"
    and "awaits d' (length out + length done) t' data" and Data: "cd_stage d = Data"
  shows "\<exists>t. s = t @ rest \<and> awaits d (length out) t (done @ data)"
proof -
  from Data have eq: "drop (chunk_remaining d) s = t' @ rest" "done = take (chunk_remaining d) s"
      and d: "chunk_remaining d \<le> length s" "cd_stage d' = DataCrlf" "cd_limits d' = cd_limits d"
    using assms(1) by (auto simp: chunk_step_def data_step_def Let_def split: if_splits)
  from eq d(1) have "s = (done @ t') @ rest" "length done = chunk_remaining d"
    using append_take_drop_id [of "chunk_remaining d" s] by simp_all
  moreover from assms(3) d obtain u where "t' = crlf @ u"
      "chunked_text (cd_limits d) (length out + length done) u data"
    by (auto simp: awaits_def)
  ultimately show ?thesis
    using Data by (intro exI [of _ "done @ t'"]) (fastforce simp: awaits_def)
qed

lemma awaits_data_crlf:
  assumes "chunk_step d s out = Go d' (t' @ rest) (out @ done)" and "fresh_trailers d"
    and "awaits d' (length out + length done) t' data" and DataCrlf: "cd_stage d = DataCrlf"
  shows "\<exists>t. s = t @ rest \<and> awaits d (length out) t (done @ data)"
proof -
  from DataCrlf have eq: "take 2 s = crlf" "drop 2 s = t' @ rest"
      and "done = []" "cd_stage d' = SizeLine" "cd_limits d' = cd_limits d"
    using assms(1) by (auto simp: chunk_step_def crlf_step_def split: if_splits)
  moreover from eq have "s = (crlf @ t') @ rest" by (metis append_assoc append_take_drop_id)
  ultimately show ?thesis
    using DataCrlf assms(3) by (intro exI [of _ "crlf @ t'"]) (simp add: awaits_def)
qed

lemma awaits_trailers:
  assumes "chunk_step d s out = Go d' (t' @ rest) (out @ done)" and "fresh_trailers d"
    and "awaits d' (length out + length done) t' data" and Trailers: "cd_stage d = Trailers"
  shows "\<exists>t. s = t @ rest \<and> awaits d (length out) t (done @ data)"
proof -
  from Trailers assms(1) obtain e where e: "find_str crlf s = Some e"
    by (auto simp: chunk_step_defs split: chunk_outcome_splits)
  note parts = find_str_Some [OF e] find_crlf_take [OF e]
  from e Trailers assms(1) have n:
      "trailer_bytes_seen d + (e + 2) \<le> max_trailer_bytes (cd_limits d)"
      "valid_trailer_line (take e s)" "d' = d\<lparr>trailer_bytes_seen := trailer_bytes_seen d + (e + 2)\<rparr>"
      "drop (e + 2) s = t' @ rest" "done = []"
    by (auto simp: chunk_step_def trailer_step_def Let_def split: if_splits)
  have "s = (take e s @ crlf @ t') @ rest" using parts n(4) by simp
  moreover have "awaits d (length out) (take e s @ crlf @ t') data"
    using assms(3) n parts Trailers trailer_text.line [of "take e s" "trailer_bytes_seen d" "cd_limits d" t']
    by (auto simp: awaits_def simp del: append_Cons)
  ultimately show ?thesis using n(5) by (metis append_Nil)
qed

lemma awaits_step:
  assumes "chunk_step d s out = Go d' (t' @ rest) (out @ done)" and "fresh_trailers d"
    and "awaits d' (length out + length done) t' data"
  shows "\<exists>t. s = t @ rest \<and> awaits d (length out) t (done @ data)"
proof (cases "cd_stage d")
  case DecodeDone
  with assms(1) show ?thesis by (simp add: chunk_step_def)
qed (fact awaits_size_line [OF assms] awaits_data [OF assms] awaits_data_crlf [OF assms] awaits_trailers [OF assms])+

lemma chunk_step_output: "chunk_step d s out = Go d' s' out' \<Longrightarrow> \<exists>new. out' = out @ new"
  by (auto simp: chunk_step_defs Let_def split: chunk_outcome_splits)

theorem decode_sound:
  "decode d s out = (Inr ChunkComplete, d', rest, out') \<Longrightarrow> fresh_trailers d \<Longrightarrow>
     \<exists>t data. s = t @ rest \<and> out' = out @ data \<and> awaits d (length out) t data"
proof (induction d s out rule: decode.induct)
  case (1 d s out)
  show ?case
  proof (cases "chunk_step d s out")
    case (Halt r d1 s1 o1)
    with "1.prems" have step: "chunk_step d s out = Halt (Inr ChunkComplete) d' rest out'"
      by (simp add: decode_Halt)
    show ?thesis
    proof (cases "cd_stage d = DecodeDone")
      case True
      with step show ?thesis by (auto simp: chunk_step_def awaits_def)
    next
      case False
      with step have st: "cd_stage d = Trailers" "find_str crlf s = Some 0" "out' = out" "rest = drop 2 s"
          "trailer_bytes_seen d + 2 \<le> max_trailer_bytes (cd_limits d)"
        by (auto simp: chunk_step_defs Let_def numeral_2_eq_2 split: chunk_outcome_splits)
      with find_str_Some [OF st(2)] have "s = crlf @ rest" by (simp add: numeral_2_eq_2)
      moreover have "awaits d (length out) crlf []"
        using st(1,5) trailer_text.blank by (simp add: awaits_def)
      ultimately show ?thesis using st(3) by (metis append_Nil2)
    qed
  next
    case (Go d1 s1 o1)
    with "1.prems" have "decode d1 s1 o1 = (Inr ChunkComplete, d', rest, out')" "fresh_trailers d1"
      using chunk_step_fresh by (auto simp: decode_Go)
    with "1.IH" Go obtain t data where t: "s1 = t @ rest" "out' = o1 @ data"
        "awaits d1 (length o1) t data" by blast
    from chunk_step_output [OF Go] obtain new where new: "o1 = out @ new" ..
    have "chunk_step d s out = Go d1 (t @ rest) (out @ new)"
        "awaits d1 (length out + length new) t data"
      using Go t new by simp_all
    from awaits_step [OF this(1) "1.prems"(2) this(2)] obtain t0
      where "s = t0 @ rest" "awaits d (length out) t0 (new @ data)" by blast
    with t(2) new show ?thesis by auto
  qed
qed

lemma decode_trailer_text:
  assumes "trailer_text lim k t" and "cd_limits d = lim" and "cd_stage d = Trailers" and "trailer_bytes_seen d = k"
  shows "\<exists>d'. decode d (t @ rest) out = (Inr ChunkComplete, d', rest, out)"
  using assms
proof (induction k t arbitrary: d rule: trailer_text.induct)
  case (blank k)
  then have "chunk_step d (crlf @ rest) out =
      Halt (Inr ChunkComplete) (d\<lparr>trailer_bytes_seen := k + 2, cd_stage := DecodeDone\<rparr>) rest out"
    by (simp add: chunk_step_def trailer_step_def)
  then show ?case by (auto dest: decode_Halt)
next
  case (line l k t)
  let ?d = "d\<lparr>trailer_bytes_seen := k + (length l + 2)\<rparr>"
  have "l \<noteq> []" using line.hyps(2) by (auto simp: valid_trailer_line_def)
  then have "chunk_step d (l @ crlf @ t @ rest) out = Go ?d (t @ rest) out"
    using line.hyps(1,2,3) line.prems find_crlf_line [OF line.hyps(1), of "t @ rest"]
    by (simp add: chunk_step_def trailer_step_def)
  moreover from line.IH [of ?d] line.prems
  have "\<exists>d'. decode ?d (t @ rest) out = (Inr ChunkComplete, d', rest, out)" by simp
  ultimately show ?case by (simp add: decode_Go)
qed

theorem decode_complete:
  assumes "chunked_text lim k t data" and "cd_limits d = lim" and "cd_stage d = SizeLine" and "k = length out"
    and "trailer_bytes_seen d = 0"
  shows "\<exists>d'. decode d (t @ rest) out = (Inr ChunkComplete, d', rest, out @ data)"
  using assms
proof (induction k t data arbitrary: d out rule: chunked_text.induct)
  case (last l t k)
  let ?d = "d\<lparr>chunk_remaining := 0, cd_stage := Trailers\<rparr>"
  have "chunk_step d (l @ crlf @ t @ rest) out = Go ?d (t @ rest) out"
    using last find_crlf_line [of l "t @ rest"]
    by (simp add: chunk_step_def size_line_step_def size_line_def)
  moreover have "\<exists>d'. decode ?d (t @ rest) out = (Inr ChunkComplete, d', rest, out)"
    using last decode_trailer_text [of lim 0 t ?d] by simp
  ultimately show ?case by (simp add: decode_Go)
next
  case (chunk l c k t data)
  let ?d = "\<lambda>n st. d\<lparr>chunk_remaining := n, cd_stage := st\<rparr>"
  have "chunk_step d (l @ crlf @ c @ crlf @ t @ rest) out = Go (?d (length c) Data) (c @ crlf @ t @ rest) out"
    using chunk find_crlf_line [of l "c @ crlf @ t @ rest"]
    by (simp add: chunk_step_def size_line_step_def size_line_def would_exceed_iff)
  moreover have "chunk_step (?d (length c) Data) (c @ crlf @ t @ rest) out
      = Go (?d 0 DataCrlf) (crlf @ t @ rest) (out @ c)"
    by (simp add: chunk_step_def data_step_def)
  moreover have "chunk_step (?d 0 DataCrlf) (crlf @ t @ rest) (out @ c) = Go (?d 0 SizeLine) (t @ rest) (out @ c)"
    by (simp add: chunk_step_def crlf_step_def)
  moreover have "\<exists>d'. decode (?d 0 SizeLine) (t @ rest) (out @ c) = (Inr ChunkComplete, d', rest, (out @ c) @ data)"
    using chunk.IH [of "?d 0 SizeLine" "out @ c"] chunk.prems by simp
  ultimately show ?case by (simp add: decode_Go)
qed

lemma chunked_process_Inr:
  "chunked_process d s out = (Inr p, d', rest, out') \<longleftrightarrow> decode d s out = (Inr p, d', rest, out')"
  by (auto simp: chunked_process_decode keep_on_error_def split: prod.splits sum.splits)

text \<open>The grammar is exactly what \<open>process\<close> accepts.\<close>

lemma chunked_process_accepts:
  "(\<exists>d'. chunked_process (mk_decoder lim) s out = (Inr ChunkComplete, d', rest, out')) \<longleftrightarrow>
     (\<exists>t data. s = t @ rest \<and> out' = out @ data \<and> chunked_text lim (length out) t data)"
proof -
  have d: "cd_limits (mk_decoder lim) = lim" "cd_stage (mk_decoder lim) = SizeLine"
      "trailer_bytes_seen (mk_decoder lim) = 0" by (simp_all add: mk_decoder_def)
  show ?thesis
    unfolding chunked_process_Inr
    using decode_sound [of "mk_decoder lim" s out _ rest out']
      decode_complete [of lim "length out" _ _ "mk_decoder lim" out rest] d
    by (fastforce simp: awaits_def)
qed

inductive_cases trailer_textE: "trailer_text lim k t"
inductive_simps trailer_text_crlf: "trailer_text lim k [CHR 0x0D, CHR 0x0A]"
inductive_cases chunked_textE: "chunked_text lim k t data"

section \<open>The chunk-size line\<close>

lemma rev_dropWhile_split:
  "l = rev (dropWhile p (rev l)) @ rev (takeWhile p (rev l))"
  by (metis rev_append rev_rev_ident takeWhile_dropWhile_id)

lemma is_digit_not_ows: "is_digit 16 c \<Longrightarrow> \<not> is_ows c \<and> c \<noteq> CHR '';''"
  by (auto simp: is_digit_def digit_val_def is_ows_def split: if_splits)

lemma strip_digits:
  assumes "\<forall>c \<in> set ds. is_digit 16 c" and "\<forall>c \<in> set pad. is_ows c"
  shows "rev (dropWhile is_ows (rev (ds @ pad))) = ds"
proof -
  have "dropWhile is_ows (rev pad @ rev ds) = dropWhile is_ows (rev ds)"
    using assms(2) by (intro dropWhile_append2) auto
  also have "\<dots> = rev ds"
    using assms(1) is_digit_not_ows
    by (cases ds rule: rev_cases) (auto simp: is_digit_not_ows)
  finally show ?thesis by simp
qed

lemma parse_chunk_size_iff:
  "parse_chunk_size l = Inr n \<longleftrightarrow>
     (\<exists>ds pad ext. l = ds @ pad @ ext \<and> ds \<noteq> [] \<and> (\<forall>c \<in> set ds. is_digit 16 c)
        \<and> (\<forall>c \<in> set pad. is_ows c)
        \<and> (ext = [] \<or> (\<exists>e. ext = CHR '';'' # e \<and> valid_chunk_extensions e))
        \<and> n = digits_value 16 0 ds \<and> n < 2 ^ 64)" (is "?L \<longleftrightarrow> ?R")
proof
  assume ?L
  define h where "h = take_opt (find_chr (CHR '';'') l) l"
  define ds where "ds = rev (dropWhile is_ows (rev h))"
  define pad where "pad = rev (takeWhile is_ows (rev h))"
  have h: "h = ds @ pad" unfolding ds_def pad_def by (rule rev_dropWhile_split)
  have pad: "\<forall>c \<in> set pad. is_ows c" by (auto simp: pad_def dest: set_takeWhileD)
  from \<open>?L\<close> have d: "from_chars_all 16 64 ds = Some n"
    by (auto simp: parse_chunk_size_def Let_def ds_def h_def split: if_splits option.splits)
  show ?R
  proof (cases "find_chr (CHR '';'') l")
    case None
    with h d pad show ?thesis
      by (intro exI [of _ ds] exI [of _ pad] exI [of _ "[]"]) (simp add: h_def take_opt_def from_chars_all_Some)
  next
    case (Some i)
    define e where "e = drop (Suc i) l"
    have "h = take i l" by (simp add: h_def Some take_opt_def)
    with find_if_Some [OF Some] id_take_nth_drop [of i l] have l: "l = h @ CHR '';'' # e"
      unfolding e_def by metis
    from \<open>?L\<close> Some have "valid_chunk_extensions e"
      by (auto simp: parse_chunk_size_def Let_def e_def split: if_splits option.splits)
    then have "l = ds @ pad @ CHR '';'' # e \<and> (\<exists>e'. CHR '';'' # e = CHR '';'' # e' \<and> valid_chunk_extensions e')"
      unfolding l h by simp
    with d pad show ?thesis unfolding from_chars_all_Some by blast
  qed
next
  assume ?R
  then obtain ds pad ext where R: "l = ds @ pad @ ext" "ds \<noteq> []" "\<forall>c \<in> set ds. is_digit 16 c"
      "\<forall>c \<in> set pad. is_ows c" "ext = [] \<or> (\<exists>e. ext = CHR '';'' # e \<and> valid_chunk_extensions e)"
      "n = digits_value 16 0 ds" "n < 2 ^ 64" by blast
  have miss: "\<forall>x \<in> set (ds @ pad). \<not> x = CHR '';''"
    using R(3,4) is_digit_not_ows by (auto simp: is_ows_def)
  have fc: "from_chars_all 16 64 ds = Some n" using R by (simp add: from_chars_all_Some)
  from R(5) show ?L
  proof (elim disjE exE conjE)
    assume "ext = []"
    moreover have "find_chr (CHR '';'') (ds @ pad) = None" using miss by (simp only: find_if_None)
    moreover define w where "w = ds @ pad"
    ultimately have "find_chr (CHR '';'') w = None" "l = w" "rev (dropWhile is_ows (rev w)) = ds"
      using R(1) strip_digits [OF R(3,4)] by simp_all
    then show ?thesis using R(2) fc by (simp add: parse_chunk_size_def Let_def take_opt_def del: rev_is_Nil_conv)
  next
    fix e assume e: "ext = CHR '';'' # e" "valid_chunk_extensions e"
    have "find_chr (CHR '';'') ((ds @ pad) @ CHR '';'' # e) = Some (length (ds @ pad))"
      using miss by (intro find_if_split) auto
    moreover have "take (length (ds @ pad)) ((ds @ pad) @ ext) = ds @ pad"
      "drop (length (ds @ pad) + 1) ((ds @ pad) @ ext) = e" using e by simp_all
    moreover have "l = (ds @ pad) @ ext" using R(1) by simp
    ultimately show ?thesis
      using R(2) e fc strip_digits [OF R(3,4)]
      by (simp add: parse_chunk_size_def Let_def take_opt_def
          del: rev_is_Nil_conv rev_append take_append drop_append append_assoc)
  qed
qed

section \<open>Budgets\<close>

text \<open>The invariant of the decoder: the body and the chunk under way fit the body limit.\<close>

definition in_budget :: "chunked_decoder \<Rightarrow> string \<Rightarrow> bool"
where
  "in_budget d out =
     (length out + (if cd_stage d = Data then chunk_remaining d else 0) \<le> max_body_bytes (cd_limits d))"

lemma chunk_step_limits:
  "chunk_step d s out = Go d' s' out' \<Longrightarrow> cd_limits d' = cd_limits d"
  "chunk_step d s out = Halt r d' s' out' \<Longrightarrow> cd_limits d' = cd_limits d"
  by (auto simp: chunk_step_defs Let_def split: chunk_outcome_splits)

lemma chunk_step_budget:
  "chunk_step d s out = Go d' s' out' \<Longrightarrow> in_budget d out \<Longrightarrow> in_budget d' out'"
  "chunk_step d s out = Halt r d' s' out' \<Longrightarrow> in_budget d out \<Longrightarrow> in_budget d' out'"
  by (auto simp: chunk_step_defs in_budget_def would_exceed_iff Let_def split: chunk_outcome_splits)

lemma decode_budget:
  "decode d s out = (r, d', s', out') \<Longrightarrow> in_budget d out \<Longrightarrow>
     in_budget d' out' \<and> cd_limits d' = cd_limits d"
proof (induction d s out rule: decode.induct)
  case (1 d s out)
  show ?case
  proof (cases "chunk_step d s out")
    case (Halt q d1 s1 o1)
    with "1.prems" chunk_step_budget(2) [OF Halt] chunk_step_limits(2) [OF Halt] show ?thesis
      by (simp add: decode_Halt)
  next
    case (Go d1 s1 o1)
    with "1" chunk_step_budget(1) [OF Go] chunk_step_limits(1) [OF Go] show ?thesis
      by (simp add: decode_Go)
  qed
qed

lemma decoder_feed_budget:
  "decoder_feed (d, s, out) x = (r, d', s', out') \<Longrightarrow> in_budget d out \<Longrightarrow>
     in_budget d' out' \<and> cd_limits d' = cd_limits d"
  by (cases "decode d (s @ x) out")
    (simp add: decoder_feed_decode keep_on_error_def decode_budget)

text \<open>What is kept between two reads: less than a line, or one byte of a line end.\<close>

definition pending_bound :: "response_limits \<Rightarrow> nat"
  where "pending_bound lim = max 1 (max (max_chunk_line_bytes lim) (max_trailer_bytes lim))"

lemma decode_pending:
  "decode d s out = (Inr ChunkNeedMore, d', s', out') \<Longrightarrow> length s' \<le> pending_bound (cd_limits d)"
proof (induction d s out rule: decode.induct)
  case (1 d s out)
  show ?case
  proof (cases "chunk_step d s out")
    case (Halt r d1 s1 o1)
    with "1.prems" have "chunk_step d s out = Halt (Inr ChunkNeedMore) d' s' out'" by (simp add: decode_Halt)
    then show ?thesis
      by (auto simp: chunk_step_defs Let_def pending_bound_def split: chunk_outcome_splits)
  next
    case (Go d1 s1 o1)
    with "1" show ?thesis by (simp add: decode_Go chunk_step_limits)
  qed
qed

section \<open>Round trip with an encoder\<close>

definition encode_chunk :: "string \<Rightarrow> string"
  where "encode_chunk c = to_digits 16 (length c) @ crlf @ c @ crlf"

definition encode_chunks :: "string list \<Rightarrow> string"
  where "encode_chunks cs = concat (map encode_chunk cs) @ ''0'' @ crlf @ crlf"

lemma size_line_digits:
  assumes "n < 2 ^ 64" and "16 \<le> max_chunk_line_bytes lim"
  shows "size_line lim (to_digits 16 n) n"
proof -
  have dig: "\<forall>c \<in> set (to_digits 16 n). is_digit 16 c" by (rule to_digits_digits) simp_all
  then have "CHR 0x0D \<notin> set (to_digits 16 n)"
    using is_digit_def by (auto simp: is_digit_def digit_val_def split: if_splits)
  then have "find_str crlf (to_digits 16 n) = None" by (intro find_str_absent) simp_all
  moreover have "length (to_digits 16 n) \<le> 16"
    using assms(1) length_to_digits_le [of 16 n 15] by simp
  moreover have "parse_chunk_size (to_digits 16 n) = Inr n"
    unfolding parse_chunk_size_iff
    using dig assms(1) to_digits_value [of 16 n]
    by (intro exI [of _ "to_digits 16 n"] exI [of _ "[]"]) simp
  ultimately show ?thesis using assms(2) by (simp add: size_line_def)
qed

lemma encode_chunks_text:
  assumes "[] \<notin> set cs" and "k + length (concat cs) \<le> max_body_bytes lim" and "max_body_bytes lim < 2 ^ 64"
    and "16 \<le> max_chunk_line_bytes lim" and "2 \<le> max_trailer_bytes lim"
  shows "chunked_text lim k (encode_chunks cs) (concat cs)"
  using assms
proof (induction cs arbitrary: k)
  case Nil
  have "to_digits 16 0 = ''0''" by code_simp
  with Nil size_line_digits [of 0 lim] have "size_line lim ''0'' 0" by simp
  moreover have "trailer_text lim 0 crlf" using Nil by (intro trailer_text.blank) simp
  ultimately show ?case
    using chunked_text.last [of lim "''0''" crlf k] by (simp add: encode_chunks_def)
next
  case (Cons c cs)
  then have "size_line lim (to_digits 16 (length c)) (length c)" by (intro size_line_digits) auto
  moreover have "chunked_text lim (k + length c) (encode_chunks cs) (concat cs)"
    using Cons by (intro Cons.IH) auto
  ultimately show ?case
    using chunked_text.chunk [of lim "to_digits 16 (length c)" c k "encode_chunks cs" "concat cs"] Cons.prems
    by (auto simp: encode_chunks_def encode_chunk_def)
qed

section \<open>Properties\<close>

text \<open>
  C19: The loop of \<open>ChunkedDecoder::process\<close>, with its cursor into the shared buffer, computes the
  reference decoder: same result, same decoder state, same output; on an error the input stays as
  it was, otherwise what the decoder took is erased from its front.
\<close>

theorem chunked_process_refines:
  "chunked_process d inp out = keep_on_error inp (decode d inp out)"
  by (rule chunked_process_decode)

text \<open>
  C9: A fresh decoder completes exactly on the texts of the grammar \<open>chunked_text\<close> followed by
  anything.  It appends the data of the chunks to the output and leaves the bytes behind the body in
  the input.
\<close>

theorem chunked_process_exact:
  "(\<exists>d'. chunked_process (mk_decoder lim) s out = (Inr ChunkComplete, d', rest, out')) \<longleftrightarrow>
     (\<exists>t data. s = t @ rest \<and> out' = out @ data \<and> chunked_text lim (length out) t data)"
  by (rule chunked_process_accepts)

lemma feed_all_whole:
  assumes "feed_all decoder_feed (\<lambda>r. r = Inr ChunkNeedMore) s xs = (Inr p, d, i, out)"
  shows "\<exists>i'. decoder_feed s (concat xs) = (Inr p, d, i', out)"
proof (cases p)
  case ChunkNeedMore
  with assms have "feed_all decoder_feed (\<lambda>r. r = Inr ChunkNeedMore) s xs = decoder_feed s (concat xs)"
    by (intro dec.feed_all_more) simp
  with assms show ?thesis by simp
next
  case ChunkComplete
  with dec.feed_all_final [OF assms] show ?thesis by (auto simp: decoder_push_def)
qed

text \<open>
  How the stream is cut into reads does not matter: two ways of feeding the same bytes that
  end without an error end with the same result and the same decoded body.
\<close>

lemma chunked_reads_irrelevant:
  assumes "feed_all decoder_feed (\<lambda>r. r = Inr ChunkNeedMore) s xs = (Inr p, d, i, out)"
    and "feed_all decoder_feed (\<lambda>r. r = Inr ChunkNeedMore) s ys = (Inr q, d', i', out')"
    and "concat xs = concat ys"
  shows "p = q \<and> out = out' \<and> d = d'"
  using feed_all_whole [OF assms(1)] feed_all_whole [OF assms(2)] assms(3) by auto

definition demo_chunks :: "string list"
  where "demo_chunks = [''4;n=v'', crlf, ''Wi'', ''ki'', crlf @ ''0'', crlf @ ''X: y'', crlf @ crlf @ ''rest'']"

lemma demo_chunks_feed:
  "feed_all decoder_feed (\<lambda>r. r = Inr ChunkNeedMore) (mk_decoder default_limits, [], []) demo_chunks
     = (Inr ChunkComplete, (mk_decoder default_limits)\<lparr>cd_stage := DecodeDone, trailer_bytes_seen := 8\<rparr>,
        ''rest'', ''Wiki'')"
  "feed_all decoder_feed (\<lambda>r. r = Inr ChunkNeedMore) (mk_decoder default_limits, [], []) [concat demo_chunks]
     = (Inr ChunkComplete, (mk_decoder default_limits)\<lparr>cd_stage := DecodeDone, trailer_bytes_seen := 8\<rparr>,
        ''rest'', ''Wiki'')"
  by code_simp+

lemma chunked_reads_irrelevant_witness:
  "snd (snd (snd (feed_all decoder_feed (\<lambda>r. r = Inr ChunkNeedMore) (mk_decoder default_limits, [], [])
      demo_chunks))) = ''Wiki''"
  using chunked_reads_irrelevant [OF demo_chunks_feed] by (simp add: demo_chunks_feed)

text \<open>
  An answer that is an error does not depend on what follows either, with one exception: a chunk-size line of
  exactly the maximal length whose line end falls across two reads.
\<close>

lemma decode_rest: "decode d a out = (r, d', a', out') \<Longrightarrow> \<exists>pre. a = pre @ a'"
proof (induction d a out rule: decode.induct)
  case (1 d a out)
  show ?case
  proof (cases "chunk_step d a out")
    case (Halt r1 d1 a1 o1)
    then have "\<exists>n. a1 = drop n a"
      by (auto simp: chunk_step_defs Let_def split: chunk_outcome_splits
          intro: exI [of _ 0] exI [of _ "length a"])
    with Halt "1.prems" show ?thesis by (metis append_take_drop_id decode_Halt prod.inject)
  next
    case (Go d1 a1 o1)
    then have "\<exists>n. a1 = drop n a" by (auto simp: chunk_step_defs Let_def split: chunk_outcome_splits)
    then obtain pre where "a = pre @ a1" by (metis append_take_drop_id)
    moreover have "decode d1 a1 o1 = (r, d', a', out')" using "1.prems" Go by (simp add: decode_Go)
    from "1.IH" [OF Go this] obtain pre' where "a1 = pre' @ a'" by blast
    ultimately show ?thesis by (metis append.assoc)
  qed
qed

definition cuts_line_end :: "string \<Rightarrow> string \<Rightarrow> bool"
  where "cuts_line_end a b \<longleftrightarrow> a \<noteq> [] \<and> last a = CHR 0x0D \<and> b \<noteq> [] \<and> hd b = CHR 0x0A"

lemma decoder_feed_stable:
  assumes "decoder_feed (d, [], out) a = (r, s')" and "r \<noteq> Inr ChunkNeedMore" and "\<not> cuts_line_end a b"
  shows "\<exists>i. decoder_feed (d, [], out) (a @ b) = (r, fst s', i, snd (snd s'))"
proof -
  obtain q d' a' out' where dec: "decode d a out = (q, d', a', out')" by (metis prod_cases4)
  obtain pre where pre: "a = pre @ a'" using decode_rest [OF dec] by blast
  from assms(1) dec have r: "r = q" "fst s' = d'" "snd (snd s') = out'"
    by (auto simp: decoder_feed_def chunked_process_decode keep_on_error_def split: sum.splits)
  show ?thesis
  proof (cases q)
    case (Inl e)
    have "\<not> cut_in_line_end d' a' b" using assms(3) pre by (auto simp: cut_in_line_end_def cuts_line_end_def)
    from decode_append_error [OF dec [unfolded Inl] this] show ?thesis
      by (simp add: r Inl decoder_feed_def chunked_process_decode keep_on_error_def)
  next
    case (Inr p)
    with assms(2) r have "p = ChunkComplete" by (cases p) simp_all
    with decode_append_Complete [of d a out d' a' out' b] dec Inr show ?thesis
      by (simp add: r decoder_feed_def chunked_process_decode keep_on_error_def)
  qed
qed

text \<open>
  C30: How the stream is cut into reads does not matter to the decoder, errors included, when no read ends between
  the two bytes of a line end: the result, the state of the decoder and the decoded body are those of one call
  of \<open>process\<close> with all the bytes.
\<close>

theorem chunked_reads_equivalent:
  assumes "\<And>us vs. xs = us @ vs \<Longrightarrow> \<not> cuts_line_end (concat us) (concat vs)"
    and "feed_all decoder_feed (\<lambda>r. r = Inr ChunkNeedMore) (d, [], out) xs = (r, d', i, out')"
  shows "\<exists>i'. chunked_process d (concat xs) out = (r, d', i', out')"
proof -
  have "\<exists>i'. decoder_feed (d, [], out) (concat xs) = (r, d', i', out')"
  proof (cases "xs = [] \<or> r = Inr ChunkNeedMore")
    case True
    have "feed_all decoder_feed (\<lambda>r. r = Inr ChunkNeedMore) (d, [], out) xs = decoder_feed (d, [], out) (concat xs)"
      using True assms(2) dec.feed_all_more [of "(d, [], out)" xs] by (elim disjE) simp_all
    with assms(2) show ?thesis by metis
  next
    case False
    then obtain us vs where uv: "xs = us @ vs"
      "decoder_seen (feed_all decoder_feed (\<lambda>r. r = Inr ChunkNeedMore) (d, [], out) xs)
        = decoder_seen (decoder_feed (d, [], out) (concat us))"
      using dec.feed_all_prefix [of xs "(d, [], out)"] by blast
    obtain i1 where f: "decoder_feed (d, [], out) (concat us) = (r, d', i1, out')"
      using uv(2) assms(2) by (cases "decoder_feed (d, [], out) (concat us)") (auto simp: decoder_seen_def split: sum.splits)
    from decoder_feed_stable [OF f _ assms(1) [OF uv(1)]] False uv(1) show ?thesis by simp
  qed
  then show ?thesis by (auto simp: decoder_feed_def split: prod.splits)
qed

theorem chunked_reads_equivalent_witness:
  "\<exists>i. chunked_process (mk_decoder default_limits) (concat [''x'', ''yz'' @ crlf, ''5'']) []
     = (fail InvalidChunkSize, mk_decoder default_limits, i, [])"
proof (rule chunked_reads_equivalent)
  show "feed_all decoder_feed (\<lambda>r. r = Inr ChunkNeedMore) (mk_decoder default_limits, [], []) [''x'', ''yz'' @ crlf, ''5'']
    = (fail InvalidChunkSize, mk_decoder default_limits, ''xyz'' @ crlf, [])" by code_simp
  show "\<not> cuts_line_end (concat us) (concat vs)" if "[''x'', ''yz'' @ crlf, ''5''] = us @ vs" for us vs
    using that by (auto simp: cuts_line_end_def Cons_eq_append_conv)
qed

text \<open>
  C38: The condition is needed.  Whatever chunk-size line has exactly the maximal length and names a size within the
  limits, the decoder takes it when its line end arrives with it, and rejects the same bytes with
  \<open>ResponseLimitExceeded\<close> when the read ends between CR and LF, because the test at line 280 of
  \<open>src/http/chunked_decoder.cpp\<close> counts the CR as part of the line.
\<close>

theorem maximal_line_depends_on_reads:
  assumes "parse_chunk_size l = Inr n" and "0 < n" and "n \<le> max_body_bytes lim"
    and "length l = max_chunk_line_bytes lim" and "find_str crlf l = None"
  shows "fst (feed_all decoder_feed (\<lambda>r. r = Inr ChunkNeedMore) (mk_decoder lim, [], []) [l @ crlf])
      = Inr ChunkNeedMore
    \<and> fst (feed_all decoder_feed (\<lambda>r. r = Inr ChunkNeedMore) (mk_decoder lim, [], []) [l @ [CHR 0x0D], [CHR 0x0A]])
      = fail ResponseLimitExceeded"
proof
  have found: "find_str crlf (l @ crlf) = Some (length l)" using find_crlf_line [OF assms(5), of "[]"] by simp
  have "chunk_step (mk_decoder lim) (l @ crlf) []
      = Go ((mk_decoder lim)\<lparr>chunk_remaining := n, cd_stage := Data\<rparr>) [] []"
    using assms(1-4) by (simp add: chunk_step_def size_line_step_def mk_decoder_def found would_exceed_def)
  moreover have "chunk_step ((mk_decoder lim)\<lparr>chunk_remaining := n, cd_stage := Data\<rparr>) [] []
      = Halt (Inr ChunkNeedMore) ((mk_decoder lim)\<lparr>chunk_remaining := n, cd_stage := Data\<rparr>) [] []"
    using assms(2) by (simp add: chunk_step_def data_step_def Let_def)
  ultimately show "fst (feed_all decoder_feed (\<lambda>r. r = Inr ChunkNeedMore) (mk_decoder lim, [], []) [l @ crlf])
      = Inr ChunkNeedMore"
    by (simp add: decoder_feed_def chunked_process_decode keep_on_error_def decode_Go decode_Halt)
next
  have "find_str crlf (l @ [CHR 0x0D]) = None"
  proof (rule ccontr)
    assume "find_str crlf (l @ [CHR 0x0D]) \<noteq> None"
    then obtain i where i: "find_str crlf (l @ [CHR 0x0D]) = Some i" by blast
    from i obtain pre post where pp: "l @ [CHR 0x0D] = pre @ crlf @ post" "length pre = i" by (rule find_strE)
    with find_str_append_miss [OF assms(5) i] have "post = []" by (cases post rule: rev_cases) simp_all
    with pp(1) have "last (l @ [CHR 0x0D]) = CHR 0x0A" by simp
    then show False by simp
  qed
  then have "chunk_step (mk_decoder lim) (l @ [CHR 0x0D]) []
      = Halt (fail ResponseLimitExceeded) (mk_decoder lim) (l @ [CHR 0x0D]) []"
    using assms(4) by (simp add: chunk_step_def size_line_step_def mk_decoder_def)
  then show "fst (feed_all decoder_feed (\<lambda>r. r = Inr ChunkNeedMore) (mk_decoder lim, [], [])
      [l @ [CHR 0x0D], [CHR 0x0A]]) = fail ResponseLimitExceeded"
    by (simp add: decoder_feed_def chunked_process_decode keep_on_error_def decode_Halt)
qed

definition tight_limits :: response_limits
  where "tight_limits = default_limits\<lparr>max_chunk_line_bytes := 4\<rparr>"

theorem maximal_line_depends_on_reads_witness:
  "fst (feed_all decoder_feed (\<lambda>r. r = Inr ChunkNeedMore) (mk_decoder tight_limits, [], [])
      [''5;ab'' @ [CHR 0x0D], [CHR 0x0A]]) = fail ResponseLimitExceeded"
proof -
  have "parse_chunk_size ''5;ab'' = Inr 5" "5 \<le> max_body_bytes tight_limits"
    "length ''5;ab'' = max_chunk_line_bytes tight_limits" "find_str crlf ''5;ab'' = None" by code_simp+
  with maximal_line_depends_on_reads [of "''5;ab''" 5 tight_limits] show ?thesis by simp
qed

lemma feed_all_budget:
  "feed_all decoder_feed (\<lambda>r. r = Inr ChunkNeedMore) (d, i, out) xs = (r, d', i', out') \<Longrightarrow>
     in_budget d out \<Longrightarrow> in_budget d' out' \<and> cd_limits d' = cd_limits d
       \<and> (r = Inr ChunkNeedMore \<longrightarrow> length i' \<le> pending_bound (cd_limits d))"
proof (induction xs arbitrary: d i out rule: induct_list012)
  case 1
  then show ?case using decoder_feed_budget decode_pending by (fastforce simp: decoder_feed_Inr)
next
  case (2 x)
  then show ?case using decoder_feed_budget decode_pending by (fastforce simp: decoder_feed_Inr)
next
  case (3 x y zs)
  obtain r1 d1 i1 o1 where f: "decoder_feed (d, i, out) x = (r1, d1, i1, o1)" by (metis prod_cases4)
  from decoder_feed_budget [OF f "3.prems"(2)] have b: "in_budget d1 o1" "cd_limits d1 = cd_limits d" by auto
  show ?case
  proof (cases "r1 = Inr ChunkNeedMore")
    case True
    with "3.prems" f have "feed_all decoder_feed (\<lambda>r. r = Inr ChunkNeedMore) (d1, i1, o1) (y # zs)
        = (r, d', i', out')" by simp
    from "3.IH"(2) [OF this b(1)] b(2) show ?thesis by simp
  next
    case False
    with "3.prems" f b show ?thesis by auto
  qed
qed

text \<open>
  However the bytes arrive, the decoded body never exceeds \<open>max_body_bytes\<close>, and what is kept
  in the buffer between two reads is less than one line.
\<close>

lemma chunked_body_bounded:
  assumes "feed_all decoder_feed (\<lambda>r. r = Inr ChunkNeedMore) (mk_decoder lim, [], []) xs = (r, d, i, out)"
  shows "length out \<le> max_body_bytes lim
    \<and> (r = Inr ChunkNeedMore \<longrightarrow> length i \<le> pending_bound lim)"
proof -
  have "in_budget (mk_decoder lim) []" by (simp add: in_budget_def mk_decoder_def)
  from feed_all_budget [OF assms this] show ?thesis by (auto simp: in_budget_def mk_decoder_def split: if_splits)
qed

lemma chunked_body_bounded_witness:
  "length ''Wiki'' \<le> max_body_bytes default_limits"
  using chunked_body_bounded [OF demo_chunks_feed(1)] by blast

text \<open>
  Round trip with an encoder: a body cut into non-empty chunks, each behind its hexadecimal
  size, is decoded to the body, and bytes behind it stay in the input.
\<close>

lemma chunked_roundtrip:
  assumes "[] \<notin> set cs" and "length (concat cs) \<le> max_body_bytes lim" and "max_body_bytes lim < 2 ^ 64"
    and "16 \<le> max_chunk_line_bytes lim" and "2 \<le> max_trailer_bytes lim"
  shows "\<exists>d. chunked_process (mk_decoder lim) (encode_chunks cs @ rest) []
    = (Inr ChunkComplete, d, rest, concat cs)"
  using encode_chunks_text [of cs 0 lim] assms chunked_process_accepts [of lim _ "[]" rest "concat cs"]
  by fastforce

lemma chunked_roundtrip_witness:
  "\<exists>d. chunked_process (mk_decoder default_limits) (encode_chunks [''Wiki'', ''pedia''] @ ''x'') []
    = (Inr ChunkComplete, d, ''x'', ''Wikipedia'')"
  using chunked_roundtrip [of "[''Wiki'', ''pedia'']" default_limits "''x''"]
  by (simp add: default_limits_def)

text \<open>
  A chunk-size line is accepted exactly when it is a non-empty run of hexadecimal digits (no
  sign, prefix or leading blank), optional white space and an optional valid extension, and the value
  fits 64 bits.
\<close>

lemma chunk_size_line_exact:
  "parse_chunk_size l = Inr n \<longleftrightarrow>
     (\<exists>ds pad ext. l = ds @ pad @ ext \<and> ds \<noteq> [] \<and> list_all (is_digit 16) ds \<and> list_all is_ows pad
        \<and> (ext = [] \<or> (\<exists>e. ext = CHR '';'' # e \<and> valid_chunk_extensions e))
        \<and> n = digits_value 16 0 ds \<and> n < 2 ^ 64)"
  by (simp only: parse_chunk_size_iff list_all_iff)

end
