(* ===== verification/Response_Stream.thy ===== *)
theory Response_Stream
  imports Response_Parser Chunked_Grammar
begin

text \<open>
  The response parser under cut streams: it meets the contract \<open>incremental_final\<close>, so reads may
  end anywhere.  Further its budgets: what it may hold in memory at any time.
\<close>

definition push :: "response_parser \<Rightarrow> string \<Rightarrow> response_parser"
  where "push p b = p\<lparr>rp_buffer := rp_buffer p @ b\<rparr>"

lemma push_sel [simp]:
  "rp_buffer (push p b) = rp_buffer p @ b" "rp_stage (push p b) = rp_stage p"
  "rp_limits (push p b) = rp_limits p" "rp_response (push p b) = rp_response p"
  "rp_decoder (push p b) = rp_decoder p" "length_remaining (push p b) = length_remaining p"
  "body_forbidden (push p b) = body_forbidden p" "request_method (push p b) = request_method p"
  "close_requested (push p b) = close_requested p" "close_delimited (push p b) = close_delimited p"
  by (simp_all add: push_def)

lemma push_update:
  "(push p b)\<lparr>rp_buffer := x\<rparr> = p\<lparr>rp_buffer := x\<rparr>"
  "push (p\<lparr>rp_buffer := x\<rparr>) b = p\<lparr>rp_buffer := x @ b\<rparr>"
  "push (p\<lparr>rp_stage := st\<rparr>) b = (push p b)\<lparr>rp_stage := st\<rparr>"
  by (simp_all add: push_def)

lemma push_Nil [simp]: "push p [] = p"
  by (simp add: push_def)

lemma feed_push: "feed p b = process_buffer (push p b)"
  by (simp add: feed_def push_def)

fun push_turn :: "string \<Rightarrow> turn \<Rightarrow> turn"
where
  "push_turn b (Return r p) = Return r (push p b)"
| "push_turn b (Continue p) = Continue (push p b)"

fun turn_more :: "turn \<Rightarrow> bool"
where
  "turn_more (Return (Inr ParseNeedMore) p) = True"
| "turn_more _ = False"

fun turn_error :: "turn \<Rightarrow> bool"
where
  "turn_error (Return (Inl e) p) = True"
| "turn_error _ = False"

lemma accept_head_push: "accept_head (push p b) h fr = push_turn b (accept_head p h fr)"
  by (simp add: accept_head_def Let_def push_def)

lemma process_turn_push:
  assumes "\<not> turn_more (process_turn p)" and "\<not> turn_error (process_turn p)"
  shows "process_turn (push p b) = push_turn b (process_turn p)"
proof (cases "rp_stage p")
  case StageHead
  with assms obtain e where e: "find_str crlfcrlf (rp_buffer p) = Some e"
    by (cases "find_str crlfcrlf (rp_buffer p)") (auto simp: process_turn_def head_turn_def split: if_splits)
  have d: "drop (e + 4) (rp_buffer p @ b) = drop (e + 4) (rp_buffer p) @ b"
      "take e (rp_buffer p @ b) = take e (rp_buffer p)"
    using find_str_Some_le [OF e] by simp_all
  show ?thesis
    using StageHead assms e
    by (simp add: process_turn_def head_turn_def find_str_append_hit [OF e] d Let_def push_update(1)
        accept_head_push [symmetric] push_update(2) del: take_append drop_append split: sum.splits if_splits)
next
  case ContentLengthBody
  with assms have "length_remaining p \<le> length (rp_buffer p)"
    by (auto simp: process_turn_def length_turn_def Let_def min_def split: if_splits)
  with ContentLengthBody show ?thesis
    by (simp add: process_turn_def length_turn_def Let_def push_def)
next
  case CloseDelimitedBody
  with assms show ?thesis
    by (auto simp: process_turn_def close_turn_def split: if_splits)
next
  case ChunkedBody
  obtain r d i out where c: "chunked_process (rp_decoder p) (rp_buffer p) (body (rp_response p)) = (r, d, i, out)"
    by (metis prod_cases4)
  with ChunkedBody assms have r: "r = Inr ChunkComplete"
    by (cases r; cases "projr r") (auto simp: process_turn_def chunked_turn_def Let_def split: if_splits)
  from decode_append_Complete [of "rp_decoder p" "rp_buffer p" "body (rp_response p)" d i out b]
  have "chunked_process (rp_decoder p) (rp_buffer p @ b) (body (rp_response p)) = (r, d, i @ b, out)"
    using c unfolding r chunked_process_Inr by blast
  with c r ChunkedBody show ?thesis
    by (simp add: process_turn_def chunked_turn_def Let_def push_def)
next
  case StageComplete
  then show ?thesis by (simp add: process_turn_def)
qed

text \<open>After an error the state is not read again.\<close>

definition parser_seen :: "parse_result \<Rightarrow> parse_progress result \<times> response_parser option"
where
  "parser_seen res =
     (case res of (r, p) \<Rightarrow> (r, (case r of Inl e \<Rightarrow> None | Inr q \<Rightarrow> Some p)))"

lemma process_Return: "process_turn p = Return r p' \<Longrightarrow> process_buffer p = (r, p')"
  by (subst process_buffer.simps) simp

lemma process_Continue: "process_turn p = Continue p' \<Longrightarrow> process_buffer p = process_buffer p'"
  by (subst process_buffer.simps) simp

lemma process_body_turn:
  "rp_stage p \<noteq> StageHead \<Longrightarrow> \<exists>r p'. process_turn p = Return r p'"
  by (auto simp: process_turn_def length_turn_def close_turn_def chunked_turn_def Let_def
      split: parse_stage.splits if_splits prod.splits sum.splits)

abbreviation decoded_into :: "response_parser \<Rightarrow> chunked_decoder \<Rightarrow> string \<Rightarrow> string \<Rightarrow> response_parser"
where
  "decoded_into p d i out \<equiv>
     p\<lparr>rp_decoder := d, rp_buffer := i, rp_response := (rp_response p)\<lparr>body := out\<rparr>\<rparr>"

lemma chunked_turn_decode:
  assumes "rp_stage p = ChunkedBody" and "decode (rp_decoder p) (rp_buffer p) (body (rp_response p)) = (r, d, i, out)"
  shows "process_turn p =
     (case r of
        Inl e \<Rightarrow> Return (Inl e) (decoded_into p d (rp_buffer p) out)
      | Inr q \<Rightarrow>
          if body_forbidden p \<and> out \<noteq> [] then Return (fail MalformedResponse) (decoded_into p d i out)
          else if q = ChunkNeedMore then Return (Inr ParseNeedMore) (decoded_into p d i out)
          else Return (Inr ParseComplete) ((decoded_into p d i out)\<lparr>rp_stage := StageComplete\<rparr>))"
  using assms
  by (auto simp: process_turn_def chunked_turn_def chunked_process_decode keep_on_error_def Let_def
      split: sum.split)

lemma chunked_more_push:
  assumes "rp_stage p = ChunkedBody" and "process_turn p = Return (Inr ParseNeedMore) p1"
  shows "rp_stage p1 = ChunkedBody \<and> parser_seen (process_buffer (push p b)) = parser_seen (process_buffer (push p1 b))"
proof -
  obtain r d i out where c: "decode (rp_decoder p) (rp_buffer p) (body (rp_response p)) = (r, d, i, out)"
    by (metis prod_cases4)
  with assms have r: "r = Inr ChunkNeedMore" "p1 = decoded_into p d i out"
    using chunked_turn_decode [OF assms(1) c] by (auto split: if_splits sum.splits)
  obtain r2 d2 i2 out2 where d2: "decode d (i @ b) out = (r2, d2, i2, out2)" by (metis prod_cases4)
  then have "decode (rp_decoder p) (rp_buffer p @ b) (body (rp_response p)) = (r2, d2, i2, out2)"
    using decode_append_NeedMore c r by metis
  then have t: "decode (rp_decoder (push p b)) (rp_buffer (push p b)) (body (rp_response (push p b))) = (r2, d2, i2, out2)"
      "decode (rp_decoder (push p1 b)) (rp_buffer (push p1 b)) (body (rp_response (push p1 b))) = (r2, d2, i2, out2)"
    using d2 by (simp_all add: r)
  have "decoded_into (push p1 b) d2 x out2 = decoded_into (push p b) d2 x out2" for x
    by (simp add: r push_def)
  then show ?thesis
    using chunked_turn_decode [OF _ t(1)] chunked_turn_decode [OF _ t(2)] assms(1) r(2)
    by (auto simp: process_buffer.simps [of "push _ _"] parser_seen_def split: sum.split)
qed

lemma more_turn_push:
  assumes "process_turn p = Return (Inr ParseNeedMore) p1"
  shows "parser_seen (process_buffer (push p b)) = parser_seen (process_buffer (push p1 b))"
proof (cases "rp_stage p")
  case StageHead
  with assms have "p1 = p"
    by (auto simp: process_turn_def head_turn_def accept_head_def Let_def split: option.splits sum.splits if_splits)
  then show ?thesis by simp
next
  case ContentLengthBody
  with assms have l: "length (rp_buffer p) < length_remaining p"
    and p1: "p1 = p\<lparr>rp_response := add_body p (rp_buffer p), rp_buffer := [],
               length_remaining := length_remaining p - length (rp_buffer p)\<rparr>"
    by (auto simp: process_turn_def length_turn_def Let_def min_def split: if_splits)
  have "process_turn (push p b) = process_turn (push p1 b)"
    using l ContentLengthBody
    by (auto simp: process_turn_def length_turn_def Let_def p1 push_def min_def)
  then show ?thesis by (simp add: process_buffer.simps [of "push _ _"])
next
  case CloseDelimitedBody
  show ?thesis
  proof (cases "rp_buffer p = []")
    case True
    with assms CloseDelimitedBody have "p1 = p" by (auto simp: process_turn_def close_turn_def)
    then show ?thesis by simp
  next
    case False
    with assms CloseDelimitedBody have b: "\<not> body_forbidden p"
        "\<not> would_exceed (length (body (rp_response p))) (length (rp_buffer p)) (max_body_bytes (rp_limits p))"
        "p1 = p\<lparr>rp_response := add_body p (rp_buffer p), rp_buffer := []\<rparr>"
      by (auto simp: process_turn_def close_turn_def split: if_splits)
    let ?full = "p\<lparr>rp_response := add_body p (rp_buffer p @ b), rp_buffer := []\<rparr>"
    let ?over = "length (body (rp_response p)) + length (rp_buffer p) + length b > max_body_bytes (rp_limits p)"
    have "process_turn (push p b) =
        (if ?over then Return (fail ResponseLimitExceeded) (push p b) else Return (Inr ParseNeedMore) ?full)"
      using CloseDelimitedBody False b(1)
      by (auto simp: process_turn_def close_turn_def would_exceed_iff push_def add.assoc)
    moreover have "process_turn (push p1 b) =
        (if ?over then Return (fail ResponseLimitExceeded) (push p1 b) else Return (Inr ParseNeedMore) ?full)"
      using CloseDelimitedBody b(1,2)
      by (auto simp: process_turn_def close_turn_def would_exceed_iff push_def b(3))
    ultimately show ?thesis by (cases ?over) (simp_all add: process_Return parser_seen_def)
  qed
next
  case ChunkedBody
  then show ?thesis using chunked_more_push [OF _ assms] by blast
next
  case StageComplete
  with assms show ?thesis by (simp add: process_turn_def)
qed

lemma process_buffer_more:
  "process_buffer p = (Inr ParseNeedMore, p') \<Longrightarrow>
     parser_seen (process_buffer (push p b)) = parser_seen (process_buffer (push p' b))"
proof (induction p rule: process_buffer.induct)
  case (1 p)
  show ?case
  proof (cases "process_turn p")
    case (Return r p1)
    with "1.prems" show ?thesis by (simp add: process_Return more_turn_push)
  next
    case (Continue p1)
    then have "process_turn (push p b) = Continue (push p1 b)" using process_turn_push [of p b] by simp
    with Continue "1" show ?thesis by (simp add: process_Continue)
  qed
qed

lemma process_buffer_complete:
  "process_buffer p = (Inr ParseComplete, p') \<Longrightarrow> process_buffer (push p b) = (Inr ParseComplete, push p' b)"
proof (induction p rule: process_buffer.induct)
  case (1 p)
  show ?case
  proof (cases "process_turn p")
    case (Return r p1)
    with "1.prems" have "process_turn p = Return (Inr ParseComplete) p'" by (simp add: process_Return)
    then show ?thesis using process_turn_push [of p b] by (simp add: process_Return)
  next
    case (Continue p1)
    then have "process_turn (push p b) = Continue (push p1 b)" using process_turn_push [of p b] by simp
    with Continue "1" show ?thesis by (simp add: process_Continue)
  qed
qed

lemma push_push: "push (push p a) b = push p (a @ b)"
  by (simp add: push_def)

interpretation parser: incremental_final feed "\<lambda>r. r = Inr ParseNeedMore" parser_seen
  "\<lambda>r. r = Inr ParseComplete" push
proof unfold_locales
  fix s a r s' b
  assume "feed s a = (r, s')" "r = Inr ParseNeedMore"
  then show "parser_seen (feed s (a @ b)) = parser_seen (feed s' b)"
    using process_buffer_more [of "push s a" s' b] by (simp add: feed_push push_push)
next
  fix s a r s' b
  assume "feed s a = (r, s')" "r = Inr ParseComplete"
  then show "feed s (a @ b) = (r, push s' b)"
    using process_buffer_complete [of "push s a" s' b] by (simp add: feed_push push_push)
qed (auto simp: parser_seen_def split: prod.splits sum.splits)

end
