(* ===== verification/Response_Grammar.thy ===== *)
theory Response_Grammar
  imports Response_Stream
begin

text \<open>
  What a response is: \<open>response_text\<close> (delimited by itself) and \<open>close_text\<close> (delimited by the end of the
  connection) are the grammars of RFC 9112, section 6.3, with the program's limits.
  \<open>parser_accepts\<close> and \<open>parser_accepts_eof\<close> show that \<open>ResponseParser\<close> accepts exactly their texts.
\<close>

section \<open>Heads\<close>

definition head_of :: "response_limits \<Rightarrow> string \<Rightarrow> parsed_head \<Rightarrow> framing_info \<Rightarrow> bool"
where
  "head_of lim b h fr =
     (find_str crlfcrlf (b @ crlfcrlf) = Some (length b) \<and> length b + 4 \<le> max_head_bytes lim
      \<and> parse_head b = Inr h \<and> analyze_framing (ph_headers h) = Inr fr)"

text \<open>How the body of a final response is delimited: RFC 9112, section 6.3, as the client reads it.\<close>

datatype body_kind = NoBody | LengthBody nat | ChunkBody | CloseBody | BadFraming error_code

definition body_kind :: "http_method \<Rightarrow> response_limits \<Rightarrow> parsed_head \<Rightarrow> framing_info \<Rightarrow> body_kind"
where
  "body_kind m lim h fr =
     (if fr_te_fields fr \<noteq> 0 \<and> fr_length_count fr \<noteq> 0 then BadFraming ConflictingMessageFraming
      else if ph_status h \<in> {101, 204} \<and> (fr_length_count fr \<noteq> 0 \<or> fr_te_fields fr \<noteq> 0)
      then BadFraming MalformedResponse
      else if m = Head \<or> ph_status h \<in> {101, 204, 304} then NoBody
      else if fr_te_fields fr \<noteq> 0 then
        (if fr_te_tokens fr = 1 \<and> fr_te_is_chunked fr then ChunkBody else BadFraming MalformedResponse)
      else if fr_length_count fr = 1 then
        (if ph_status h = 205 \<and> fr_content_length fr \<noteq> 0 then BadFraming InvalidContentLength
         else if fr_content_length fr > max_body_bytes lim then BadFraming ResponseLimitExceeded
         else LengthBody (fr_content_length fr))
      else CloseBody)"

definition message_of :: "parsed_head \<Rightarrow> string \<Rightarrow> response"
where
  "message_of h d =
     \<lparr>status_code = ph_status h, reason = ph_reason h, rs_headers = ph_headers h, body = d\<rparr>"

definition closes :: "parsed_head \<Rightarrow> framing_info \<Rightarrow> bool"
  where "closes h fr = (fr_close_requested fr \<or> ph_status h = 101)"

definition body_text ::
  "http_method \<Rightarrow> response_limits \<Rightarrow> parsed_head \<Rightarrow> framing_info \<Rightarrow> string \<Rightarrow> string \<Rightarrow> bool"
where
  "body_text m lim h fr t d =
     (case body_kind m lim h fr of
        NoBody \<Rightarrow> t = [] \<and> d = []
      | LengthBody n \<Rightarrow> d = t \<and> length t = n
      | ChunkBody \<Rightarrow> chunked_text lim 0 t d \<and> (ph_status h = 205 \<longrightarrow> d = [])
      | _ \<Rightarrow> False)"

text \<open>A whole response: any number of interim responses, a final head, a self-delimited body.\<close>

inductive response_text :: "http_method \<Rightarrow> response_limits \<Rightarrow> string \<Rightarrow> response \<Rightarrow> bool \<Rightarrow> bool"
  for m lim
where
  interim: "head_of lim b h fr \<Longrightarrow> is_interim_status (ph_status h) \<Longrightarrow>
    fr_length_count fr = 0 \<Longrightarrow> fr_te_fields fr = 0 \<Longrightarrow> response_text m lim t r close \<Longrightarrow>
    response_text m lim (b @ crlfcrlf @ t) r close"
| final: "head_of lim b h fr \<Longrightarrow> \<not> is_interim_status (ph_status h) \<Longrightarrow> body_text m lim h fr t d \<Longrightarrow>
    response_text m lim (b @ crlfcrlf @ t) (message_of h d) (closes h fr)"

text \<open>A response that ends with the connection.\<close>

inductive close_text :: "http_method \<Rightarrow> response_limits \<Rightarrow> string \<Rightarrow> response \<Rightarrow> bool" for m lim
where
  interim: "head_of lim b h fr \<Longrightarrow> is_interim_status (ph_status h) \<Longrightarrow>
    fr_length_count fr = 0 \<Longrightarrow> fr_te_fields fr = 0 \<Longrightarrow> close_text m lim t r \<Longrightarrow>
    close_text m lim (b @ crlfcrlf @ t) r"
| final: "head_of lim b h fr \<Longrightarrow> \<not> is_interim_status (ph_status h) \<Longrightarrow>
    body_kind m lim h fr = CloseBody \<Longrightarrow> length d \<le> max_body_bytes lim \<Longrightarrow>
    (ph_status h = 205 \<longrightarrow> d = []) \<Longrightarrow>
    close_text m lim (b @ crlfcrlf @ d) (message_of h d)"

section \<open>The parser on a whole text\<close>

definition start :: "http_method \<Rightarrow> response_limits \<Rightarrow> string \<Rightarrow> response_parser"
  where "start m lim s = (mk_parser m lim)\<lparr>rp_buffer := s\<rparr>"

lemma start_sel [simp]:
  "rp_buffer (start m lim s) = s" "rp_stage (start m lim s) = StageHead" "rp_limits (start m lim s) = lim"
  "request_method (start m lim s) = m" "(start m lim s)\<lparr>rp_buffer := t\<rparr> = start m lim t"
  by (simp_all add: start_def mk_parser_def)

lemma feed_start: "feed (mk_parser m lim) s = process_buffer (start m lim s)"
  by (simp add: feed_push push_def start_def mk_parser_def)

lemma head_text_cut:
  assumes "find_str crlfcrlf s = Some e"
  shows "s = take e s @ crlfcrlf @ drop (e + 4) s \<and> find_str crlfcrlf (take e s @ crlfcrlf) = Some e"
proof
  show s: "s = take e s @ crlfcrlf @ drop (e + 4) s"
    using find_str_Some [OF assms] by (simp add: numeral_eq_Suc)
  have "find_str crlfcrlf (take (e + 4) s) = Some e"
    using assms
  proof (induction s arbitrary: e)
    case (Cons c cs)
    show ?case
    proof (cases "take 4 (c # cs) = crlfcrlf")
      case True
      with Cons.prems have "e = 0" by (simp add: numeral_eq_Suc)
      then have "take (e + 4) (c # cs) = crlfcrlf" using True by simp
      with \<open>e = 0\<close> show ?thesis by (simp add: numeral_eq_Suc)
    next
      case False
      with Cons.prems obtain j where j: "find_str crlfcrlf cs = Some j" "e = Suc j"
        by (auto simp: numeral_eq_Suc)
      from False have "take 4 (c # take (j + 4) cs) \<noteq> crlfcrlf" by (simp add: numeral_eq_Suc)
      with Cons.IH [OF j(1)] j(2) show ?thesis by (simp add: numeral_eq_Suc)
    qed
  qed simp
  moreover have "take (e + 4) s = take e s @ crlfcrlf"
  proof -
    have "e \<le> length s" using find_str_Some_le [OF assms] by simp
    then have "take (e + 4) (take e s @ crlfcrlf @ drop (e + 4) s) = take e s @ crlfcrlf"
      by (simp add: numeral_eq_Suc)
    with s show ?thesis by metis
  qed
  ultimately show "find_str crlfcrlf (take e s @ crlfcrlf) = Some e" by simp
qed

lemma start_turn:
  assumes "head_of lim b h fr"
  shows "process_turn (start m lim (b @ crlfcrlf @ t)) = accept_head (start m lim t) h fr"
proof -
  have "find_str crlfcrlf (b @ crlfcrlf @ t) = Some (length b)"
    using assms find_str_append_hit [of crlfcrlf "b @ crlfcrlf" "length b" t] by (simp add: head_of_def)
  then show ?thesis
    using assms by (simp add: process_turn_def head_turn_def head_of_def would_exceed_iff Let_def)
qed

lemma start_turn_cut:
  assumes "\<not> turn_more (process_turn (start m lim s))" and "\<not> turn_error (process_turn (start m lim s))"
  obtains b h fr t where "s = b @ crlfcrlf @ t" "head_of lim b h fr"
proof -
  from assms obtain e where e: "find_str crlfcrlf s = Some e"
    by (cases "find_str crlfcrlf s") (auto simp: process_turn_def head_turn_def split: if_splits)
  with assms obtain h fr where "parse_head (take e s) = Inr h" "analyze_framing (ph_headers h) = Inr fr"
      "e + 4 \<le> max_head_bytes lim"
    by (auto simp: process_turn_def head_turn_def would_exceed_iff Let_def split: if_splits sum.splits)
  with head_text_cut [OF e] find_str_Some_le [OF e] have "head_of lim (take e s) h fr"
    by (simp add: head_of_def)
  with head_text_cut [OF e] that show ?thesis by blast
qed

text \<open>The parser behind a final head.\<close>

definition begun :: "http_method \<Rightarrow> response_limits \<Rightarrow> parsed_head \<Rightarrow> framing_info \<Rightarrow> string \<Rightarrow> response_parser"
where
  "begun m lim h fr t =
     (start m lim t)\<lparr>rp_response := message_of h [], close_requested := closes h fr\<rparr>"

lemma accept_head_final:
  assumes "\<not> is_interim_status (ph_status h)"
  shows "accept_head (start m lim t) h fr =
     (let p = begun m lim h fr t; q = (if ph_status h = 205 then p\<lparr>body_forbidden := True\<rparr> else p) in
      case body_kind m lim h fr of
        NoBody \<Rightarrow> Return (Inr ParseComplete) (p\<lparr>rp_stage := StageComplete\<rparr>)
      | LengthBody n \<Rightarrow>
          (if n = 0 then Return (Inr ParseComplete) (q\<lparr>rp_stage := StageComplete\<rparr>)
           else Continue (q\<lparr>length_remaining := n, rp_stage := ContentLengthBody\<rparr>))
      | ChunkBody \<Rightarrow> Continue (q\<lparr>rp_stage := ChunkedBody\<rparr>)
      | CloseBody \<Rightarrow> Continue (q\<lparr>close_delimited := True, rp_stage := CloseDelimitedBody\<rparr>)
      | BadFraming c \<Rightarrow>
          Return (fail c) (if ph_status h = 205 \<and> c \<noteq> ConflictingMessageFraming then q else p))"
  using assms
  by (simp add: accept_head_def body_kind_def begun_def message_of_def closes_def Let_def start_def mk_parser_def
      empty_response_def framing_header_forbidden_on_status_def is_header_terminated_response_def)

section \<open>Bodies\<close>

lemma begun_sel [simp]:
  "rp_buffer (begun m lim h fr t) = t" "rp_response (begun m lim h fr t) = message_of h []"
  "rp_limits (begun m lim h fr t) = lim" "rp_decoder (begun m lim h fr t) = mk_decoder lim"
  "close_requested (begun m lim h fr t) = closes h fr" "close_delimited (begun m lim h fr t) = False"
  "body_forbidden (begun m lim h fr t) = False"
  by (simp_all add: begun_def start_def mk_parser_def)

lemma message_body [simp]:
  "body (message_of h d) = d" "(message_of h d)\<lparr>body := e\<rparr> = message_of h e"
  by (simp_all add: message_of_def)

text \<open>What an accepting run leaves behind.\<close>

definition done_with :: "response_parser \<Rightarrow> response \<Rightarrow> bool \<Rightarrow> string \<Rightarrow> bool"
where
  "done_with p r close rest =
     (rp_response p = r \<and> pending_bytes p = rest \<and> complete p
      \<and> close_requested p = close \<and> \<not> close_delimited p)"

definition runs_to ::
  "parse_result \<Rightarrow> (response \<Rightarrow> string \<Rightarrow> bool) \<Rightarrow> bool \<Rightarrow> bool"
where
  "runs_to res acc close =
     (\<forall>r rest. (\<exists>p. res = (Inr ParseComplete, p) \<and> done_with p r close rest) \<longleftrightarrow> acc r rest)"

lemma length_body_run:
  assumes "n \<noteq> 0" and "q = begun m lim h fr s \<or> q = (begun m lim h fr s)\<lparr>body_forbidden := True\<rparr>"
  shows "fst (process_buffer (q\<lparr>length_remaining := n, rp_stage := ContentLengthBody\<rparr>)) = Inr ParseComplete
      \<longleftrightarrow> n \<le> length s"
    and "n \<le> length s \<Longrightarrow> done_with (snd (process_buffer (q\<lparr>length_remaining := n, rp_stage := ContentLengthBody\<rparr>)))
      (message_of h (take n s)) (closes h fr) (drop n s)"
  using assms
  by (auto simp: process_buffer.simps [of "q\<lparr>length_remaining := n, rp_stage := ContentLengthBody\<rparr>" for q]
      process_turn_def length_turn_def Let_def min_def done_with_def pending_bytes_def complete_def)

lemma chunked_body_run:
  assumes "q = (if ph_status h = 205 then (begun m lim h fr s)\<lparr>body_forbidden := True\<rparr> else begun m lim h fr s)"
  shows "(\<exists>p. process_buffer (q\<lparr>rp_stage := ChunkedBody\<rparr>) = (Inr ParseComplete, p)
      \<and> done_with p r (closes h fr) rest)
    \<longleftrightarrow> (\<exists>t d. s = t @ rest \<and> chunked_text lim 0 t d \<and> (ph_status h = 205 \<longrightarrow> d = []) \<and> r = message_of h d)"
proof -
  let ?q = "q\<lparr>rp_stage := ChunkedBody\<rparr>"
  have q: "rp_stage ?q = ChunkedBody" "rp_decoder ?q = mk_decoder lim" "rp_buffer ?q = s" "body (rp_response ?q) = []"
      "rp_response ?q = message_of h []" "close_requested q = closes h fr" "\<not> close_delimited q"
      "body_forbidden ?q = (ph_status h = 205)"
    using assms by simp_all
  obtain r0 d0 i0 out0 where dec: "decode (mk_decoder lim) s [] = (r0, d0, i0, out0)" by (metis prod_cases4)
  have acc: "(\<exists>d'. decode (mk_decoder lim) s [] = (Inr ChunkComplete, d', rest, out'))
      \<longleftrightarrow> (\<exists>t. s = t @ rest \<and> chunked_text lim 0 t out')" for out'
    using chunked_process_accepts [of lim s "[]" rest out'] by (simp add: chunked_process_Inr)
  from chunked_turn_decode [OF q(1), unfolded q(2-4), OF dec]
  have "(\<exists>p. process_buffer ?q = (Inr ParseComplete, p) \<and> done_with p r (closes h fr) rest)
      \<longleftrightarrow> r0 = Inr ChunkComplete \<and> i0 = rest \<and> (ph_status h = 205 \<longrightarrow> out0 = []) \<and> r = message_of h out0"
    unfolding process_buffer.simps [of ?q]
    by (cases r0; cases "projr r0") (auto simp: done_with_def pending_bytes_def complete_def q)
  also have "\<dots> \<longleftrightarrow> (\<exists>t d. s = t @ rest \<and> chunked_text lim 0 t d \<and> (ph_status h = 205 \<longrightarrow> d = []) \<and> r = message_of h d)"
  proof -
    have "(r0 = Inr ChunkComplete \<and> i0 = rest \<and> out0 = d) \<longleftrightarrow> (\<exists>t. s = t @ rest \<and> chunked_text lim 0 t d)" for d
      using acc [of d] by (simp add: dec)
    then show ?thesis by metis
  qed
  finally show ?thesis .
qed

lemma close_body_run:
  assumes "rp_stage p = CloseDelimitedBody"
  shows "fst (process_buffer p) \<noteq> Inr ParseComplete"
  using assms by (auto simp: process_buffer.simps [of p] process_turn_def close_turn_def)

lemma body_text_run:
  assumes "\<not> is_interim_status (ph_status h)"
  shows "(\<exists>p. (case accept_head (start m lim s) h fr of Return r p \<Rightarrow> (r, p) | Continue p \<Rightarrow> process_buffer p)
        = (Inr ParseComplete, p) \<and> done_with p r (closes h fr) rest)
    \<longleftrightarrow> (\<exists>t d. s = t @ rest \<and> body_text m lim h fr t d \<and> r = message_of h d)"
proof (cases "body_kind m lim h fr")
  case NoBody
  then show ?thesis
    by (auto simp: accept_head_final [OF assms] Let_def body_text_def done_with_def pending_bytes_def complete_def)
next
  case (LengthBody n)
  define q where "q = (if ph_status h = 205 then (begun m lim h fr s)\<lparr>body_forbidden := True\<rparr> else begun m lim h fr s)"
  have q: "q = begun m lim h fr s \<or> q = (begun m lim h fr s)\<lparr>body_forbidden := True\<rparr>" by (simp add: q_def)
  show ?thesis
  proof (cases "n = 0")
    case True
    with LengthBody show ?thesis
      by (auto simp: accept_head_final [OF assms] Let_def body_text_def done_with_def pending_bytes_def complete_def)
  next
    case False
    note run = length_body_run [OF False q]
    have "(\<exists>p. process_buffer (q\<lparr>length_remaining := n, rp_stage := ContentLengthBody\<rparr>) = (Inr ParseComplete, p)
          \<and> done_with p r (closes h fr) rest)
        \<longleftrightarrow> n \<le> length s \<and> r = message_of h (take n s) \<and> rest = drop n s"
      using run by (cases "process_buffer (q\<lparr>length_remaining := n, rp_stage := ContentLengthBody\<rparr>)")
        (auto simp: done_with_def)
    also have "\<dots> \<longleftrightarrow> (\<exists>t d. s = t @ rest \<and> body_text m lim h fr t d \<and> r = message_of h d)"
      using LengthBody append_take_drop_id [of n s] by (auto simp: body_text_def intro: exI [of _ "take n s"])
    finally show ?thesis using False LengthBody
      unfolding accept_head_final [OF assms] Let_def q_def by simp
  qed
next
  case ChunkBody
  with chunked_body_run [OF refl, of h m lim fr s r rest] show ?thesis
    unfolding accept_head_final [OF assms] Let_def by (simp add: body_text_def)
next
  case CloseBody
  then obtain p0 where p0: "accept_head (start m lim s) h fr = Continue p0" "rp_stage p0 = CloseDelimitedBody"
    by (simp add: accept_head_final [OF assms] Let_def)
  from close_body_run [OF p0(2)] have "process_buffer p0 \<noteq> (Inr ParseComplete, p)" for p by auto
  with p0(1) CloseBody show ?thesis by (simp add: body_text_def)
next
  case (BadFraming c)
  then show ?thesis
    unfolding accept_head_final [OF assms] Let_def by (simp add: body_text_def)
qed

text \<open>The grammar is what the parser accepts.\<close>

lemma accept_head_interim:
  assumes "is_interim_status (ph_status h)"
  shows "accept_head p h fr =
    (if fr_length_count fr \<noteq> 0 \<or> fr_te_fields fr \<noteq> 0 then Return (fail MalformedResponse) p else Continue p)"
  using assms by (simp add: accept_head_def)

lemma process_start:
  assumes "head_of lim b h fr"
  shows "process_buffer (start m lim (b @ crlfcrlf @ t)) =
    (case accept_head (start m lim t) h fr of Return r p \<Rightarrow> (r, p) | Continue p \<Rightarrow> process_buffer p)"
  by (subst process_buffer.simps) (simp only: start_turn [OF assms])

lemma process_start_complete:
  assumes "process_buffer (start m lim s) = (Inr ParseComplete, p)"
  obtains b h fr t where "s = b @ crlfcrlf @ t" "head_of lim b h fr"
proof (rule start_turn_cut [of m lim s])
  show "\<not> turn_more (process_turn (start m lim s))" "\<not> turn_error (process_turn (start m lim s))"
    using assms by (cases "process_turn (start m lim s)"; auto simp: process_Return)+
qed (rule that)

lemma process_body_flags:
  assumes "rp_stage p \<noteq> StageHead" and "process_buffer p = (r, p')"
  shows "close_requested p' = close_requested p \<and> close_delimited p' = close_delimited p
    \<and> (r = Inr ParseComplete \<longrightarrow> complete p')"
  using assms
  by (auto simp: process_buffer.simps [of p] process_turn_def length_turn_def close_turn_def chunked_turn_def
      Let_def complete_def split: parse_stage.splits if_splits prod.splits sum.splits)

lemma final_flags:
  assumes "\<not> is_interim_status (ph_status h)"
    and "(case accept_head (start m lim t) h fr of Return r p \<Rightarrow> (r, p) | Continue p \<Rightarrow> process_buffer p)
      = (Inr ParseComplete, p)"
  shows "close_requested p = closes h fr \<and> \<not> close_delimited p \<and> complete p"
proof (cases "body_kind m lim h fr")
  case CloseBody
  then obtain p0 where p0: "accept_head (start m lim t) h fr = Continue p0" "rp_stage p0 = CloseDelimitedBody"
    by (simp add: accept_head_final [OF assms(1)] Let_def)
  with close_body_run [OF p0(2)] assms(2) show ?thesis by auto
next
  case (LengthBody n)
  show ?thesis
  proof (cases "n = 0")
    case True
    with LengthBody assms(2) show ?thesis
      by (auto simp: accept_head_final [OF assms(1)] Let_def complete_def split: if_splits)
  next
    case False
    with LengthBody obtain p0 where "accept_head (start m lim t) h fr = Continue p0" "rp_stage p0 \<noteq> StageHead"
        "close_requested p0 = closes h fr" "\<not> close_delimited p0"
      by (cases "ph_status h = 205") (simp_all add: accept_head_final [OF assms(1)] Let_def)
    with assms(2) process_body_flags [of p0] show ?thesis by simp
  qed
next
  case ChunkBody
  then obtain p0 where "accept_head (start m lim t) h fr = Continue p0" "rp_stage p0 \<noteq> StageHead"
      "close_requested p0 = closes h fr" "\<not> close_delimited p0"
    by (cases "ph_status h = 205") (simp_all add: accept_head_final [OF assms(1)] Let_def)
  with assms(2) process_body_flags [of p0] show ?thesis by simp
qed (use assms in \<open>auto simp: accept_head_final [OF assms(1)] Let_def complete_def\<close>)

lemma response_text_sound:
  "process_buffer (start m lim s) = (Inr ParseComplete, p) \<Longrightarrow>
     \<exists>t r close rest. s = t @ rest \<and> response_text m lim t r close \<and> done_with p r close rest"
proof (induction "length s" arbitrary: s rule: less_induct)
  case less
  from less.prems obtain b h fr t where s: "s = b @ crlfcrlf @ t" and hd: "head_of lim b h fr"
    by (rule process_start_complete)
  show ?case
  proof (cases "is_interim_status (ph_status h)")
    case True
    with less.prems have c: "fr_length_count fr = 0" "fr_te_fields fr = 0"
        "process_buffer (start m lim t) = (Inr ParseComplete, p)"
      unfolding s process_start [OF hd] accept_head_interim [OF True] by (auto split: if_splits)
    have "length t < length s" by (simp add: s)
    from less.hyps [OF this c(3)] obtain t' r close rest where t':
        "t = t' @ rest" "response_text m lim t' r close" "done_with p r close rest" by blast
    then have "s = (b @ crlfcrlf @ t') @ rest" by (simp add: s)
    with t' response_text.interim [OF hd True c(1,2) t'(2)] show ?thesis by blast
  next
    case False
    have rs: "close_requested p = closes h fr" "\<not> close_delimited p" "complete p"
      using less.prems final_flags [OF False, of m lim t fr p] unfolding s process_start [OF hd] by blast+
    then have "done_with p (rp_response p) (closes h fr) (pending_bytes p)" by (simp add: done_with_def)
    then have "\<exists>q. (case accept_head (start m lim t) h fr of Return r p \<Rightarrow> (r, p) | Continue p \<Rightarrow> process_buffer p)
        = (Inr ParseComplete, q) \<and> done_with q (rp_response p) (closes h fr) (pending_bytes p)"
      using less.prems unfolding s process_start [OF hd] by blast
    then obtain t' d where t': "t = t' @ pending_bytes p" "body_text m lim h fr t' d" "rp_response p = message_of h d"
      unfolding body_text_run [OF False] by blast
    then have "s = (b @ crlfcrlf @ t') @ pending_bytes p" by (simp add: s)
    with response_text.final [OF hd False t'(2)] rs t'(3) show ?thesis
      unfolding done_with_def by blast
  qed
qed

lemma response_text_complete:
  "response_text m lim t r close \<Longrightarrow>
     \<exists>p. process_buffer (start m lim (t @ rest)) = (Inr ParseComplete, p) \<and> done_with p r close rest"
proof (induction rule: response_text.induct)
  case (interim b h fr t r close)
  then show ?case
    by (simp add: process_start [OF interim.hyps(1), of m "t @ rest", simplified] accept_head_interim)
next
  case (final b h fr t d)
  then have "\<exists>t' d'. t @ rest = t' @ rest \<and> body_text m lim h fr t' d' \<and> message_of h d = message_of h d'" by blast
  then show ?case
    unfolding body_text_run [OF final.hyps(2), symmetric]
    by (simp add: process_start [OF final.hyps(1), of m "t @ rest", simplified])
qed

theorem parser_accepts:
  "(\<exists>p. feed (mk_parser m lim) s = (Inr ParseComplete, p) \<and> done_with p r close rest) \<longleftrightarrow>
     (\<exists>t. s = t @ rest \<and> response_text m lim t r close)"
proof
  assume "\<exists>p. feed (mk_parser m lim) s = (Inr ParseComplete, p) \<and> done_with p r close rest"
  then obtain p where p: "process_buffer (start m lim s) = (Inr ParseComplete, p)" "done_with p r close rest"
    by (auto simp: feed_start)
  from response_text_sound [OF p(1)] p(2) show "\<exists>t. s = t @ rest \<and> response_text m lim t r close"
    by (auto simp: done_with_def)
next
  assume "\<exists>t. s = t @ rest \<and> response_text m lim t r close"
  then show "\<exists>p. feed (mk_parser m lim) s = (Inr ParseComplete, p) \<and> done_with p r close rest"
    using response_text_complete by (auto simp: feed_start)
qed

text \<open>Bodies that end with the connection.\<close>

lemma close_body_eof:
  assumes "q = begun m lim h fr s \<or> q = (begun m lim h fr s)\<lparr>body_forbidden := True\<rparr>"
    and "body_forbidden q = (ph_status h = 205)"
  shows "(\<exists>p1 p2. process_buffer (q\<lparr>close_delimited := True, rp_stage := CloseDelimitedBody\<rparr>) = (Inr ParseNeedMore, p1)
      \<and> finish_eof p1 = (Inr ParseComplete, p2) \<and> rp_response p2 = r \<and> close_delimited p2)
    \<longleftrightarrow> length s \<le> max_body_bytes lim \<and> (ph_status h = 205 \<longrightarrow> s = []) \<and> r = message_of h s"
  using assms
  by (auto simp: process_buffer.simps [of "q\<lparr>close_delimited := True, rp_stage := CloseDelimitedBody\<rparr>" for q]
      process_turn_def close_turn_def would_exceed_iff finish_eof_def Let_def)

definition eof_run :: "parse_result \<Rightarrow> response \<Rightarrow> bool"
where
  "eof_run res r =
     (\<exists>p1 p2. res = (Inr ParseNeedMore, p1) \<and> finish_eof p1 = (Inr ParseComplete, p2) \<and> rp_response p2 = r
        \<and> close_delimited p2)"

lemma more_stage:
  "rp_stage p \<in> {ContentLengthBody, ChunkedBody} \<Longrightarrow> process_buffer p = (Inr ParseNeedMore, p1) \<Longrightarrow>
     rp_stage p1 = rp_stage p"
  by (auto simp: process_buffer.simps [of p] process_turn_def length_turn_def chunked_turn_def Let_def
      split: if_splits prod.splits sum.splits)

lemma eof_stage: "eof_run (process_buffer p) r \<Longrightarrow> rp_stage p \<notin> {ContentLengthBody, ChunkedBody}"
proof
  assume "eof_run (process_buffer p) r" and st: "rp_stage p \<in> {ContentLengthBody, ChunkedBody}"
  then obtain p1 p2 where p1: "process_buffer p = (Inr ParseNeedMore, p1)" "finish_eof p1 = (Inr ParseComplete, p2)"
    by (auto simp: eof_run_def)
  from more_stage [OF st p1(1)] st have "rp_stage p1 \<in> {ContentLengthBody, ChunkedBody}" by simp
  with p1(2) show False by (auto simp: finish_eof_def)
qed

lemma final_eof:
  assumes "\<not> is_interim_status (ph_status h)"
  shows "eof_run (case accept_head (start m lim s) h fr of Return r p \<Rightarrow> (r, p) | Continue p \<Rightarrow> process_buffer p) r
    \<longleftrightarrow> body_kind m lim h fr = CloseBody \<and> length s \<le> max_body_bytes lim \<and> (ph_status h = 205 \<longrightarrow> s = [])
      \<and> r = message_of h s"
proof (cases "body_kind m lim h fr")
  case CloseBody
  define q where "q = (if ph_status h = 205 then (begun m lim h fr s)\<lparr>body_forbidden := True\<rparr> else begun m lim h fr s)"
  have q: "q = begun m lim h fr s \<or> q = (begun m lim h fr s)\<lparr>body_forbidden := True\<rparr>"
      "body_forbidden q = (ph_status h = 205)" by (simp_all add: q_def)
  have "accept_head (start m lim s) h fr = Continue (q\<lparr>close_delimited := True, rp_stage := CloseDelimitedBody\<rparr>)"
    by (simp add: accept_head_final [OF assms] Let_def CloseBody q_def)
  then show ?thesis using close_body_eof [OF q, of r] CloseBody by (simp add: eof_run_def)
next
  case (LengthBody n)
  show ?thesis
  proof (cases "n = 0")
    case False
    with LengthBody obtain p0 where "accept_head (start m lim s) h fr = Continue p0" "rp_stage p0 = ContentLengthBody"
      by (cases "ph_status h = 205") (simp_all add: accept_head_final [OF assms] Let_def)
    with eof_stage [of p0 r] LengthBody show ?thesis by auto
  qed (use LengthBody in \<open>simp add: accept_head_final [OF assms] Let_def eof_run_def\<close>)
next
  case ChunkBody
  then obtain p0 where "accept_head (start m lim s) h fr = Continue p0" "rp_stage p0 = ChunkedBody"
    by (cases "ph_status h = 205") (simp_all add: accept_head_final [OF assms] Let_def)
  with eof_stage [of p0 r] ChunkBody show ?thesis by auto
qed (simp_all add: accept_head_final [OF assms] Let_def eof_run_def)

lemma head_more: "rp_stage p = StageHead \<Longrightarrow> process_turn p = Return (Inr ParseNeedMore) p1 \<Longrightarrow> p1 = p"
  by (auto simp: process_turn_def head_turn_def accept_head_def Let_def
      split: option.splits sum.splits if_splits)

lemma turn_moreD: "turn_more x \<Longrightarrow> \<exists>p. x = Return (Inr ParseNeedMore) p"
  by (cases x rule: turn_more.cases) auto

lemma turn_errorD: "turn_error x \<Longrightarrow> \<exists>e p. x = Return (Inl e) p"
  by (cases x rule: turn_error.cases) auto

lemma eof_run_cut:
  assumes "eof_run (process_buffer (start m lim s)) r"
  obtains b h fr t where "s = b @ crlfcrlf @ t" "head_of lim b h fr"
proof (rule start_turn_cut [of m lim s])
  have "p1 = start m lim s" if "process_turn (start m lim s) = Return (Inr ParseNeedMore) p1" for p1
    using head_more [OF _ that] by simp
  moreover have "finish_eof (start m lim s) = (fail UnexpectedEof, start m lim s)"
    by (simp add: finish_eof_def)
  ultimately have "process_turn (start m lim s) \<noteq> Return (Inr ParseNeedMore) p1" for p1
    using assms process_Return [of "start m lim s"] by (auto simp: eof_run_def)
  then show "\<not> turn_more (process_turn (start m lim s))"
    using turn_moreD by metis
  have "process_turn (start m lim s) \<noteq> Return (Inl e) p1" for e p1
    using assms process_Return [of "start m lim s"] by (auto simp: eof_run_def)
  then show "\<not> turn_error (process_turn (start m lim s))"
    using turn_errorD by metis
qed (rule that)

lemma close_text_sound:
  "eof_run (process_buffer (start m lim s)) r \<Longrightarrow> close_text m lim s r"
proof (induction "length s" arbitrary: s rule: less_induct)
  case less
  from less.prems obtain b h fr t where s: "s = b @ crlfcrlf @ t" and hd: "head_of lim b h fr"
    by (rule eof_run_cut)
  show ?case
  proof (cases "is_interim_status (ph_status h)")
    case True
    with less.prems have c: "fr_length_count fr = 0" "fr_te_fields fr = 0" "eof_run (process_buffer (start m lim t)) r"
      unfolding s process_start [OF hd] accept_head_interim [OF True] by (auto simp: eof_run_def split: if_splits)
    have "length t < length s" by (simp add: s)
    from less.hyps [OF this c(3)] show ?thesis unfolding s by (rule close_text.interim [OF hd True c(1,2)])
  next
    case False
    from less.prems show ?thesis
      unfolding s process_start [OF hd] final_eof [OF False] using close_text.final [OF hd False] by blast
  qed
qed

lemma close_text_complete: "close_text m lim s r \<Longrightarrow> eof_run (process_buffer (start m lim s)) r"
proof (induction rule: close_text.induct)
  case (interim b h fr t r)
  then show ?case
    by (simp add: process_start [OF interim.hyps(1), simplified] accept_head_interim)
next
  case (final b h fr d)
  then have "eof_run (case accept_head (start m lim d) h fr of Return r p \<Rightarrow> (r, p) | Continue p \<Rightarrow> process_buffer p)
      (message_of h d)"
    unfolding final_eof [OF final.hyps(2)] by blast
  then show ?case by (simp add: process_start [OF final.hyps(1), simplified])
qed

theorem parser_accepts_eof: "eof_run (feed (mk_parser m lim) s) r \<longleftrightarrow> close_text m lim s r"
  using close_text_sound close_text_complete by (auto simp: feed_start)

end
