(* ===== verification/Response_Properties.thy ===== *)
theory Response_Properties
  imports Response_Grammar
begin

text \<open>
  The invariant of the response parser and the properties of reading a response: exactness, reads at
  any boundary, memory bounds, refusal of contradictory framing and safe reuse of the connection.
\<close>

section \<open>Budgets\<close>

text \<open>
  The invariant of the parser: the body, with what is announced of it, fits the body limit, and a
  body without a length is marked as such.
\<close>

definition parser_inv :: "response_parser \<Rightarrow> bool"
where
  "parser_inv p =
     (cd_limits (rp_decoder p) = rp_limits p
      \<and> (case rp_stage p of
           StageHead \<Rightarrow> body (rp_response p) = [] \<and> rp_decoder p = mk_decoder (rp_limits p)
         | ContentLengthBody \<Rightarrow>
             length (body (rp_response p)) + length_remaining p \<le> max_body_bytes (rp_limits p)
         | ChunkedBody \<Rightarrow> in_budget (rp_decoder p) (body (rp_response p))
         | CloseDelimitedBody \<Rightarrow>
             close_delimited p \<and> length (body (rp_response p)) \<le> max_body_bytes (rp_limits p)
         | StageComplete \<Rightarrow> length (body (rp_response p)) \<le> max_body_bytes (rp_limits p)))"

lemma parser_inv_buffer [simp]:
  "parser_inv (p\<lparr>rp_buffer := x\<rparr>) = parser_inv p" "parser_inv (push p b) = parser_inv p"
  by (simp_all add: parser_inv_def push_def cong: parse_stage.case_cong)

definition parser_pending_bound :: "response_limits \<Rightarrow> nat"
  where "parser_pending_bound lim = max (max_head_bytes lim) (pending_bound lim)"

lemma accept_head_budget:
  assumes "rp_stage p = StageHead" and "parser_inv p"
  shows "accept_head p h fr = Continue p' \<Longrightarrow> parser_inv p' \<and> rp_limits p' = rp_limits p"
    and "accept_head p h fr = Return r p' \<Longrightarrow> parser_inv p' \<and> rp_limits p' = rp_limits p
      \<and> r \<noteq> Inr ParseNeedMore"
  using assms
  by (auto simp: accept_head_def parser_inv_def in_budget_def mk_decoder_def Let_def split: if_splits)

lemma process_turn_budget:
  assumes "parser_inv p"
  shows "(case process_turn p of
      Continue p' \<Rightarrow> parser_inv p' \<and> rp_limits p' = rp_limits p
    | Return r p' \<Rightarrow> parser_inv p' \<and> rp_limits p' = rp_limits p
        \<and> (r = Inr ParseNeedMore \<longrightarrow> length (rp_buffer p') \<le> parser_pending_bound (rp_limits p) \<and> \<not> complete p'))"
proof (cases "rp_stage p")
  case StageHead
  show ?thesis
  proof (cases "find_str crlfcrlf (rp_buffer p)")
    case None
    with StageHead assms show ?thesis
      by (auto simp: process_turn_def head_turn_def parser_pending_bound_def complete_def)
  next
    case (Some e)
    define q where "q = p\<lparr>rp_buffer := drop (e + 4) (rp_buffer p)\<rparr>"
    have q: "rp_stage q = StageHead" "parser_inv q" "rp_limits q = rp_limits p"
      using StageHead assms by (simp_all add: q_def)
    have "(\<exists>err. process_turn p = Return (Inl err) p) \<or> (\<exists>err. process_turn p = Return (Inl err) q)
        \<or> (\<exists>h fr. process_turn p = accept_head q h fr)"
      using StageHead Some by (simp add: process_turn_def head_turn_def q_def Let_def split: sum.split) blast
    then show ?thesis
    proof (elim disjE exE)
      fix h fr
      assume "process_turn p = accept_head q h fr"
      with accept_head_budget [OF q(1,2)] q(3) show ?thesis by (auto split: turn.split)
    qed (use assms q in simp_all)
  qed
next
  case ContentLengthBody
  with assms show ?thesis
    by (auto simp: process_turn_def length_turn_def parser_inv_def complete_def Let_def min_def)
next
  case CloseDelimitedBody
  with assms show ?thesis
    by (auto simp: process_turn_def close_turn_def parser_inv_def complete_def would_exceed_iff)
next
  case ChunkedBody
  obtain r d i out where c: "decode (rp_decoder p) (rp_buffer p) (body (rp_response p)) = (r, d, i, out)"
    by (metis prod_cases4)
  from assms ChunkedBody have b: "in_budget (rp_decoder p) (body (rp_response p))"
      "cd_limits (rp_decoder p) = rp_limits p" by (simp_all add: parser_inv_def)
  from decode_budget [OF c b(1)] b(2) have d: "in_budget d out" "cd_limits d = rp_limits p" by simp_all
  then have "length out \<le> max_body_bytes (rp_limits p)" by (auto simp: in_budget_def split: if_splits)
  moreover have "r = Inr ChunkNeedMore \<Longrightarrow> length i \<le> pending_bound (rp_limits p)"
    using decode_pending c b(2) by metis
  ultimately show ?thesis
    using d ChunkedBody unfolding chunked_turn_decode [OF ChunkedBody c]
    by (auto simp: parser_inv_def parser_pending_bound_def complete_def split: sum.split)
next
  case StageComplete
  with assms show ?thesis by (simp add: process_turn_def)
qed

lemma process_buffer_budget:
  "process_buffer p = (r, p') \<Longrightarrow> parser_inv p \<Longrightarrow>
     parser_inv p' \<and> rp_limits p' = rp_limits p
     \<and> (r = Inr ParseNeedMore \<longrightarrow> length (rp_buffer p') \<le> parser_pending_bound (rp_limits p) \<and> \<not> complete p')"
proof (induction p rule: process_buffer.induct)
  case (1 p)
  show ?case
  proof (cases "process_turn p")
    case (Return r1 p1)
    with process_turn_budget [OF "1.prems"(2)] "1.prems"(1) show ?thesis by (simp add: process_Return)
  next
    case (Continue p1)
    with process_turn_budget [OF "1.prems"(2)] "1" show ?thesis by (simp add: process_Continue)
  qed
qed

lemma feed_budget:
  assumes "feed p b = (r, p')" and "parser_inv p"
  shows "parser_inv p' \<and> rp_limits p' = rp_limits p
    \<and> (r = Inr ParseNeedMore \<longrightarrow> length (rp_buffer p') \<le> parser_pending_bound (rp_limits p) \<and> \<not> complete p')"
proof -
  from process_buffer_budget [of "push p b" r p'] assms show ?thesis by (simp add: feed_push)
qed

lemma feed_all_parser_budget:
  "feed_all feed (\<lambda>r. r = Inr ParseNeedMore) p xs = (r, p') \<Longrightarrow> parser_inv p \<Longrightarrow>
     parser_inv p' \<and> rp_limits p' = rp_limits p
     \<and> (r = Inr ParseNeedMore \<longrightarrow> length (rp_buffer p') \<le> parser_pending_bound (rp_limits p) \<and> \<not> complete p')"
proof (induction xs arbitrary: p rule: induct_list012)
  case (3 x y zs)
  obtain r1 p1 where f: "feed p x = (r1, p1)" by fastforce
  from feed_budget [OF f "3.prems"(2)] have b: "parser_inv p1" "rp_limits p1 = rp_limits p" by auto
  show ?case
  proof (cases "r1 = Inr ParseNeedMore")
    case True
    with "3.prems" f have "feed_all feed (\<lambda>r. r = Inr ParseNeedMore) p1 (y # zs) = (r, p')" by simp
    from "3.IH"(2) [OF this b(1)] b(2) show ?thesis by simp
  next
    case False
    with "3.prems" f b show ?thesis by auto
  qed
qed (auto dest: feed_budget)

lemma budget_bounds_body:
  assumes "parser_inv p"
  shows "length (body (rp_response p)) \<le> max_body_bytes (rp_limits p)"
  using assms
  by (auto simp: parser_inv_def in_budget_def mk_decoder_def split: parse_stage.splits if_splits)

lemma closes_at_eof:
  assumes "feed p b = (Inr ParseNeedMore, p1)" and "parser_inv p" and "finish_eof p1 = (Inr ParseComplete, p2)"
  shows "close_delimited p2 \<and> complete p2"
proof -
  from feed_budget [OF assms(1,2)] have "parser_inv p1" "\<not> complete p1" by auto
  with assms(3) show ?thesis
    by (auto simp: finish_eof_def complete_def parser_inv_def Let_def split: parse_stage.splits if_splits)
qed

lemma mk_parser_budget: "parser_inv (mk_parser m lim)" "rp_limits (mk_parser m lim) = lim"
  by (simp_all add: parser_inv_def mk_parser_def mk_decoder_def empty_response_def)

section \<open>Properties\<close>

text \<open>
  C4: The response parser accepts exactly the grammar \<open>response_text\<close>: interim responses, a head
  within its limit, and the body its framing announces.  It returns the parsed response, leaves
  the bytes behind it pending, and offers the connection for reuse unless the response asks for its
  end.
\<close>

theorem response_parser_exact:
  "(\<exists>p. feed (mk_parser m lim) s = (Inr ParseComplete, p) \<and> take_response p = Some r
      \<and> pending_bytes p = rest \<and> connection_reusable p = (\<not> close)) \<longleftrightarrow>
     (\<exists>t. s = t @ rest \<and> response_text m lim t r close)"
proof -
  have "(\<exists>p. feed (mk_parser m lim) s = (Inr ParseComplete, p) \<and> take_response p = Some r
      \<and> pending_bytes p = rest \<and> connection_reusable p = (\<not> close))
    \<longleftrightarrow> (\<exists>p. feed (mk_parser m lim) s = (Inr ParseComplete, p) \<and> done_with p r close rest)"
  proof -
    have "done_with p r close rest \<longleftrightarrow> take_response p = Some r \<and> pending_bytes p = rest
        \<and> connection_reusable p = (\<not> close)"
      if "feed (mk_parser m lim) s = (Inr ParseComplete, p)" for p
    proof -
      from that have "process_buffer (start m lim s) = (Inr ParseComplete, p)" by (simp add: feed_start)
      from response_text_sound [OF this] have "complete p" "\<not> close_delimited p"
        by (auto simp: done_with_def)
      then show ?thesis by (auto simp: done_with_def take_response_def connection_reusable_def)
    qed
    then show ?thesis by blast
  qed
  then show ?thesis unfolding parser_accepts .
qed

text \<open>
  C15: At the end of the connection the parser accepts exactly the responses whose body has no length
  of its own (\<open>close_text\<close>); a head, a counted body or a chunked body cut short is an error.
\<close>

theorem response_parser_eof_exact:
  "(\<exists>p1 p2. feed (mk_parser m lim) s = (Inr ParseNeedMore, p1) \<and> finish_eof p1 = (Inr ParseComplete, p2)
      \<and> take_response p2 = Some r \<and> \<not> connection_reusable p2) \<longleftrightarrow> close_text m lim s r"
proof -
  have "take_response p2 = Some r \<and> \<not> connection_reusable p2 \<longleftrightarrow> rp_response p2 = r \<and> close_delimited p2"
    if "feed (mk_parser m lim) s = (Inr ParseNeedMore, p1)" "finish_eof p1 = (Inr ParseComplete, p2)" for p1 p2
    using closes_at_eof [OF that(1) mk_parser_budget(1) that(2)]
    by (simp add: take_response_def connection_reusable_def)
  then show ?thesis unfolding parser_accepts_eof [symmetric] eof_run_def by blast
qed

lemma parser_whole:
  assumes "feed_all feed (\<lambda>r. r = Inr ParseNeedMore) p xs = (Inr q, p1)"
  shows "\<exists>rest. feed p (concat xs) = (Inr q, push p1 rest)"
proof (cases q)
  case ParseNeedMore
  with assms have "feed_all feed (\<lambda>r. r = Inr ParseNeedMore) p xs = feed p (concat xs)"
    by (intro parser.feed_all_more) simp
  with assms show ?thesis by (intro exI [of _ "[]"]) simp
next
  case ParseComplete
  with assms parser.feed_all_final [of p xs] show ?thesis by simp
qed

lemma push_same [simp]:
  "take_response (push p b) = take_response p" "connection_reusable (push p b) = connection_reusable p"
  by (simp_all add: take_response_def connection_reusable_def complete_def)

text \<open>
  C20: Reads may end anywhere.  Two ways of cutting the same bytes that end without an error end with
  the same result, and when the response is complete, with the same response and reuse decision.
\<close>

theorem response_reads_irrelevant:
  assumes "feed_all feed (\<lambda>r. r = Inr ParseNeedMore) p xs = (Inr q1, p1)"
    and "feed_all feed (\<lambda>r. r = Inr ParseNeedMore) p ys = (Inr q2, p2)"
    and "concat xs = concat ys"
  shows "q1 = q2 \<and> take_response p1 = take_response p2 \<and> connection_reusable p1 = connection_reusable p2"
proof -
  from parser_whole [OF assms(1)] obtain u where "feed p (concat xs) = (Inr q1, push p1 u)" ..
  moreover from parser_whole [OF assms(2)] obtain v where "feed p (concat xs) = (Inr q2, push p2 v)"
    unfolding assms(3) ..
  ultimately have "(Inr q1 :: parse_progress result, push p1 u) = (Inr q2, push p2 v)" by simp
  then have "q1 = q2" "push p1 u = push p2 v" by simp_all
  then show ?thesis using push_same by metis
qed

definition demo_reply :: "string list"
where
  "demo_reply = [''HTTP/1.1 103 E'' @ crlf @ crlf @ ''HTTP/1.1 200 OK'' @ [CHR 0x0D],
     CHR 0x0A # ''Content-Length: 2'' @ crlf @ ''X: a'', crlf @ crlf @ ''h'', ''iHTTP'']"

definition demo_response :: response
where
  "demo_response = \<lparr>status_code = 200, reason = ''OK'',
     rs_headers = [mk_field ''Content-Length'' ''2'', mk_field ''X'' ''a''], body = ''hi''\<rparr>"

lemma demo_reply_feed:
  "\<exists>p. feed_all feed (\<lambda>r. r = Inr ParseNeedMore) (mk_parser Get default_limits) demo_reply = (Inr ParseComplete, p)
     \<and> rp_response p = demo_response \<and> connection_reusable p"
  "\<exists>p. feed_all feed (\<lambda>r. r = Inr ParseNeedMore) (mk_parser Get default_limits) [concat demo_reply]
     = (Inr ParseComplete, p) \<and> rp_response p = demo_response \<and> connection_reusable p"
proof -
  have "(case feed_all feed (\<lambda>r. r = Inr ParseNeedMore) (mk_parser Get default_limits) demo_reply of
      (r, p) \<Rightarrow> r = Inr ParseComplete \<and> rp_response p = demo_response \<and> connection_reusable p)"
    by code_simp
  then show "\<exists>p. feed_all feed (\<lambda>r. r = Inr ParseNeedMore) (mk_parser Get default_limits) demo_reply
      = (Inr ParseComplete, p) \<and> rp_response p = demo_response \<and> connection_reusable p" by auto
  have "(case feed_all feed (\<lambda>r. r = Inr ParseNeedMore) (mk_parser Get default_limits) [concat demo_reply] of
      (r, p) \<Rightarrow> r = Inr ParseComplete \<and> rp_response p = demo_response \<and> connection_reusable p)"
    by code_simp
  then show "\<exists>p. feed_all feed (\<lambda>r. r = Inr ParseNeedMore) (mk_parser Get default_limits) [concat demo_reply]
      = (Inr ParseComplete, p) \<and> rp_response p = demo_response \<and> connection_reusable p" by auto
qed

theorem response_reads_irrelevant_witness:
  "\<exists>p1 p2. feed_all feed (\<lambda>r. r = Inr ParseNeedMore) (mk_parser Get default_limits) demo_reply
      = (Inr ParseComplete, p1)
    \<and> feed_all feed (\<lambda>r. r = Inr ParseNeedMore) (mk_parser Get default_limits) [concat demo_reply]
      = (Inr ParseComplete, p2) \<and> take_response p1 = take_response p2"
proof -
  have "concat demo_reply = concat [concat demo_reply]" by simp
  with demo_reply_feed response_reads_irrelevant show ?thesis by blast
qed

text \<open>
  A connection is offered for reuse only behind a response that delimited itself and did not ask
  for the end: what was read is such a response followed by exactly the pending bytes.
\<close>

lemma connection_reuse_safe:
  assumes "feed_all feed (\<lambda>r. r = Inr ParseNeedMore) (mk_parser m lim) xs = (Inr q, p)" and "connection_reusable p"
  shows "\<exists>t rest. concat xs = t @ rest \<and> response_text m lim t (rp_response p) False"
proof -
  have "complete p" using assms(2) by (simp add: connection_reusable_def)
  have "q = ParseComplete"
  proof (rule ccontr)
    assume "q \<noteq> ParseComplete"
    then have "q = ParseNeedMore" by (cases q) simp_all
    with feed_all_parser_budget [OF assms(1) mk_parser_budget(1)] \<open>complete p\<close> show False by simp
  qed
  with parser_whole [OF assms(1)] obtain rest
    where f: "process_buffer (start m lim (concat xs)) = (Inr ParseComplete, push p rest)" by (auto simp: feed_start)
  from response_text_sound [OF f] assms(2) show ?thesis
    by (auto simp: done_with_def connection_reusable_def)
qed

lemma connection_reuse_safe_witness:
  "\<exists>t rest. concat demo_reply = t @ rest \<and> response_text Get default_limits t demo_response False"
  using demo_reply_feed(1) connection_reuse_safe by metis

text \<open>
  Of two accepted texts, one is never a proper beginning of the other, and one text has one reading.
\<close>

lemma response_framing_unique:
  assumes "response_text m lim t r close" and "response_text m lim (t @ u) r' close'"
  shows "u = [] \<and> r = r' \<and> close = close'"
  using response_text_complete [OF assms(1), of u] response_text_complete [OF assms(2), of "[]"]
  by (auto simp: done_with_def)

text \<open>
  C24: A response ends at one byte.  When \<open>feed\<close> completes, what it was given is a message and the bytes it leaves
  pending.  On a beginning of it, \<open>feed\<close> completes exactly when the whole message is there; and whatever
  stands behind the message, the parser ends in the same state, with just those bytes pending: no later byte
  is taken into the response, and none is waited for.
\<close>

theorem response_ends_at_last_byte:
  assumes "feed (mk_parser m lim) s = (Inr ParseComplete, p)"
  shows "\<exists>t. s = t @ rp_buffer p
    \<and> (\<forall>n. fst (feed (mk_parser m lim) (take n s)) = Inr ParseComplete \<longleftrightarrow> length t \<le> n)
    \<and> (\<forall>x. feed (mk_parser m lim) (t @ x) = (Inr ParseComplete, p\<lparr>rp_buffer := x\<rparr>))"
proof -
  from assms have run: "process_buffer (start m lim s) = (Inr ParseComplete, p)" by (simp add: feed_start)
  from response_text_sound [OF run] obtain t r close where
    t: "s = t @ pending_bytes p" "response_text m lim t r close" "complete p" by (auto simp: done_with_def)
  then have s: "s = t @ rp_buffer p" by (simp add: pending_bytes_def)
  from response_text_complete [OF t(2), of "[]"] obtain p0 where
    p0: "feed (mk_parser m lim) t = (Inr ParseComplete, p0)" "rp_buffer p0 = []"
    by (auto simp: feed_start done_with_def pending_bytes_def split: if_splits)
  have at: "feed (mk_parser m lim) (t @ x) = (Inr ParseComplete, push p0 x)" for x
    using parser.feed_final [OF p0(1)] by simp
  from at [of "rp_buffer p"] assms s have "p = push p0 (rp_buffer p)" by simp
  then have "push p0 x = p\<lparr>rp_buffer := x\<rparr>" for x
    using p0(2) by (metis append_Nil push_def response_parser.simps push_update(1))
  with at have ends: "feed (mk_parser m lim) (t @ x) = (Inr ParseComplete, p\<lparr>rp_buffer := x\<rparr>)" for x by simp
  have "fst (feed (mk_parser m lim) (take n s)) = Inr ParseComplete \<longleftrightarrow> length t \<le> n" for n
  proof
    assume "fst (feed (mk_parser m lim) (take n s)) = Inr ParseComplete"
    then obtain q where "process_buffer (start m lim (take n s)) = (Inr ParseComplete, q)"
      unfolding feed_start by (metis prod.collapse)
    from response_text_sound [OF this] obtain v rest r' close' where
      v: "take n s = v @ rest" "response_text m lim v r' close'" by blast
    have "\<exists>u. t = v @ u \<or> v = t @ u"
      using v(1) s append_take_drop_id [of n s] by (metis append_eq_append_conv2 append.assoc)
    with response_framing_unique [OF t(2)] response_framing_unique [OF v(2)] t(2) v(2) have "v = t" by auto
    with v(1) have "length t \<le> length (take n s)" by simp
    then show "length t \<le> n" by simp
  next
    assume "length t \<le> n"
    then have "take n s = t @ take (n - length t) (rp_buffer p)" by (subst s) simp
    with ends show "fst (feed (mk_parser m lim) (take n s)) = Inr ParseComplete" by simp
  qed
  with s ends show ?thesis by blast
qed

theorem response_ends_at_last_byte_witness:
  "\<exists>t. concat demo_reply = t @ ''HTTP''
    \<and> (\<forall>n. fst (feed (mk_parser Get default_limits) (take n (concat demo_reply))) = Inr ParseComplete
          \<longleftrightarrow> length t \<le> n)"
proof -
  have "(case feed (mk_parser Get default_limits) (concat demo_reply) of
      (r, p) \<Rightarrow> r = Inr ParseComplete \<and> rp_buffer p = ''HTTP'')" by code_simp
  then obtain p where "feed (mk_parser Get default_limits) (concat demo_reply) = (Inr ParseComplete, p)"
      "rp_buffer p = ''HTTP''" by (auto split: prod.splits)
  with response_ends_at_last_byte [OF this(1)] show ?thesis by auto
qed

text \<open>
  C16: Contradictory framing is refused at the head, before any body byte is taken: both
  \<open>Content-Length\<close> and \<open>Transfer-Encoding\<close>, framing on 101 and 204, a body on 205, codings other
  than a single \<open>chunked\<close>, and an announced length over the limit, each with its error.
\<close>

theorem bad_framing_refused:
  assumes "head_of lim b h fr" and "\<not> is_interim_status (ph_status h)" and "body_kind m lim h fr = BadFraming c"
  shows "fst (feed (mk_parser m lim) (b @ crlfcrlf @ t)) = fail c"
  unfolding feed_start process_start [OF assms(1)] accept_head_final [OF assms(2)] Let_def
  by (simp add: assms(3))

definition smuggling_head :: string
  where "smuggling_head = ''HTTP/1.1 200 OK'' @ crlf @ ''Content-Length: 3'' @ crlf @ ''Transfer-Encoding: chunked''"

theorem bad_framing_refused_witness:
  "fst (feed (mk_parser Get default_limits) (smuggling_head @ crlfcrlf @ ''abc'')) = fail ConflictingMessageFraming"
proof -
  let ?h = "case parse_head smuggling_head of Inr h \<Rightarrow> h"
  let ?fr = "case analyze_framing (ph_headers ?h) of Inr fr \<Rightarrow> fr"
  have "head_of default_limits smuggling_head ?h ?fr" "\<not> is_interim_status (ph_status ?h)"
    "body_kind Get default_limits ?h ?fr = BadFraming ConflictingMessageFraming" by code_simp+
  then show ?thesis by (rule bad_framing_refused)
qed

text \<open>
  C25: Memory is bounded.  However the bytes arrive, the body never exceeds \<open>max_body_bytes\<close>, and
  while more is awaited at most the largest of the head, line and trailer limits is pending.
\<close>

theorem response_memory_bounded:
  assumes "feed_all feed (\<lambda>r. r = Inr ParseNeedMore) (mk_parser m lim) xs = (r, p)"
  shows "length (body (rp_response p)) \<le> max_body_bytes lim
    \<and> (r = Inr ParseNeedMore \<longrightarrow> length (pending_bytes p) \<le> parser_pending_bound lim)"
  using feed_all_parser_budget [OF assms mk_parser_budget(1)] budget_bounds_body mk_parser_budget(2)
  by (auto simp: pending_bytes_def)

theorem response_memory_bounded_witness:
  "length (body demo_response) \<le> max_body_bytes default_limits"
  using demo_reply_feed(1) response_memory_bounded by metis

end
