(* ===== verification/Response_Replies.thy ===== *)
theory Response_Replies
  imports Response_Properties Request_Wire
begin

text \<open>
  The reply a server writes (\<open>reply_text\<close>: interim responses, status line, fields, framing field, body with a
  length or in chunks, no body where the method or the status says so) is read back by \<open>ResponseParser\<close>.  The lemmas give the converse direction of the parser's code:
  each line of a well-formed head is parsed to what it was written from.
\<close>

section \<open>Replies\<close>

datatype reply_body = Sized string | Chunks "string list" | Absent

record interim =
  int_status :: nat
  int_reason :: string
  int_fields :: headers

record reply =
  rep_interims :: "interim list"
  rep_status :: nat
  rep_reason :: string
  rep_fields :: headers
  rep_body :: reply_body

fun framing_fields :: "reply_body \<Rightarrow> headers"
where
  "framing_fields (Sized s) = [mk_field ''Content-Length'' (to_decimal (length s))]"
| "framing_fields (Chunks cs) = [mk_field ''Transfer-Encoding'' ''chunked'']"
| "framing_fields Absent = []"

fun body_bytes :: "reply_body \<Rightarrow> string"
where
  "body_bytes (Sized s) = s"
| "body_bytes (Chunks cs) = encode_chunks cs"
| "body_bytes Absent = []"

fun body_content :: "reply_body \<Rightarrow> string"
where
  "body_content (Sized s) = s"
| "body_content (Chunks cs) = concat cs"
| "body_content Absent = []"

text \<open>A reply to \<open>HEAD\<close> and a 204 or 304 end with their heads, whatever length these announce.\<close>

definition bodiless :: "http_method \<Rightarrow> reply \<Rightarrow> bool"
  where "bodiless m rep = (m = Head \<or> rep_status rep = 204 \<or> rep_status rep = 304)"

definition reply_headers :: "reply \<Rightarrow> headers"
  where "reply_headers rep = rep_fields rep @ framing_fields (rep_body rep)"

definition status_text :: "nat \<Rightarrow> string \<Rightarrow> string"
  where "status_text status rsn = ''HTTP/1.1 '' @ to_decimal status @ '' '' @ rsn"

fun fields_text :: "headers \<Rightarrow> string"
where
  "fields_text [] = []"
| "fields_text [f] = field_line f"
| "fields_text (f # g # fs) = field_line f @ crlf @ fields_text (g # fs)"

text \<open>The lines of a head, without the empty line.\<close>

definition head_text :: "nat \<Rightarrow> string \<Rightarrow> headers \<Rightarrow> string"
where
  "head_text status rsn fs = status_text status rsn @ (if fs = [] then [] else crlf @ fields_text fs)"

definition reply_head :: "reply \<Rightarrow> string"
  where "reply_head rep = head_text (rep_status rep) (rep_reason rep) (reply_headers rep)"

definition interim_head :: "interim \<Rightarrow> string"
  where "interim_head i = head_text (int_status i) (int_reason i) (int_fields i)"

definition sent_body :: "http_method \<Rightarrow> reply \<Rightarrow> string"
  where "sent_body m rep = (if bodiless m rep then [] else body_bytes (rep_body rep))"

definition final_text :: "http_method \<Rightarrow> reply \<Rightarrow> string"
  where "final_text m rep = reply_head rep @ crlfcrlf @ sent_body m rep"

text \<open>What a server sends in reply to a request with the method \<open>m\<close>, and what the caller is to get.\<close>

definition reply_text :: "http_method \<Rightarrow> reply \<Rightarrow> string"
where
  "reply_text m rep = concat (map (\<lambda>i. interim_head i @ crlfcrlf) (rep_interims rep)) @ final_text m rep"

definition reply_response :: "http_method \<Rightarrow> reply \<Rightarrow> response"
where
  "reply_response m rep =
     \<lparr>status_code = int (rep_status rep), reason = rep_reason rep, rs_headers = reply_headers rep,
      body = (if bodiless m rep then [] else body_content (rep_body rep))\<rparr>"

definition asks_close :: "headers \<Rightarrow> bool"
where
  "asks_close =
     list_ex (\<lambda>f. ascii_iequals (field_name f) ''Connection'' \<and> contains_token (field_value f) ''close'')"

text \<open>The fields a server may add: valid, trimmed, and not framing.\<close>

definition plain_field :: "field \<Rightarrow> bool"
where
  "plain_field f =
     (valid_field_name (field_name f) \<and> valid_field_value (field_value f)
      \<and> trim_ows (field_value f) = field_value f)"

definition framing_name :: "field \<Rightarrow> bool"
where
  "framing_name f =
     (ascii_iequals (field_name f) ''Content-Length'' \<or> ascii_iequals (field_name f) ''Transfer-Encoding'')"

definition head_fits :: "response_limits \<Rightarrow> nat \<Rightarrow> string \<Rightarrow> headers \<Rightarrow> headers \<Rightarrow> bool"
where
  "head_fits lim status rsn fs framing =
     (list_all field_byte rsn \<and> list_all (\<lambda>f. plain_field f \<and> \<not> framing_name f) fs
      \<and> length (head_text status rsn (fs @ framing)) + 4 \<le> max_head_bytes lim)"

definition interim_ok :: "response_limits \<Rightarrow> interim \<Rightarrow> bool"
where
  "interim_ok lim i =
     (100 \<le> int_status i \<and> int_status i \<le> 199 \<and> int_status i \<noteq> 101
      \<and> head_fits lim (int_status i) (int_reason i) (int_fields i) [])"

text \<open>The body fits the limits where it is sent; a 204 has no framing field.\<close>

definition body_ok :: "response_limits \<Rightarrow> http_method \<Rightarrow> reply \<Rightarrow> bool"
where
  "body_ok lim m rep =
     (case rep_body rep of
        Absent \<Rightarrow> bodiless m rep
      | Sized s \<Rightarrow>
          rep_status rep \<noteq> 204 \<and> length s < 2 ^ 64 \<and> (bodiless m rep \<or> length s \<le> max_body_bytes lim)
      | Chunks cs \<Rightarrow>
          rep_status rep \<noteq> 204
          \<and> (bodiless m rep
             \<or> list_all (\<lambda>c. c \<noteq> []) cs \<and> length (concat cs) \<le> max_body_bytes lim \<and> max_body_bytes lim < 2 ^ 64
               \<and> 16 \<le> max_chunk_line_bytes lim \<and> 2 \<le> max_trailer_bytes lim))"

definition reply_ok :: "response_limits \<Rightarrow> http_method \<Rightarrow> reply \<Rightarrow> bool"
where
  "reply_ok lim m rep =
     (list_all (interim_ok lim) (rep_interims rep)
      \<and> 200 \<le> rep_status rep \<and> rep_status rep \<le> 999 \<and> rep_status rep \<noteq> 205
      \<and> head_fits lim (rep_status rep) (rep_reason rep) (rep_fields rep) (framing_fields (rep_body rep))
      \<and> body_ok lim m rep)"

section \<open>The status line\<close>

lemma three_digits:
  assumes "100 \<le> n" "n \<le> 999"
  shows "to_decimal n = [digit_char (n div 100), digit_char (n div 10 mod 10), digit_char (n mod 10)]"
proof -
  have "n div 10 div 10 = n div 100" by (simp add: div_mult2_eq [symmetric])
  moreover have "n div 100 < 10" "\<not> n div 10 < 10" "\<not> n < 10" using assms by auto
  ultimately show ?thesis
    unfolding to_decimal_def
    by (subst to_digits.simps, simp, subst to_digits.simps, simp, subst to_digits.simps, simp)
qed

lemma digit_decimal: "d < 10 \<Longrightarrow> decimal_byte (digit_char d)"
  using to_digits_digits [of 10 d] to_digits.simps [of 10 d]
  by (auto simp: decimal_byte_def is_digit_decimal)

lemma parse_status_digits:
  assumes "decimal_byte a" "decimal_byte b" "decimal_byte c" "from_chars_all 10 31 [a, b, c] = Some n"
    and "100 \<le> n" "n \<le> 999" "valid_reason_phrase rsn"
  shows "parse_status_line (''HTTP/1.1 '' @ [a, b, c] @ '' '' @ rsn) = Inr (int n, rsn)"
  using assms by (simp add: parse_status_line_def substr_def)

lemma parse_status_text:
  assumes "100 \<le> n" "n \<le> 999" "list_all field_byte rsn"
  shows "parse_status_line (status_text n rsn) = Inr (int n, rsn)"
proof -
  have "n < 2 ^ 31" using assms(2) by simp
  from from_chars_to_decimal [OF this]
  have "from_chars_all 10 31 [digit_char (n div 100), digit_char (n div 10 mod 10), digit_char (n mod 10)] = Some n"
    by (simp add: three_digits [OF assms(1,2)])
  moreover have "decimal_byte (digit_char (n div 100))" "decimal_byte (digit_char (n div 10 mod 10))"
      "decimal_byte (digit_char (n mod 10))"
    using assms(1,2) by (intro digit_decimal; simp)+
  moreover have "valid_reason_phrase rsn"
    using assms(3) by (auto simp: valid_reason_phrase_def field_byte_def list_all_iff split: if_splits)
  ultimately show ?thesis
    unfolding status_text_def three_digits [OF assms(1,2)] using assms(1,2) by (intro parse_status_digits)
qed

section \<open>The field lines\<close>

lemma parse_plain_field:
  assumes "plain_field f"
  shows "parse_field_line (field_line f) = Inr (field_name f, field_value f)"
proof -
  from assms have n: "valid_field_name (field_name f)" "valid_field_value (field_value f)"
      "trim_ows (field_value f) = field_value f" by (simp_all add: plain_field_def)
  then obtain c cs where c: "field_name f = c # cs" "is_tchar c"
    by (cases "field_name f") (auto simp: valid_field_name_def)
  have "find_chr (CHR '':'') (field_name f @ CHR '':'' # '' '' @ field_value f) = Some (length (field_name f))"
    using valid_field_name_no_crlf [OF n(1)] by (intro find_if_split) auto
  then have "find_chr (CHR '':'') (field_line f) = Some (length (field_name f))" by (simp add: field_line_def)
  moreover have "hd (field_line f) = c" by (simp add: field_line_def c)
  moreover have "field_line f \<noteq> []" "take (length (field_name f)) (field_line f) = field_name f"
      "drop (length (field_name f) + 1) (field_line f) = CHR '' '' # field_value f"
    by (simp_all add: field_line_def)
  ultimately show ?thesis
    using n is_tchar_excludes [OF c(2)] c(1) by (simp add: parse_field_line_def Let_def is_ows_def)
qed

lemma field_line_bytes:
  assumes "plain_field f"
  shows "CHR 0x0D \<notin> set (field_line f)" "field_line f \<noteq> []"
  using assms valid_field_name_no_crlf [of "field_name f"] valid_field_value_no_crlf [of "field_value f"]
  by (auto simp: plain_field_def field_line_def)

lemma head_loop_fields:
  "list_all plain_field fs \<Longrightarrow> head_loop acc (fields_text fs) = Inr (acc @ fs)"
proof (induction fs arbitrary: acc rule: fields_text.induct)
  case 1
  then show ?case by (subst head_loop.simps) simp
next
  case (2 f)
  then have "find_str crlf (field_line f) = None"
    using field_line_bytes by (intro find_str_absent) auto
  with 2 show ?case
    using parse_plain_field [of f] field_line_bytes [of f]
    by (subst head_loop.simps) (simp add: take_opt_def headers_add_def mk_field_def)
next
  case (3 f g fs)
  let ?rest = "fields_text (g # fs)"
  from "3.prems" have f: "plain_field f" by simp
  then have "find_str crlf (field_line f) = None"
    using field_line_bytes by (intro find_str_absent) auto
  then have "find_str crlf (field_line f @ crlf @ ?rest) = Some (length (field_line f))" by (rule find_crlf_line)
  with 3 show ?case
    using parse_plain_field [OF f] field_line_bytes [OF f]
    by (subst head_loop.simps) (simp add: take_opt_def headers_add_def mk_field_def)
qed

section \<open>The end of the head\<close>

lemma find_end_step:
  "c \<noteq> CHR 0x0D \<Longrightarrow> find_str crlfcrlf (c # s) = map_option Suc (find_str crlfcrlf s)"
  "c \<noteq> CHR 0x0D \<Longrightarrow>
     find_str crlfcrlf (crlf @ c # s) = map_option (\<lambda>i. Suc (Suc i)) (find_str crlfcrlf (c # s))"
  by (simp_all add: option.map_comp comp_def)

lemma find_end_skip:
  "CHR 0x0D \<notin> set l \<Longrightarrow> find_str crlfcrlf (l @ t) = map_option ((+) (length l)) (find_str crlfcrlf t)"
proof (induction l)
  case (Cons c l)
  then have "c \<noteq> CHR 0x0D" by auto
  with Cons show ?case by (simp add: find_end_step(1) option.map_comp comp_def plus_Suc_fun)
qed (simp add: option.map_ident [unfolded id_def] plus_0_fun)

lemma find_end_crlf:
  assumes "CHR 0x0D \<notin> set l" "l \<noteq> []"
  shows "find_str crlfcrlf (crlf @ l @ t) = map_option ((+) 2) (find_str crlfcrlf (l @ t))"
proof (cases l)
  case (Cons c cs)
  with assms have "c \<noteq> CHR 0x0D" by auto
  from find_end_step(2) [OF this, of "cs @ t"] show ?thesis by (simp add: Cons numeral_2_eq_2 plus_Suc_fun plus_0_fun)
qed (use assms in simp)

lemma find_end_fields:
  "list_all plain_field fs \<Longrightarrow> fs \<noteq> [] \<Longrightarrow> CHR 0x0D \<notin> set l \<Longrightarrow>
     find_str crlfcrlf (l @ crlf @ fields_text fs @ crlfcrlf) = Some (length (l @ crlf @ fields_text fs))"
proof (induction fs arbitrary: l rule: fields_text.induct)
  case (2 f)
  then have f: "CHR 0x0D \<notin> set (field_line f)" "field_line f \<noteq> []" using field_line_bytes by auto
  with 2 show ?case
    using find_end_skip [OF f(1), of crlfcrlf] find_end_crlf [OF f, of crlfcrlf]
      find_end_skip [OF "2.prems"(3), of "crlf @ field_line f @ crlfcrlf"] by simp
next
  case (3 f g fs)
  then have f: "CHR 0x0D \<notin> set (field_line f)" "field_line f \<noteq> []" using field_line_bytes by auto
  have "find_str crlfcrlf (field_line f @ crlf @ fields_text (g # fs) @ crlfcrlf)
      = Some (length (field_line f @ crlf @ fields_text (g # fs)))"
    using "3.prems" f(1) by (intro "3.IH") simp_all
  then show ?case
    using find_end_skip [OF "3.prems"(3), of "crlf @ fields_text (f # g # fs) @ crlfcrlf"]
      find_end_crlf [OF f, of "crlf @ fields_text (g # fs) @ crlfcrlf"] by simp
qed simp

section \<open>Framing\<close>

lemma framing_loop_plain:
  "list_all (\<lambda>f. \<not> framing_name f) fs \<Longrightarrow>
     framing_loop fr (fs @ gs) = framing_loop (fr\<lparr>fr_close_requested := fr_close_requested fr \<or> asks_close fs\<rparr>) gs"
  by (induction fs arbitrary: fr) (auto simp: asks_close_def framing_name_def Let_def)

lemma framing_names:
  "\<not> ascii_iequals ''Content-Length'' ''Connection''" "\<not> ascii_iequals ''Transfer-Encoding'' ''Connection''"
  "\<not> ascii_iequals ''Transfer-Encoding'' ''Content-Length''"
  by (simp_all add: ascii_iequals_def)

lemma coding_chunked:
  "coding_loop fr ''chunked'' = Inr (fr\<lparr>fr_te_tokens := fr_te_tokens fr + 1\<rparr>)"
proof -
  have "find_chr (CHR '','') ''chunked'' = None" "trim_ows ''chunked'' = ''chunked''" by code_simp+
  then show ?thesis by (subst coding_loop.simps) (simp add: take_opt_def)
qed

definition reply_framing :: "reply \<Rightarrow> framing_info"
where
  "reply_framing rep =
     (let fr = empty_framing\<lparr>fr_close_requested := asks_close (rep_fields rep)\<rparr>
      in case rep_body rep of
           Sized s \<Rightarrow> fr\<lparr>fr_length_count := 1, fr_content_length := length s\<rparr>
         | Chunks cs \<Rightarrow> fr\<lparr>fr_te_fields := 1, fr_te_tokens := 1\<rparr>
         | Absent \<Rightarrow> fr)"

lemma reply_framed:
  assumes "reply_ok lim m rep"
  shows "analyze_framing (reply_headers rep) = Inr (reply_framing rep)"
proof -
  have "list_all (\<lambda>f. \<not> framing_name f) (rep_fields rep)"
    using assms by (auto simp: reply_ok_def head_fits_def list_all_iff)
  note plain = framing_loop_plain [OF this, of empty_framing "framing_fields (rep_body rep)"]
  show ?thesis
  proof (cases "rep_body rep")
    case (Sized s)
    with assms have "length s < 2 ^ 64" by (simp add: reply_ok_def body_ok_def)
    then have "parse_content_length (to_decimal (length s)) = Some (length s)"
      using from_chars_to_decimal [of "length s" 64] by (simp add: parse_content_length_def to_decimal_def)
    with Sized plain show ?thesis
      by (simp add: analyze_framing_def reply_headers_def reply_framing_def framing_names Let_def mk_field_def
          empty_framing_def)
  next
    case (Chunks cs)
    with plain show ?thesis
      by (simp add: analyze_framing_def reply_headers_def reply_framing_def framing_names Let_def mk_field_def
          coding_chunked empty_framing_def)
  next
    case Absent
    with plain show ?thesis
      by (simp add: analyze_framing_def reply_headers_def reply_framing_def Let_def empty_framing_def)
  qed
qed

lemma interim_framed:
  assumes "list_all (\<lambda>f. plain_field f \<and> \<not> framing_name f) fs"
  shows "analyze_framing fs = Inr (empty_framing\<lparr>fr_close_requested := asks_close fs\<rparr>)"
proof -
  have "list_all (\<lambda>f. \<not> framing_name f) fs" using assms by (auto simp: list_all_iff)
  from framing_loop_plain [OF this, of empty_framing "[]"] show ?thesis
    by (simp add: analyze_framing_def empty_framing_def)
qed

section \<open>The whole reply\<close>

lemma framing_fields_plain: "list_all plain_field (framing_fields b)"
proof (cases b)
  case (Sized s)
  have d: "\<forall>c \<in> set (to_decimal n). is_digit 10 c" for n by (simp add: to_decimal_def to_digits_digits)
  then have "\<forall>c \<in> set (to_decimal n). field_byte c \<and> \<not> is_ows c" for n
    by (fastforce simp: is_digit_decimal field_byte_def is_ows_def less_eq_char_def)
  then have "valid_field_value (to_decimal n)" "trim_ows (to_decimal n) = to_decimal n" for n
    using trim_ows_id [of "to_decimal n"]
    by (auto simp: valid_field_value_def list_all_iff dest: hd_in_set last_in_set)
  moreover have "valid_field_name ''Content-Length''" by code_simp
  ultimately show ?thesis using Sized by (simp add: plain_field_def mk_field_def)
next
  case (Chunks cs)
  have "plain_field (mk_field ''Transfer-Encoding'' ''chunked'')" by code_simp
  with Chunks show ?thesis by simp
qed simp

lemma head_text_of:
  assumes "100 \<le> n" "n \<le> 999" "list_all field_byte rsn" "list_all plain_field fs"
    and "length (head_text n rsn fs) + 4 \<le> max_head_bytes lim" and "analyze_framing fs = Inr fr"
  shows "head_of lim (head_text n rsn fs) \<lparr>ph_status = int n, ph_reason = rsn, ph_headers = fs\<rparr> fr"
proof -
  let ?st = "status_text n rsn"
  have "CHR 0x0D \<notin> set (to_decimal n)" using decimal_bytes field_byte_excludes by metis
  then have cr: "CHR 0x0D \<notin> set ?st"
    using assms(3) by (auto simp: status_text_def list_all_iff dest: field_byte_excludes)
  then have no: "find_str crlf ?st = None" by (intro find_str_absent) auto
  note status = parse_status_text [OF assms(1-3)]
  have "parse_head (head_text n rsn fs) = Inr \<lparr>ph_status = int n, ph_reason = rsn, ph_headers = fs\<rparr>"
    using status head_loop_fields [OF assms(4), of "[]"] no find_crlf_line [OF no, of "fields_text fs"]
    by (auto simp: parse_head_def head_text_def take_opt_def)
  moreover have "find_str crlfcrlf (head_text n rsn fs @ crlfcrlf) = Some (length (head_text n rsn fs))"
    using find_end_fields [OF assms(4) _ cr] find_end_skip [OF cr, of crlfcrlf] by (simp add: head_text_def)
  ultimately show ?thesis using assms(5,6) by (simp add: head_of_def)
qed

lemma reply_head_of:
  assumes "reply_ok lim m rep"
  shows "head_of lim (reply_head rep)
    \<lparr>ph_status = int (rep_status rep), ph_reason = rep_reason rep, ph_headers = reply_headers rep\<rparr>
    (reply_framing rep)"
  unfolding reply_head_def
proof (rule head_text_of)
  show "list_all plain_field (reply_headers rep)"
    using assms framing_fields_plain by (auto simp: reply_ok_def head_fits_def reply_headers_def list_all_iff)
qed (use assms reply_framed in \<open>auto simp: reply_ok_def head_fits_def reply_headers_def\<close>)

lemma interim_head_of:
  assumes "interim_ok lim i"
  shows "head_of lim (interim_head i)
    \<lparr>ph_status = int (int_status i), ph_reason = int_reason i, ph_headers = int_fields i\<rparr>
    (empty_framing\<lparr>fr_close_requested := asks_close (int_fields i)\<rparr>)"
  unfolding interim_head_def
proof (rule head_text_of)
  show "list_all plain_field (int_fields i)" using assms by (auto simp: interim_ok_def head_fits_def list_all_iff)
qed (use assms interim_framed in \<open>auto simp: interim_ok_def head_fits_def\<close>)

lemma reply_body_kind:
  assumes "reply_ok lim m rep"
  shows "body_kind m lim \<lparr>ph_status = int (rep_status rep), ph_reason = rsn, ph_headers = hs\<rparr> (reply_framing rep) =
    (if bodiless m rep then NoBody
     else case rep_body rep of Sized s \<Rightarrow> LengthBody (length s) | Chunks cs \<Rightarrow> ChunkBody | Absent \<Rightarrow> CloseBody)"
  using assms
  by (auto simp: body_kind_def reply_framing_def empty_framing_def reply_ok_def body_ok_def bodiless_def
      split: reply_body.splits)

lemma final_is_text:
  assumes "reply_ok lim m rep"
  shows "response_text m lim (final_text m rep) (reply_response m rep) (asks_close (rep_fields rep))"
proof -
  let ?h = "\<lparr>ph_status = int (rep_status rep), ph_reason = rep_reason rep, ph_headers = reply_headers rep\<rparr>"
  let ?d = "if bodiless m rep then [] else body_content (rep_body rep)"
  have "chunked_text lim 0 (encode_chunks cs) (concat cs)" if "rep_body rep = Chunks cs" "\<not> bodiless m rep" for cs
    using that assms by (intro encode_chunks_text) (auto simp: reply_ok_def body_ok_def list_all_iff)
  then have "body_text m lim ?h (reply_framing rep) (sent_body m rep) ?d"
    using assms unfolding body_text_def reply_body_kind [OF assms]
    by (auto simp: sent_body_def reply_ok_def body_ok_def split: reply_body.splits)
  moreover have "\<not> is_interim_status (ph_status ?h)" using assms by (simp add: is_interim_status_def reply_ok_def)
  ultimately have "response_text m lim (reply_head rep @ crlfcrlf @ sent_body m rep)
      (message_of ?h ?d) (closes ?h (reply_framing rep))"
    by (intro response_text.final reply_head_of [OF assms])
  moreover have "closes ?h (reply_framing rep) = asks_close (rep_fields rep)"
    using assms by (cases "rep_body rep") (auto simp: closes_def reply_framing_def empty_framing_def reply_ok_def)
  ultimately show ?thesis by (simp add: final_text_def reply_response_def message_of_def)
qed

lemma interim_status:
  "interim_ok lim i \<Longrightarrow> is_interim_status (int (int_status i))"
  by (auto simp: interim_ok_def is_interim_status_def)

lemma reply_is_text:
  assumes "reply_ok lim m rep"
  shows "response_text m lim (reply_text m rep) (reply_response m rep) (asks_close (rep_fields rep))"
proof -
  have "list_all (interim_ok lim) is \<Longrightarrow> response_text m lim
      (concat (map (\<lambda>i. interim_head i @ crlfcrlf) is) @ final_text m rep)
      (reply_response m rep) (asks_close (rep_fields rep))" for "is"
  proof (induction "is")
    case Nil
    then show ?case using final_is_text [OF assms] by simp
  next
    case (Cons i "is")
    with response_text.interim [OF interim_head_of [of lim i], of m] interim_status [of lim i] show ?case
      by (simp add: empty_framing_def)
  qed
  with assms show ?thesis by (simp add: reply_text_def reply_ok_def)
qed

section \<open>A reply under way\<close>

text \<open>
  While a reply arrives, no beginning of it is an error, as long as a size line and a pending CR fit the
  limit of a line.
\<close>

lemma beginning_cases:
  assumes "x @ u = a @ b"
  shows "(\<exists>v. v \<noteq> [] \<and> a = x @ v) \<or> (\<exists>y. x = a @ y \<and> y @ u = b)"
proof (cases "length x < length a")
  case True
  have "take (length x) (x @ u) = take (length x) (a @ b)" by (simp add: assms)
  with True have "take (length x) a = x" by simp
  then have "a = x @ drop (length x) a" by (metis append_take_drop_id)
  moreover have "drop (length x) a \<noteq> []" using True by simp
  ultimately show ?thesis by blast
next
  case False
  then show ?thesis using assms by (metis append_eq_append_conv_if append_take_drop_id linorder_not_less)
qed

lemma find_beginning_None:
  assumes "find_str pat (x @ v) = Some i" and "length x < i + length pat"
  shows "find_str pat x = None"
proof (cases "find_str pat x")
  case (Some j)
  then have "j = i" using find_str_append_hit [OF Some, of v] assms(1) by simp
  then show ?thesis using find_str_Some_le [OF Some] assms(2) by simp
qed

abbreviation at_size_line :: "chunked_decoder \<Rightarrow> bool"
  where "at_size_line d \<equiv> cd_stage d = SizeLine \<and> trailer_bytes_seen d = 0"

lemma size_line_beginning:
  assumes "at_size_line d" and "x @ v = to_digits 16 n @ crlf" and "v \<noteq> []"
    and "n < 2 ^ 64" and "17 \<le> max_chunk_line_bytes (cd_limits d)"
  shows "\<exists>d' i out'. decode d x out = (Inr ChunkNeedMore, d', i, out')"
proof -
  have "n < 16 ^ Suc 15" using assms(4) by simp
  then have l: "length (to_digits 16 n) \<le> 16" using length_to_digits_le [of 16 n 15] by simp
  have "CHR 0x0D \<notin> set (to_digits 16 n)"
    using to_digits_digits [of 16 n] by (auto simp: is_digit_def digit_val_def)
  then have "find_str crlf (x @ v) = Some (length (to_digits 16 n))"
    unfolding assms(2) using find_str_split [of crlf "to_digits 16 n" "[]"] by simp
  moreover have len: "length x < length (to_digits 16 n) + 2"
    using arg_cong [OF assms(2), of length] assms(3) by (cases v) auto
  ultimately have "find_str crlf x = None" by (intro find_beginning_None) auto
  with assms(1,5) l len show ?thesis
    by (subst decode.simps) (simp add: chunk_step_def size_line_step_def)
qed

lemma size_line_whole:
  assumes "at_size_line d" and "n < 2 ^ 64" and "16 \<le> max_chunk_line_bytes (cd_limits d)"
    and "length out + n \<le> max_body_bytes (cd_limits d)"
  shows "chunk_step d (to_digits 16 n @ crlf @ y) out
    = Go (d\<lparr>chunk_remaining := n, cd_stage := (if n = 0 then Trailers else Data)\<rparr>) y out"
proof -
  from size_line_digits [OF assms(2,3)]
  have l: "size_line (cd_limits d) (to_digits 16 n) n" .
  then have "find_str crlf (to_digits 16 n @ crlf @ y) = Some (length (to_digits 16 n))"
    using find_crlf_line by (simp add: size_line_def)
  with l assms(1,4) show ?thesis
    by (simp add: chunk_step_def size_line_step_def size_line_def would_exceed_iff)
qed

lemma crlf_beginning:
  assumes "y @ v = crlf" "v \<noteq> []"
  shows "length y < 2"
proof -
  have "length y + length v = 2" using arg_cong [OF assms(1), of length] by simp
  moreover have "0 < length v" using assms(2) by simp
  ultimately show ?thesis by linarith
qed

lemma data_beginning:
  assumes "cd_stage d = Data" "0 < length c" "chunk_remaining d = length c" "x @ v = c @ crlf" "v \<noteq> []"
  shows "\<exists>d' i out'. decode d x out = (Inr ChunkNeedMore, d', i, out')"
proof -
  from beginning_cases [OF assms(4)] show ?thesis
  proof
    assume "\<exists>w. w \<noteq> [] \<and> c = x @ w"
    then have "length x < length c" by auto
    then show ?thesis using assms(1,3)
      by (subst decode.simps) (simp add: chunk_step_def data_step_def Let_def min_def)
  next
    assume "\<exists>y. x = c @ y \<and> y @ v = crlf"
    then obtain y where y: "x = c @ y" "y @ v = crlf" by blast
    have "length y < 2" using crlf_beginning [OF y(2) assms(5)] .
    then show ?thesis using assms(1,3) y(1)
      by (subst decode.simps, simp add: chunk_step_def data_step_def Let_def)
        (subst decode.simps, simp add: chunk_step_def crlf_step_def)
  qed
qed

lemma data_whole:
  assumes "cd_stage d = Data" "chunk_remaining d = length c"
  shows "decode d (c @ crlf @ y) out = decode (d\<lparr>chunk_remaining := 0, cd_stage := SizeLine\<rparr>) y (out @ c)"
  using assms
  by (subst decode.simps, simp add: chunk_step_def data_step_def Let_def)
    (subst decode.simps, simp add: chunk_step_def crlf_step_def)

lemma last_beginning:
  assumes "cd_stage d = Trailers" "trailer_bytes_seen d = 0" "2 \<le> max_trailer_bytes (cd_limits d)"
    and "y @ v = crlf" "v \<noteq> []"
  shows "\<exists>d' i out'. decode d y out = (Inr ChunkNeedMore, d', i, out')"
proof -
  have "length y < 2" using crlf_beginning [OF assms(4,5)] .
  then have "find_str crlf y = None" using find_str_Some_le [of crlf y] by (cases "find_str crlf y") auto
  with \<open>length y < 2\<close> assms(1-3) show ?thesis
    by (subst decode.simps) (simp add: chunk_step_def trailer_step_def)
qed

lemma chunks_beginning:
  assumes "[] \<notin> set cs" and "length out + length (concat cs) \<le> max_body_bytes (cd_limits d)"
    and "max_body_bytes (cd_limits d) < 2 ^ 64"
    and "17 \<le> max_chunk_line_bytes (cd_limits d)" and "2 \<le> max_trailer_bytes (cd_limits d)"
    and "at_size_line d" and "x @ v = encode_chunks cs" and "v \<noteq> []"
  shows "\<exists>d' i out'. decode d x out = (Inr ChunkNeedMore, d', i, out')"
  using assms
proof (induction cs arbitrary: d x out)
  case Nil
  have z: "to_digits 16 0 = ''0''" by code_simp
  then have "x @ v = (to_digits 16 0 @ crlf) @ crlf" using Nil.prems(7) by (simp add: encode_chunks_def)
  from beginning_cases [OF this] show ?case
  proof (elim disjE exE conjE)
    fix w assume "w \<noteq> []" "to_digits 16 0 @ crlf = x @ w"
    with size_line_beginning [OF Nil.prems(6), of x w 0] Nil.prems(4) show ?thesis by simp
  next
    fix y assume y: "x = (to_digits 16 0 @ crlf) @ y" "y @ v = crlf"
    have "chunk_step d x out = Go (d\<lparr>chunk_remaining := 0, cd_stage := Trailers\<rparr>) y out"
      using size_line_whole [OF Nil.prems(6), of 0 out y] Nil.prems(2,4) y(1) by simp
    with last_beginning [of "d\<lparr>chunk_remaining := 0, cd_stage := Trailers\<rparr>" y v] Nil.prems(5,6,8) y(2)
    show ?thesis by (simp add: decode_Go)
  qed
next
  case (Cons c cs)
  let ?n = "length c"
  have n: "?n < 2 ^ 64" "length out + ?n \<le> max_body_bytes (cd_limits d)" "0 < ?n" using Cons.prems(1-3) by auto
  have "x @ v = (to_digits 16 ?n @ crlf) @ (c @ crlf) @ encode_chunks cs"
    using Cons.prems(7) by (simp add: encode_chunks_def encode_chunk_def)
  from beginning_cases [OF this] show ?case
  proof (elim disjE exE conjE)
    fix w assume "w \<noteq> []" "to_digits 16 ?n @ crlf = x @ w"
    with size_line_beginning [OF Cons.prems(6), of x w ?n] Cons.prems(4) n show ?thesis by simp
  next
    fix y assume y: "x = (to_digits 16 ?n @ crlf) @ y" "y @ v = (c @ crlf) @ encode_chunks cs"
    let ?d = "d\<lparr>chunk_remaining := ?n, cd_stage := Data\<rparr>"
    have "chunk_step d x out = Go ?d y out"
      using size_line_whole [OF Cons.prems(6) n(1) _ n(2), of y] Cons.prems(4) n(3) y(1) by simp
    then have go: "decode d x out = decode ?d y out" by (rule decode_Go)
    from beginning_cases [OF y(2)] show ?thesis
    proof (elim disjE exE conjE)
      fix w assume "w \<noteq> []" "c @ crlf = y @ w"
      with data_beginning [of ?d c y w] n(3) go show ?thesis by simp
    next
      fix z assume z: "y = (c @ crlf) @ z" "z @ v = encode_chunks cs"
      have "decode ?d y out = decode (?d\<lparr>chunk_remaining := 0, cd_stage := SizeLine\<rparr>) z (out @ c)"
        using data_whole [of ?d c z out] z(1) by simp
      moreover have "\<exists>d' i out'. decode (?d\<lparr>chunk_remaining := 0, cd_stage := SizeLine\<rparr>) z (out @ c)
          = (Inr ChunkNeedMore, d', i, out')"
        using Cons.prems z(2) by (intro Cons.IH) auto
      ultimately show ?thesis using go by simp
    qed
  qed
qed

text \<open>Room for a size line and a pending CR.\<close>

definition line_room :: "response_limits \<Rightarrow> http_method \<Rightarrow> reply \<Rightarrow> bool"
where
  "line_room lim m rep =
     (case rep_body rep of Chunks cs \<Rightarrow> bodiless m rep \<or> 17 \<le> max_chunk_line_bytes lim | _ \<Rightarrow> True)"

lemma head_beginning:
  assumes "head_of lim b h fr" and "b @ crlfcrlf = x @ w" and "w \<noteq> []"
  shows "fst (process_buffer (start m lim x)) = Inr ParseNeedMore"
proof -
  have "length b + 4 = length x + length w" using arg_cong [OF assms(2), of length] by simp
  moreover have "0 < length w" using assms(3) by simp
  ultimately have len: "length x < length b + 4" by linarith
  have "find_str crlfcrlf (x @ w) = Some (length b)" using assms(1,2) by (simp add: head_of_def)
  then have "find_str crlfcrlf x = None" using len by (intro find_beginning_None) auto
  then show ?thesis
    using assms(1) len by (subst process_buffer.simps) (simp add: process_turn_def head_turn_def head_of_def)
qed

lemma final_beginning:
  assumes "reply_ok lim m rep" and "line_room lim m rep" and "x @ v = final_text m rep" and "v \<noteq> []"
  shows "fst (process_buffer (start m lim x)) = Inr ParseNeedMore"
proof -
  let ?h = "\<lparr>ph_status = int (rep_status rep), ph_reason = rep_reason rep, ph_headers = reply_headers rep\<rparr>"
  let ?fr = "reply_framing rep"
  note head = reply_head_of [OF assms(1)]
  have "x @ v = (reply_head rep @ crlfcrlf) @ sent_body m rep" using assms(3) by (simp add: final_text_def)
  from beginning_cases [OF this] show ?thesis
  proof (elim disjE exE conjE)
    fix w assume "w \<noteq> []" "reply_head rep @ crlfcrlf = x @ w"
    with head_beginning [OF head] show ?thesis by simp
  next
    fix y assume y: "x = (reply_head rep @ crlfcrlf) @ y" "y @ v = sent_body m rep"
    with assms(4) have sent: "\<not> bodiless m rep" by (auto simp: sent_body_def)
    then have y2: "y @ v = body_bytes (rep_body rep)" using y(2) by (simp add: sent_body_def)
    have final: "\<not> is_interim_status (ph_status ?h)" and s: "ph_status ?h \<noteq> 205"
      using assms(1) by (simp_all add: is_interim_status_def reply_ok_def)
    note kind = reply_body_kind [OF assms(1), of "rep_reason rep" "reply_headers rep"]
    let ?p = "begun m lim ?h ?fr y"
    have run: "process_buffer (start m lim x)
        = (case accept_head (start m lim y) ?h ?fr of Return r p \<Rightarrow> (r, p) | Continue p \<Rightarrow> process_buffer p)"
      using process_start [OF head] by (simp add: y(1))
    show ?thesis
    proof (cases "rep_body rep")
      case (Sized t)
      with y2 have len: "length y < length t" using assms(4) by auto
      with s Sized sent have "process_buffer (start m lim x)
          = process_buffer (?p\<lparr>length_remaining := length t, rp_stage := ContentLengthBody\<rparr>)"
        unfolding run accept_head_final [OF final] kind Let_def by auto
      with len show ?thesis
        by (simp add: process_buffer.simps [of "_\<lparr>rp_stage := ContentLengthBody\<rparr>"] process_turn_def length_turn_def Let_def
            min_def)
    next
      case (Chunks cs)
      with assms(1,2) sent have ok: "[] \<notin> set cs" "length (concat cs) \<le> max_body_bytes lim" "max_body_bytes lim < 2 ^ 64"
          "17 \<le> max_chunk_line_bytes lim" "2 \<le> max_trailer_bytes lim"
        by (auto simp: reply_ok_def body_ok_def line_room_def list_all_iff)
      have "\<exists>d' i out'. decode (mk_decoder lim) y [] = (Inr ChunkNeedMore, d', i, out')"
        using ok y2 assms(4) Chunks by (intro chunks_beginning [of cs]) (auto simp: mk_decoder_def)
      then obtain d' i out' where dec: "decode (mk_decoder lim) y [] = (Inr ChunkNeedMore, d', i, out')" by blast
      from s Chunks sent have "process_buffer (start m lim x) = process_buffer (?p\<lparr>rp_stage := ChunkedBody\<rparr>)"
        unfolding run accept_head_final [OF final] kind Let_def by auto
      with chunked_turn_decode [of "?p\<lparr>rp_stage := ChunkedBody\<rparr>" "Inr ChunkNeedMore" d' i out'] dec show ?thesis
        by (simp add: process_buffer.simps [of "_\<lparr>rp_stage := ChunkedBody\<rparr>"])
    next
      case Absent
      with assms(1) sent show ?thesis by (simp add: reply_ok_def body_ok_def)
    qed
  qed
qed

lemma reply_beginning:
  assumes "reply_ok lim m rep" and "line_room lim m rep" and "x @ v = reply_text m rep" and "v \<noteq> []"
  shows "fst (feed (mk_parser m lim) x) = Inr ParseNeedMore"
proof -
  have "list_all (interim_ok lim) is \<Longrightarrow>
      x @ v = concat (map (\<lambda>i. interim_head i @ crlfcrlf) is) @ final_text m rep \<Longrightarrow>
      fst (process_buffer (start m lim x)) = Inr ParseNeedMore" for "is"
  proof (induction "is" arbitrary: x)
    case Nil
    then show ?case using final_beginning [OF assms(1,2) _ assms(4)] by simp
  next
    case (Cons i "is")
    let ?fr = "empty_framing\<lparr>fr_close_requested := asks_close (int_fields i)\<rparr>"
    from Cons.prems have ok: "interim_ok lim i" by simp
    note head = interim_head_of [OF ok]
    have "x @ v = (interim_head i @ crlfcrlf) @ concat (map (\<lambda>i. interim_head i @ crlfcrlf) is) @ final_text m rep"
      using Cons.prems(2) by simp
    from beginning_cases [OF this] show ?case
    proof (elim disjE exE conjE)
      fix w assume "w \<noteq> []" "interim_head i @ crlfcrlf = x @ w"
      with head_beginning [OF head] show ?thesis by simp
    next
      fix y assume y: "x = (interim_head i @ crlfcrlf) @ y"
        "y @ v = concat (map (\<lambda>i. interim_head i @ crlfcrlf) is) @ final_text m rep"
      have "process_buffer (start m lim x) = process_buffer (start m lim y)"
        using process_start [OF head] accept_head_interim [of _ "start m lim y" ?fr] interim_status [OF ok] y(1)
        by (simp add: empty_framing_def)
      with Cons.IH [OF _ y(2)] Cons.prems(1) show ?thesis by simp
    qed
  qed
  from this [of "rep_interims rep"] assms(1,3) show ?thesis by (simp add: feed_start reply_text_def reply_ok_def)
qed

section \<open>Two readings of one stream\<close>

text \<open>
  A stream that begins with a self-delimited response has no other reading: not from another part of it,
  nor when it is cut anywhere and ends there.
\<close>

lemma text_reading_unique:
  assumes "response_text m lim t r close" "response_text m lim t' r' close'" "t @ u = t' @ u'"
  shows "r = r' \<and> close = close' \<and> t = t'"
  using response_text_complete [OF assms(1), of u] response_text_complete [OF assms(2), of u'] assms(3)
  by (auto simp: done_with_def)

lemma no_close_reading:
  assumes "response_text m lim t r close" and "close_text m lim inp r'"
  shows "inp @ u \<noteq> t @ v"
proof
  assume eq: "inp @ u = t @ v"
  from close_text_complete [OF assms(2)] obtain p1 p2 where
    more: "process_buffer (start m lim inp) = (Inr ParseNeedMore, p1)" and eof: "finish_eof p1 = (Inr ParseComplete, p2)"
    by (auto simp: eof_run_def)
  have "push (start m lim inp) u = start m lim (t @ v)" by (simp add: push_def eq)
  with process_buffer_more [OF more, of u] response_text_complete [OF assms(1), of v]
  have "fst (process_buffer (push p1 u)) = Inr ParseComplete"
    by (auto simp: parser_seen_def split: prod.splits sum.splits)
  moreover have "rp_stage p1 = CloseDelimitedBody"
  proof -
    have "feed (mk_parser m lim) inp = (Inr ParseNeedMore, p1)" using more by (simp add: feed_start)
    from feed_budget [OF this mk_parser_budget(1)] have "\<not> complete p1" by simp
    with eof show ?thesis by (auto simp: finish_eof_def complete_def split: parse_stage.splits)
  qed
  then have "rp_stage (push p1 u) = CloseDelimitedBody" by (simp add: push_def)
  ultimately show False using close_body_run by blast
qed

section \<open>Properties\<close>

text \<open>
  C13: Round trip with a server.  A reply with any interim responses before it, a final status, a reason, any plain
  fields and a body that is sent with its length or in chunks, or not at all where the method or the status says
  so, is read back: same status, reason, fields and content, the bytes behind it are left pending, and the
  connection may be reused unless a \<open>Connection\<close> field of the final head asks for its end.
\<close>

theorem reply_roundtrip:
  assumes "reply_ok lim m rep"
  shows "\<exists>p. feed (mk_parser m lim) (reply_text m rep @ rest) = (Inr ParseComplete, p)
    \<and> take_response p = Some (reply_response m rep) \<and> pending_bytes p = rest
    \<and> connection_reusable p = (\<not> asks_close (rep_fields rep))"
  using response_text_complete [OF reply_is_text [OF assms], of rest]
  by (auto simp: feed_start done_with_def take_response_def connection_reusable_def)

definition demo_rep :: reply
where
  "demo_rep = \<lparr>rep_interims = [\<lparr>int_status = 100, int_reason = ''Continue'', int_fields = []\<rparr>],
     rep_status = 201, rep_reason = ''Created'', rep_fields = [mk_field ''X'' ''a b''],
     rep_body = Chunks [''Wiki'', ''pedia'']\<rparr>"

theorem reply_roundtrip_witness:
  "\<exists>p. feed (mk_parser Post default_limits) (reply_text Post demo_rep @ ''HTTP'') = (Inr ParseComplete, p)
    \<and> take_response p = Some \<lparr>status_code = 201, reason = ''Created'',
         rs_headers = [mk_field ''X'' ''a b'', mk_field ''Transfer-Encoding'' ''chunked''], body = ''Wikipedia''\<rparr>
    \<and> connection_reusable p"
proof -
  have "reply_ok default_limits Post demo_rep" by code_simp
  moreover have "reply_response Post demo_rep = \<lparr>status_code = 201, reason = ''Created'',
      rs_headers = [mk_field ''X'' ''a b'', mk_field ''Transfer-Encoding'' ''chunked''], body = ''Wikipedia''\<rparr>"
    by code_simp
  moreover have "\<not> asks_close (rep_fields demo_rep)" by code_simp
  ultimately show ?thesis using reply_roundtrip [of default_limits Post demo_rep "''HTTP''"] by auto
qed

end
