(* ===== verification/Socket_Platform.thy ===== *)
theory Socket_Platform
  imports Errors
begin

unbundle bit_operations_syntax

text \<open>
  \<open>src/platform/\<close>, the branch for POSIX systems: the owning socket handle, the blocking mode, one
  attempt to send or receive, waiting, connecting with a timeout.

  The operating system is not part of the repository.  It is the parameter \<open>os\<close>: a record of the
  system calls and of the constants of the system headers, over a world of any type \<open>'w\<close>.  A call
  returns its C result and the value of \<open>errno\<close>.  Nothing is assumed of it here.  Beside the world, a
  state keeps a log of the handles that were opened and closed and of the bytes that were sent and
  received, written by the wrappers below; no definition of the program reads it.
\<close>

type_synonym handle = "32 word"

definition kInvalidSocket :: handle
  where "kInvalidSocket = - 1"

text \<open>The bytes of a \<open>sockaddr\<close>; where its family stands in them is a parameter of the system.\<close>

type_synonym sockaddr = string

record addrinfo =
  ai_family :: int
  ai_socktype :: int
  ai_protocol :: int
  ai_addrlen :: nat
  ai_addr :: "sockaddr option"

record addr_hints =
  hint_family :: int
  hint_socktype :: int
  hint_protocol :: int
  hint_flags :: int

record 'w os =
  os_socket :: "int \<Rightarrow> int \<Rightarrow> int \<Rightarrow> 'w \<Rightarrow> handle \<times> int \<times> 'w"
  os_close :: "handle \<Rightarrow> 'w \<Rightarrow> 'w"
  os_getfl :: "handle \<Rightarrow> 'w \<Rightarrow> int \<times> int \<times> 'w"
  os_setfl :: "handle \<Rightarrow> int \<Rightarrow> 'w \<Rightarrow> int \<times> int \<times> 'w"
  os_poll :: "handle \<Rightarrow> int \<Rightarrow> int \<Rightarrow> 'w \<Rightarrow> int \<times> int \<times> 'w"
  os_send :: "handle \<Rightarrow> string \<Rightarrow> int \<Rightarrow> 'w \<Rightarrow> int \<times> int \<times> 'w"
  os_recv :: "handle \<Rightarrow> nat \<Rightarrow> 'w \<Rightarrow> int \<times> int \<times> string \<times> 'w"
  os_connect :: "handle \<Rightarrow> sockaddr \<Rightarrow> nat \<Rightarrow> 'w \<Rightarrow> int \<times> int \<times> 'w"
  os_so_error :: "handle \<Rightarrow> 'w \<Rightarrow> int \<times> int \<times> int \<times> 'w"
  os_now :: "'w \<Rightarrow> int \<times> 'w"
  os_getaddrinfo :: "string \<Rightarrow> string \<Rightarrow> addr_hints \<Rightarrow> 'w \<Rightarrow> int \<times> addrinfo list \<times> 'w"
  os_freeaddrinfo :: "addrinfo list \<Rightarrow> 'w \<Rightarrow> 'w"
  os_inet_pton6 :: "string \<Rightarrow> bool"
  EINTR :: int
  EAGAIN :: int
  EWOULDBLOCK :: int
  EPIPE :: int
  ECONNRESET :: int
  ENOTCONN :: int
  ESHUTDOWN :: int
  EINPROGRESS :: int
  EALREADY :: int
  O_NONBLOCK :: int
  POLLIN :: int
  POLLOUT :: int
  MSG_NOSIGNAL :: int
  AF_UNSPEC :: int
  AF_INET :: int
  AF_INET6 :: int
  SOCK_STREAM :: int
  IPPROTO_TCP :: int
  AI_NUMERICSERV :: int
  sizeof_sockaddr_storage :: nat
  ss_family :: "sockaddr \<Rightarrow> int"

datatype io_event =
    Opened handle
  | Closed handle
  | Sent handle string
  | Received handle string

record 'w sys =
  world :: 'w
  sys_log :: "io_event list"

abbreviation log_event :: "io_event \<Rightarrow> 'w \<Rightarrow> 'w sys \<Rightarrow> 'w sys"
  where "log_event ev w s \<equiv> s\<lparr>world := w, sys_log := sys_log s @ [ev]\<rparr>"

text \<open>\<open>std::chrono::steady_clock::now()\<close>, in nanoseconds.\<close>

definition clock_now :: "'w os \<Rightarrow> 'w sys \<Rightarrow> int \<times> 'w sys"
  where "clock_now os s = (case os_now os (world s) of (t, w) \<Rightarrow> (t, s\<lparr>world := w\<rparr>))"

section \<open>\<open>NativeSocket\<close>\<close>

text \<open>A \<open>NativeSocket\<close> is its handle.\<close>

definition close_native_socket :: "'w os \<Rightarrow> handle \<Rightarrow> 'w sys \<Rightarrow> 'w sys"
  where "close_native_socket os h s = log_event (Closed h) (os_close os h (world s)) s"

definition socket_valid :: "handle \<Rightarrow> bool"
  where "socket_valid h = (h \<noteq> kInvalidSocket)"

definition socket_release :: "handle \<Rightarrow> handle \<times> handle"
  where "socket_release h = (h, kInvalidSocket)"

definition socket_reset :: "'w os \<Rightarrow> handle \<Rightarrow> handle \<Rightarrow> 'w sys \<Rightarrow> handle \<times> 'w sys"
where
  "socket_reset os h replacement s =
     (if h = replacement then (h, s)
      else (replacement, if socket_valid h then close_native_socket os h s else s))"

definition socket_close :: "'w os \<Rightarrow> handle \<Rightarrow> 'w sys \<Rightarrow> handle \<times> 'w sys"
  where "socket_close os h s = socket_reset os h kInvalidSocket s"

definition socket_destroy :: "'w os \<Rightarrow> handle \<Rightarrow> 'w sys \<Rightarrow> 'w sys"
  where "socket_destroy os h s = snd (socket_close os h s)"

text \<open>Move construction: the new socket, and what is left of the old one.\<close>

definition socket_move_construct :: "handle \<Rightarrow> handle \<times> handle"
  where "socket_move_construct other = socket_release other"

text \<open>Move assignment \<open>a = std::move(b)\<close> of two sockets: the new handles of both.\<close>

definition socket_move_assign :: "'w os \<Rightarrow> handle \<Rightarrow> handle \<Rightarrow> 'w sys \<Rightarrow> handle \<times> handle \<times> 'w sys"
where
  "socket_move_assign os a b s =
     (case socket_release b of (h, b') \<Rightarrow> (case socket_reset os a h s of (a', s) \<Rightarrow> (a', b', s)))"

section \<open>Modes\<close>

text \<open>The result is the native code of a failure, or \<open>None\<close> for success.\<close>

definition set_socket_nonblocking :: "'w os \<Rightarrow> handle \<Rightarrow> bool \<Rightarrow> 'w sys \<Rightarrow> int option \<times> 'w sys"
where
  "set_socket_nonblocking os h enabled s =
     (case os_getfl os h (world s) of
        (flags, err, w) \<Rightarrow>
          (let s = s\<lparr>world := w\<rparr>
           in if flags = - 1 then (Some err, s)
              else
                let n = (if enabled then flags OR O_NONBLOCK os else flags AND NOT (O_NONBLOCK os))
                in (case os_setfl os h n (world s) of
                      (r, err, w) \<Rightarrow>
                        (if r = 0 then None else Some err, s\<lparr>world := w\<rparr>))))"

section \<open>Waiting and one attempt of input or output\<close>

datatype wait_status = WaitReady | WaitTimedOut | WaitFailed

definition INT_MAX :: int
  where "INT_MAX = 2 ^ 31 - 1"

definition wait_socket :: "'w os \<Rightarrow> handle \<Rightarrow> int \<Rightarrow> bool \<Rightarrow> 'w sys \<Rightarrow> (wait_status \<times> int) \<times> 'w sys"
where
  "wait_socket os h timeout writable s =
     (if timeout \<le> 0 then ((WaitTimedOut, 0), s)
      else
        let total_ms = max 1 timeout; bounded = min total_ms INT_MAX
        in (case os_poll os h (if writable then POLLOUT os else POLLIN os) bounded (world s) of
              (r, err, w) \<Rightarrow>
                (if r = 0 then (WaitTimedOut, 0) else if r < 0 then (WaitFailed, err) else (WaitReady, 0),
                 s\<lparr>world := w\<rparr>)))"

definition wait_socket_readable :: "'w os \<Rightarrow> handle \<Rightarrow> int \<Rightarrow> 'w sys \<Rightarrow> (wait_status \<times> int) \<times> 'w sys"
  where "wait_socket_readable os h timeout s = wait_socket os h timeout False s"

definition wait_socket_writable :: "'w os \<Rightarrow> handle \<Rightarrow> int \<Rightarrow> 'w sys \<Rightarrow> (wait_status \<times> int) \<times> 'w sys"
  where "wait_socket_writable os h timeout s = wait_socket os h timeout True s"

definition bounded_io_size :: "nat \<Rightarrow> nat"
  where "bounded_io_size n = min n (nat INT_MAX)"

text \<open>\<open>SocketIoAttempt\<close>: the bytes transferred, or -1 with the native code.\<close>

definition send_some :: "'w os \<Rightarrow> handle \<Rightarrow> string \<Rightarrow> 'w sys \<Rightarrow> (int \<times> int) \<times> 'w sys"
where
  "send_some os h data s =
     (let chunk = take (bounded_io_size (length data)) data
      in case os_send os h chunk (MSG_NOSIGNAL os) (world s) of
           (r, err, w) \<Rightarrow>
             if r < 0 then ((- 1, err), s\<lparr>world := w\<rparr>)
             else ((r, 0), log_event (Sent h (take (nat r) chunk)) w s))"

text \<open>The bytes received stand at the front of the caller's buffer, here returned.\<close>

definition receive_some :: "'w os \<Rightarrow> handle \<Rightarrow> nat \<Rightarrow> 'w sys \<Rightarrow> (int \<times> int \<times> string) \<times> 'w sys"
where
  "receive_some os h capacity s =
     (case os_recv os h (bounded_io_size capacity) (world s) of
        (r, err, bytes, w) \<Rightarrow>
          if r < 0 then ((- 1, err, []), s\<lparr>world := w\<rparr>)
          else ((r, 0, bytes), log_event (Received h (take (nat r) bytes)) w s))"

definition socket_error_is_would_block :: "'w os \<Rightarrow> int \<Rightarrow> bool"
  where "socket_error_is_would_block os c = (c = EAGAIN os \<or> c = EWOULDBLOCK os)"

definition socket_error_is_interrupted :: "'w os \<Rightarrow> int \<Rightarrow> bool"
  where "socket_error_is_interrupted os c = (c = EINTR os)"

definition socket_error_is_connection_closed :: "'w os \<Rightarrow> int \<Rightarrow> bool"
where
  "socket_error_is_connection_closed os c =
     (c = EPIPE os \<or> c = ECONNRESET os \<or> c = ENOTCONN os \<or> c = ESHUTDOWN os)"

section \<open>Connecting\<close>

datatype connect_status = Connected | ConnectStatusFailed | ConnectTimedOut

definition connect_in_progress :: "'w os \<Rightarrow> int \<Rightarrow> bool"
  where "connect_in_progress os c = (c = EINPROGRESS os \<or> c = EWOULDBLOCK os \<or> c = EALREADY os)"

definition socket_error_result :: "'w os \<Rightarrow> handle \<Rightarrow> 'w sys \<Rightarrow> (connect_status \<times> int) \<times> 'w sys"
where
  "socket_error_result os h s =
     (case os_so_error os h (world s) of
        (r, e, err, w) \<Rightarrow>
          (if r \<noteq> 0 then (ConnectStatusFailed, err)
           else if e = 0 then (Connected, 0) else (ConnectStatusFailed, e),
           s\<lparr>world := w\<rparr>))"

text \<open>\<open>create_tcp_socket\<close>, where \<open>MSG_NOSIGNAL\<close> is defined: the socket and the native code.\<close>

definition create_tcp_socket :: "'w os \<Rightarrow> int \<Rightarrow> int \<Rightarrow> int \<Rightarrow> 'w sys \<Rightarrow> (handle \<times> int) \<times> 'w sys"
where
  "create_tcp_socket os family socket_type protocol s =
     (case os_socket os family socket_type protocol (world s) of
        (h, err, w) \<Rightarrow>
          if h = kInvalidSocket then ((kInvalidSocket, err), s\<lparr>world := w\<rparr>)
          else ((h, 0), log_event (Opened h) w s))"

definition connect_with_timeout ::
  "'w os \<Rightarrow> handle \<Rightarrow> sockaddr \<Rightarrow> nat \<Rightarrow> int \<Rightarrow> 'w sys \<Rightarrow> (connect_status \<times> int) \<times> 'w sys"
where
  "connect_with_timeout os h address address_size timeout s =
     (if timeout \<le> 0 then ((ConnectTimedOut, 0), s)
      else
        (case set_socket_nonblocking os h True s of
           (Some nc, s) \<Rightarrow> ((ConnectStatusFailed, nc), s)
         | (None, s) \<Rightarrow>
             (case os_connect os h address address_size (world s) of
                (connect_result, err, w) \<Rightarrow>
                  (let s = s\<lparr>world := w\<rparr>
                   in if connect_result = 0 then
                        (case set_socket_nonblocking os h False s of
                           (Some nc, s) \<Rightarrow> ((ConnectStatusFailed, nc), s)
                         | (None, s) \<Rightarrow> ((Connected, 0), s))
                      else if \<not> connect_in_progress os err then ((ConnectStatusFailed, err), s)
                      else
                        (case wait_socket_writable os h timeout s of
                           ((WaitTimedOut, nc), s) \<Rightarrow> ((ConnectTimedOut, nc), s)
                         | ((WaitFailed, nc), s) \<Rightarrow> ((ConnectStatusFailed, nc), s)
                         | ((WaitReady, nc), s) \<Rightarrow>
                             (case socket_error_result os h s of
                                ((Connected, c), s) \<Rightarrow>
                                  (case set_socket_nonblocking os h False s of
                                     (Some nc, s) \<Rightarrow> ((ConnectStatusFailed, nc), s)
                                   | (None, s) \<Rightarrow> ((Connected, c), s))
                              | (result, s) \<Rightarrow> (result, s)))))))"

text \<open>Outside Windows there is no runtime to start: \<open>NetworkRuntimeStatus\<close> is \<open>(ok, native_code)\<close>.\<close>

definition ensure_network_runtime :: "bool \<times> int"
  where "ensure_network_runtime = (True, 0)"

section \<open>System calls and what they leave alone\<close>

text \<open>One system call, whatever its arguments and its result, as a step of the world.\<close>

inductive os_call :: "'w os \<Rightarrow> 'w \<Rightarrow> 'w \<Rightarrow> bool" for os :: "'w os"
where
  call_socket: "os_socket os f t p w = (r, e, w') \<Longrightarrow> os_call os w w'"
| call_close: "os_call os w (os_close os h w)"
| call_getfl: "os_getfl os h w = (r, e, w') \<Longrightarrow> os_call os w w'"
| call_setfl: "os_setfl os h n w = (r, e, w') \<Longrightarrow> os_call os w w'"
| call_poll: "os_poll os h ev t w = (r, e, w') \<Longrightarrow> os_call os w w'"
| call_send: "os_send os h b f w = (r, e, w') \<Longrightarrow> os_call os w w'"
| call_recv: "os_recv os h n w = (r, e, b, w') \<Longrightarrow> os_call os w w'"
| call_connect: "os_connect os h a n w = (r, e, w') \<Longrightarrow> os_call os w w'"
| call_so_error: "os_so_error os h w = (r, v, e, w') \<Longrightarrow> os_call os w w'"
| call_now: "os_now os w = (t, w') \<Longrightarrow> os_call os w w'"
| call_getaddrinfo: "os_getaddrinfo os n p hi w = (r, l, w') \<Longrightarrow> os_call os w w'"
| call_freeaddrinfo: "os_call os w (os_freeaddrinfo os l w)"

text \<open>
  What a piece of the program did: it reached the new world by system calls, and it logged the events
  in between.
\<close>

definition effect :: "'w os \<Rightarrow> 'w sys \<Rightarrow> 'w sys \<Rightarrow> io_event list \<Rightarrow> bool"
where
  "effect os s s' evs \<longleftrightarrow>
     (os_call os)\<^sup>*\<^sup>* (world s) (world s') \<and> sys_log s' = sys_log s @ evs"

named_theorems effects

lemma effect_refl [simp]: "effect os s s []"
  by (simp add: effect_def)

lemma effect_trans [trans]: "effect os s s' a \<Longrightarrow> effect os s' s'' b \<Longrightarrow> effect os s s'' (a @ b)"
  by (auto simp: effect_def)

lemma effect_call: "os_call os (world s) w \<Longrightarrow> effect os s (s\<lparr>world := w\<rparr>) []"
  by (auto simp: effect_def)

lemma effect_event: "os_call os (world s) w \<Longrightarrow> effect os s (log_event ev w s) [ev]"
  by (auto simp: effect_def)

lemma effect_quiet_trans: "effect os s s' [] \<Longrightarrow> effect os s' s'' b \<Longrightarrow> effect os s s'' b"
  by (auto simp: effect_def)

lemma clock_now_effect [effects]: "clock_now os s = (t, s') \<Longrightarrow> effect os s s' []"
  by (auto simp: clock_now_def split: prod.splits intro: effect_call call_now)

lemma close_native_socket_effect: "effect os s (close_native_socket os h s) [Closed h]"
  by (simp add: close_native_socket_def effect_event call_close)

lemma socket_close_effect:
  "socket_close os h s = (h', s') \<Longrightarrow>
     h' = kInvalidSocket \<and> effect os s s' (if socket_valid h then [Closed h] else [])"
  by (auto simp: socket_close_def socket_reset_def socket_valid_def split: if_splits
      intro: close_native_socket_effect)

lemma socket_destroy_effect:
  "effect os s (socket_destroy os h s) (if socket_valid h then [Closed h] else [])"
  using socket_close_effect by (metis prod.collapse socket_destroy_def)

lemma calls_snoc: "os_call os v w \<Longrightarrow> (os_call os)\<^sup>*\<^sup>* u v \<Longrightarrow> (os_call os)\<^sup>*\<^sup>* u w"
  by (rule rtranclp.rtrancl_into_rtrancl)

lemma set_socket_nonblocking_effect [effects]:
  "set_socket_nonblocking os h b s = (r, s') \<Longrightarrow> effect os s s' []"
  unfolding set_socket_nonblocking_def Let_def
  by (auto split: prod.splits if_splits simp: effect_def
      intro: calls_snoc [OF call_setfl] calls_snoc [OF call_getfl])

lemma wait_socket_effect [effects]: "wait_socket os h t b s = (r, s') \<Longrightarrow> effect os s s' []"
  unfolding wait_socket_def Let_def
  by (auto split: prod.splits if_splits intro: effect_call call_poll)

lemma send_some_effect:
  "send_some os h data s = ((n, c), s') \<Longrightarrow>
     effect os s s' (if n < 0 then [] else [Sent h (take (nat n) (take (bounded_io_size (length data)) data))])"
  unfolding send_some_def Let_def
  by (auto split: prod.splits if_splits intro: effect_call effect_event call_send)

lemma receive_some_effect:
  "receive_some os h n s = ((r, c, b), s') \<Longrightarrow>
     effect os s s' (if r < 0 then [] else [Received h (take (nat r) b)])"
  unfolding receive_some_def Let_def
  by (auto split: prod.splits if_splits intro: effect_call effect_event call_recv)

lemma socket_error_result_effect [effects]: "socket_error_result os h s = (r, s') \<Longrightarrow> effect os s s' []"
  unfolding socket_error_result_def
  by (auto split: prod.splits if_splits intro: effect_call call_so_error)

lemma create_tcp_socket_effect:
  "create_tcp_socket os f t p s = ((h, c), s') \<Longrightarrow>
     effect os s s' (if socket_valid h then [Opened h] else [])"
  unfolding create_tcp_socket_def socket_valid_def
  by (auto split: prod.splits if_splits intro: effect_call effect_event call_socket)

lemma effect_world [simp]: "effect os s (s\<lparr>world := w\<rparr>) [] \<longleftrightarrow> (os_call os)\<^sup>*\<^sup>* (world s) w"
  by (simp add: effect_def)

lemma effect_world_call: "effect os s s1 [] \<Longrightarrow> os_call os (world s1) w \<Longrightarrow> effect os s (s1\<lparr>world := w\<rparr>) []"
  by (auto simp: effect_def intro: calls_snoc)

lemma connect_with_timeout_effect [effects]:
  assumes run: "connect_with_timeout os h a n t s = (r, s')"
  shows "effect os s s' []"
proof -
  obtain r1 s1 where 1: "set_socket_nonblocking os h True s = (r1, s1)" by fastforce
  obtain c e w where 2: "os_connect os h a n (world s1) = (c, e, w)" by (metis prod_cases3)
  obtain r3 s3 where 3: "set_socket_nonblocking os h False (s1\<lparr>world := w\<rparr>) = (r3, s3)" by fastforce
  obtain st nc s4 where 4: "wait_socket_writable os h t (s1\<lparr>world := w\<rparr>) = ((st, nc), s4)"
    by (metis prod.collapse)
  obtain st2 c2 s5 where 5: "socket_error_result os h s4 = ((st2, c2), s5)" by (metis prod.collapse)
  obtain r6 s6 where 6: "set_socket_nonblocking os h False s5 = (r6, s6)" by fastforce
  have e1: "effect os s s1 []" using 1 by (rule set_socket_nonblocking_effect)
  have e2: "effect os s (s1\<lparr>world := w\<rparr>) []" using e1 call_connect [OF 2] by (rule effect_world_call)
  have e3: "effect os s s3 []" using e2 set_socket_nonblocking_effect [OF 3] by (rule effect_quiet_trans)
  have e4: "effect os s s4 []"
    using e2 wait_socket_effect [OF 4 [unfolded wait_socket_writable_def]] by (rule effect_quiet_trans)
  have e5: "effect os s s5 []" using e4 socket_error_result_effect [OF 5] by (rule effect_quiet_trans)
  have e6: "effect os s s6 []" using e5 set_socket_nonblocking_effect [OF 6] by (rule effect_quiet_trans)
  have "s' \<in> {s, s1, s1\<lparr>world := w\<rparr>, s3, s4, s5, s6}"
    using run unfolding connect_with_timeout_def Let_def
    by (auto simp: 1 2 3 4 5 6 split: if_splits option.splits wait_status.splits connect_status.splits)
  then show ?thesis using e1 e2 e3 e4 e5 e6 by auto
qed

section \<open>What a log shows\<close>

definition opened_in :: "io_event list \<Rightarrow> handle list"
  where "opened_in evs = concat (map (\<lambda>ev. case ev of Opened h \<Rightarrow> [h] | _ \<Rightarrow> []) evs)"

definition closed_in :: "io_event list \<Rightarrow> handle list"
  where "closed_in evs = concat (map (\<lambda>ev. case ev of Closed h \<Rightarrow> [h] | _ \<Rightarrow> []) evs)"

definition sent_in :: "io_event list \<Rightarrow> string"
  where "sent_in evs = concat (map (\<lambda>ev. case ev of Sent h b \<Rightarrow> b | _ \<Rightarrow> []) evs)"

definition received_in :: "io_event list \<Rightarrow> string"
  where "received_in evs = concat (map (\<lambda>ev. case ev of Received h b \<Rightarrow> b | _ \<Rightarrow> []) evs)"

lemma views_Nil [simp]: "opened_in [] = []" "closed_in [] = []" "sent_in [] = []" "received_in [] = []"
  by (simp_all add: opened_in_def closed_in_def sent_in_def received_in_def)

lemma views_Cons [simp]:
  "opened_in (ev # evs) = (case ev of Opened h \<Rightarrow> [h] | _ \<Rightarrow> []) @ opened_in evs"
  "closed_in (ev # evs) = (case ev of Closed h \<Rightarrow> [h] | _ \<Rightarrow> []) @ closed_in evs"
  "sent_in (ev # evs) = (case ev of Sent h b \<Rightarrow> b | _ \<Rightarrow> []) @ sent_in evs"
  "received_in (ev # evs) = (case ev of Received h b \<Rightarrow> b | _ \<Rightarrow> []) @ received_in evs"
  by (simp_all add: opened_in_def closed_in_def sent_in_def received_in_def)

lemma views_append [simp]:
  "opened_in (a @ b) = opened_in a @ opened_in b" "closed_in (a @ b) = closed_in a @ closed_in b"
  "sent_in (a @ b) = sent_in a @ sent_in b" "received_in (a @ b) = received_in a @ received_in b"
  by (simp_all add: opened_in_def closed_in_def sent_in_def received_in_def)

lemma views_sent [simp]:
  "opened_in (map (Sent h) bs) = []" "closed_in (map (Sent h) bs) = []"
  "sent_in (map (Sent h) bs) = concat bs" "received_in (map (Sent h) bs) = []"
  by (induction bs) simp_all

lemma views_received [simp]:
  "opened_in (map (Received h) bs) = []" "closed_in (map (Received h) bs) = []"
  "sent_in (map (Received h) bs) = []" "received_in (map (Received h) bs) = concat bs"
  by (induction bs) simp_all

end
