(* ===== verification/Transport.thy ===== *)
theory Transport
  imports Socket_Platform
begin

text \<open>
  What \<open>Client\<close> relies on when it uses a connection: the contract of \<open>write_all\<close> and \<open>read_some\<close>.

  \<open>does s s' evs\<close> says that the system went from \<open>s\<close> to \<open>s'\<close> logging \<open>evs\<close>.  A write that succeeds has
  sent its data, one that fails has sent a part and closed the connection.  A read delivers bytes
  and keeps the connection, or closes it; the end of the stream comes without bytes.  \<open>sound\<close> is
  what the provider needs of the system below it for the contents to be right.
\<close>

definition write_codes :: "error_code set"
  where "write_codes = {WriteTimeout, WriteFailed, ConnectionClosed}"

definition read_codes :: "error_code set"
  where "read_codes = {ReadTimeout, ReadFailed, ConnectionClosed}"

lemma io_codes [simp]:
  "WriteTimeout \<in> write_codes" "WriteFailed \<in> write_codes" "ConnectionClosed \<in> write_codes"
  "ReadTimeout \<in> read_codes" "ReadFailed \<in> read_codes" "ConnectionClosed \<in> read_codes"
  by (simp_all add: write_codes_def read_codes_def)

locale transport =
  fixes does :: "'s \<Rightarrow> 's \<Rightarrow> io_event list \<Rightarrow> bool"
    and writes :: "string \<Rightarrow> int \<Rightarrow> handle \<Rightarrow> 's \<Rightarrow> (nat result \<times> handle \<times> 's) option"
    and reads :: "nat \<Rightarrow> int \<Rightarrow> handle \<Rightarrow> 's \<Rightarrow> ((nat \<times> string) result \<times> handle \<times> 's) option"
    and sound :: bool
  assumes does_refl: "does s s []"
    and does_trans: "does s s' xs \<Longrightarrow> does s' s'' ys \<Longrightarrow> does s s'' (xs @ ys)"
    and write_sent: "writes d t h s = Some (Inr n, h', s') \<Longrightarrow> socket_valid h \<Longrightarrow>
      h' = h \<and> (\<exists>bs. does s s' (map (Sent h) bs) \<and> (sound \<longrightarrow> n = length d \<and> concat bs = d))"
    and write_cut: "writes d t h s = Some (Inl e, h', s') \<Longrightarrow> socket_valid h \<Longrightarrow>
      h' = kInvalidSocket \<and> code e \<in> write_codes
      \<and> (\<exists>bs k. does s s' (map (Sent h) bs @ [Closed h]) \<and> (sound \<longrightarrow> concat bs = take k d))"
    and read_got: "reads c t h s = Some (Inr (n, buf), h', s') \<Longrightarrow> socket_valid h \<Longrightarrow> 0 < c \<Longrightarrow>
      h' = h \<and> 0 < n \<and> does s s' [Received h (take n buf)] \<and> (sound \<longrightarrow> length buf = n \<and> n \<le> c)"
    and read_cut: "reads c t h s = Some (Inl e, h', s') \<Longrightarrow> socket_valid h \<Longrightarrow> 0 < c \<Longrightarrow>
      h' = kInvalidSocket \<and> code e \<in> read_codes
      \<and> (\<exists>bs. does s s' (map (Received h) bs @ [Closed h]) \<and> (code e = ConnectionClosed \<longrightarrow> concat bs = []))"

text \<open>A transport with a clock: \<open>remaining d\<close> is the time left before the deadline \<open>d\<close>.\<close>

locale timed_transport = transport does writes reads sound
  for does :: "'s \<Rightarrow> 's \<Rightarrow> io_event list \<Rightarrow> bool"
    and writes :: "string \<Rightarrow> int \<Rightarrow> handle \<Rightarrow> 's \<Rightarrow> (nat result \<times> handle \<times> 's) option"
    and reads :: "nat \<Rightarrow> int \<Rightarrow> handle \<Rightarrow> 's \<Rightarrow> ((nat \<times> string) result \<times> handle \<times> 's) option"
    and sound :: bool +
  fixes remaining :: "int \<Rightarrow> 's \<Rightarrow> int \<times> 's"
  assumes remaining_quiet: "remaining d s = (t, s') \<Longrightarrow> does s s' []"

end
