(* ===== verification/Tcp_Connection.thy ===== *)
theory Tcp_Connection
  imports Transport Char_Conv
begin

text \<open>
  \<open>src/net/\<close>: end points, name resolution and the TCP connection.

  A \<open>TcpConnection\<close> is the handle its socket owns.  The loops of \<open>write_all\<close> and \<open>read_some\<close> are
  \<open>partial_function (option)\<close>: \<open>None\<close> is a loop that never ends.  A point of \<open>steady_clock\<close> is an
  \<open>int\<close> in nanoseconds, a duration an \<open>int\<close> in milliseconds.
\<close>

section \<open>End points\<close>

record endpoint =
  ep_address :: sockaddr
  ep_address_size :: nat
  ep_socket_type :: int
  ep_protocol :: int

text \<open>The storage is zeroed and then overwritten with the first bytes of the address.\<close>

definition mk_endpoint :: "'w os \<Rightarrow> sockaddr option \<Rightarrow> nat \<Rightarrow> int \<Rightarrow> int \<Rightarrow> endpoint"
where
  "mk_endpoint os address address_size socket_type protocol =
     (let zero = replicate (sizeof_sockaddr_storage os) (CHR 0x00)
      in case address of
           Some a \<Rightarrow>
             if address_size \<le> sizeof_sockaddr_storage os then
               \<lparr>ep_address = take address_size a @ drop address_size zero, ep_address_size = address_size,
                ep_socket_type = socket_type, ep_protocol = protocol\<rparr>
             else \<lparr>ep_address = zero, ep_address_size = 0,
                   ep_socket_type = socket_type, ep_protocol = protocol\<rparr>
         | None \<Rightarrow> \<lparr>ep_address = zero, ep_address_size = 0,
                    ep_socket_type = socket_type, ep_protocol = protocol\<rparr>)"

definition endpoint_valid :: "endpoint \<Rightarrow> bool"
  where "endpoint_valid e = (ep_address_size e \<noteq> 0)"

definition endpoint_family :: "'w os \<Rightarrow> endpoint \<Rightarrow> int"
  where "endpoint_family os e = (if endpoint_valid e then ss_family os (ep_address e) else AF_UNSPEC os)"

definition is_ipv4 :: "'w os \<Rightarrow> endpoint \<Rightarrow> bool"
  where "is_ipv4 os e = (endpoint_family os e = AF_INET os)"

definition is_ipv6 :: "'w os \<Rightarrow> endpoint \<Rightarrow> bool"
  where "is_ipv6 os e = (endpoint_family os e = AF_INET6 os)"

section \<open>\<open>Resolver\<close>\<close>

text \<open>The loop over the results of \<open>getaddrinfo\<close>, with the vector built so far.\<close>

fun collect_endpoints :: "'w os \<Rightarrow> endpoint list \<Rightarrow> addrinfo list \<Rightarrow> endpoint list"
where
  "collect_endpoints os endpoints [] = endpoints"
| "collect_endpoints os endpoints (current # rest) =
     (if ai_addr current = None then collect_endpoints os endpoints rest
      else if ai_family current \<noteq> AF_INET os \<and> ai_family current \<noteq> AF_INET6 os
      then collect_endpoints os endpoints rest
      else
        let address_size = ai_addrlen current
        in if address_size = 0 \<or> address_size > sizeof_sockaddr_storage os
           then collect_endpoints os endpoints rest
           else
             let socket_type = (if ai_socktype current \<noteq> 0 then ai_socktype current else SOCK_STREAM os);
                 protocol = (if ai_protocol current \<noteq> 0 then ai_protocol current else IPPROTO_TCP os)
             in collect_endpoints os
                  (endpoints @ [mk_endpoint os (ai_addr current) address_size socket_type protocol]) rest)"

text \<open>The destructor of \<open>AddrInfoPtr\<close>: a list that is not null is given back to the system.\<close>

definition release_addrinfo :: "'w os \<Rightarrow> addrinfo list \<Rightarrow> 'w \<Rightarrow> 'w"
  where "release_addrinfo os results w = (if results \<noteq> [] then os_freeaddrinfo os results w else w)"

definition resolve :: "'w os \<Rightarrow> string \<Rightarrow> uint16 \<Rightarrow> 'w sys \<Rightarrow> endpoint list result \<times> 'w sys"
where
  "resolve os host port s =
     (if host = [] \<or> CHR 0x00 \<in> set host then (fail ResolveFailed, s)
      else if \<not> fst ensure_network_runtime
      then (fail_native ResolveFailed (snd ensure_network_runtime), s)
      else
        let service = to_decimal (unat port)
        in if length service > 5 then (fail ResolveFailed, s)
           else
             let hints = \<lparr>hint_family = AF_UNSPEC os, hint_socktype = SOCK_STREAM os,
                          hint_protocol = IPPROTO_TCP os, hint_flags = AI_NUMERICSERV os\<rparr>
             in (case os_getaddrinfo os host service hints (world s) of
                   (status, results, w) \<Rightarrow>
                     if status \<noteq> 0 then (fail_native ResolveFailed status, s\<lparr>world := w\<rparr>)
                     else
                       let endpoints = collect_endpoints os [] results
                       in (if endpoints = [] then fail ResolveFailed else Inr endpoints,
                           s\<lparr>world := release_addrinfo os results w\<rparr>)))"

section \<open>Connecting\<close>

text \<open>\<open>std::chrono::duration_cast<milliseconds>\<close> of a positive duration.\<close>

definition to_ms :: "int \<Rightarrow> int"
  where "to_ms ns = ns div 1000000"

definition from_ms :: "int \<Rightarrow> int"
  where "from_ms ms = ms * 1000000"

definition remaining_timeout :: "'w os \<Rightarrow> int \<Rightarrow> 'w sys \<Rightarrow> int \<times> 'w sys"
where
  "remaining_timeout os deadline s =
     (case clock_now os s of
        (now, s) \<Rightarrow>
          (if now \<ge> deadline then 0
           else let remaining = to_ms (deadline - now) in if remaining \<le> 0 then 1 else remaining, s))"

record connect_scan =
  created_socket :: bool
  saw_valid_endpoint :: bool
  last_native_error :: int

text \<open>
  One end point: \<open>Inr\<close> of the scan to go on with, or \<open>Inl\<close> of the function's result.  The local
  socket is destroyed where its scope ends.
\<close>

definition try_endpoint ::
  "'w os \<Rightarrow> int \<Rightarrow> connect_scan \<Rightarrow> endpoint \<Rightarrow> 'w sys \<Rightarrow> (handle result + connect_scan) \<times> 'w sys"
where
  "try_endpoint os deadline sc e s =
     (if \<not> endpoint_valid e then (Inr sc, s)
      else
        let sc = sc\<lparr>saw_valid_endpoint := True\<rparr>
        in (case clock_now os s of
              (now, s) \<Rightarrow>
                if now \<ge> deadline then (Inl (fail_native ConnectTimeout (last_native_error sc)), s)
                else
                  (case create_tcp_socket os (endpoint_family os e) (ep_socket_type e) (ep_protocol e) s of
                     ((socket, create_error), s) \<Rightarrow>
                       if \<not> socket_valid socket then
                         (Inr (sc\<lparr>last_native_error := create_error\<rparr>), socket_destroy os socket s)
                       else
                         let sc = sc\<lparr>created_socket := True\<rparr>
                         in (case remaining_timeout os deadline s of
                               (remaining, s) \<Rightarrow>
                                 (case connect_with_timeout os socket (ep_address e) (ep_address_size e) remaining s of
                                    ((status, attempt_code), s) \<Rightarrow>
                                      if status = Connected then
                                        (case socket_release socket of
                                           (moved, socket') \<Rightarrow> (Inl (Inr moved), socket_destroy os socket' s))
                                      else
                                        let sc = sc\<lparr>last_native_error := attempt_code\<rparr>
                                        in (if status = ConnectTimedOut
                                            then Inl (fail_native ConnectTimeout (last_native_error sc))
                                            else Inr sc,
                                            socket_destroy os socket s))))))"

fun connect_loop ::
  "'w os \<Rightarrow> int \<Rightarrow> connect_scan \<Rightarrow> endpoint list \<Rightarrow> 'w sys \<Rightarrow> handle result \<times> 'w sys"
where
  "connect_loop os deadline sc [] s =
     (if \<not> saw_valid_endpoint sc then fail ConnectFailed
      else if \<not> created_socket sc then fail_native SocketCreateFailed (last_native_error sc)
      else fail_native ConnectFailed (last_native_error sc), s)"
| "connect_loop os deadline sc (e # es) s =
     (case try_endpoint os deadline sc e s of
        (Inl r, s) \<Rightarrow> (r, s)
      | (Inr sc, s) \<Rightarrow> connect_loop os deadline sc es s)"

definition tcp_connect :: "'w os \<Rightarrow> endpoint list \<Rightarrow> int \<Rightarrow> 'w sys \<Rightarrow> handle result \<times> 'w sys"
where
  "tcp_connect os endpoints timeout s =
     (if timeout \<le> 0 then (fail ConnectTimeout, s)
      else if endpoints = [] then (fail ConnectFailed, s)
      else if \<not> fst ensure_network_runtime
      then (fail_native SocketCreateFailed (snd ensure_network_runtime), s)
      else
        (case clock_now os s of
           (now, s) \<Rightarrow>
             connect_loop os (now + from_ms timeout)
               \<lparr>created_socket = False, saw_valid_endpoint = False, last_native_error = 0\<rparr> endpoints s))"

definition adopt_native_handle :: "handle \<Rightarrow> handle"
  where "adopt_native_handle h = h"

definition connected :: "handle \<Rightarrow> bool"
  where "connected h = socket_valid h"

definition release_native_handle :: "handle \<Rightarrow> handle \<times> handle"
  where "release_native_handle h = socket_release h"

definition tcp_close :: "'w os \<Rightarrow> handle \<Rightarrow> 'w sys \<Rightarrow> handle \<times> 'w sys"
  where "tcp_close os h s = socket_close os h s"

text \<open>\<open>close(); return Error{...};\<close>\<close>

definition close_and_fail :: "'w os \<Rightarrow> error \<Rightarrow> handle \<Rightarrow> 'w sys \<Rightarrow> 'a result \<times> handle \<times> 'w sys"
  where "close_and_fail os e h s = (case tcp_close os h s of (h, s) \<Rightarrow> (Inl e, h, s))"

text \<open>One turn of a loop ends the call or goes on with the loop's variables.\<close>

datatype ('r, 'k) io_turn = Finished 'r | Again 'k

section \<open>\<open>write_all\<close>\<close>

definition write_turn ::
  "'w os \<Rightarrow> string \<Rightarrow> int \<Rightarrow> handle \<Rightarrow> nat \<Rightarrow> 'w sys \<Rightarrow> (nat result \<times> handle \<times> 'w sys, nat \<times> 'w sys) io_turn"
where
  "write_turn os data deadline h total_written s =
     (case clock_now os s of
        (now, s) \<Rightarrow>
          if now \<ge> deadline then Finished (close_and_fail os (mk_error WriteTimeout) h s)
          else
            (case send_some os h (drop total_written data) s of
               ((transferred, nc), s) \<Rightarrow>
                 if transferred > 0 then Again (total_written + nat transferred, s)
                 else if transferred = 0 then Finished (close_and_fail os (mk_error ConnectionClosed) h s)
                 else if socket_error_is_interrupted os nc then Again (total_written, s)
                 else if socket_error_is_connection_closed os nc
                 then Finished (close_and_fail os \<lparr>code = ConnectionClosed, native_code = nc\<rparr> h s)
                 else if \<not> socket_error_is_would_block os nc
                 then Finished (close_and_fail os \<lparr>code = WriteFailed, native_code = nc\<rparr> h s)
                 else
                   (case remaining_timeout os deadline s of
                      (remaining, s) \<Rightarrow>
                        if remaining \<le> 0 then Finished (close_and_fail os (mk_error WriteTimeout) h s)
                        else
                          (case wait_socket_writable os h remaining s of
                             ((status, wc), s) \<Rightarrow>
                               if status = WaitReady then Again (total_written, s)
                               else if status = WaitFailed \<and> socket_error_is_interrupted os wc
                               then Again (total_written, s)
                               else if status = WaitTimedOut
                               then Finished (close_and_fail os \<lparr>code = WriteTimeout, native_code = wc\<rparr> h s)
                               else if socket_error_is_connection_closed os wc
                               then Finished (close_and_fail os \<lparr>code = ConnectionClosed, native_code = wc\<rparr> h s)
                               else Finished (close_and_fail os \<lparr>code = WriteFailed, native_code = wc\<rparr> h s)))))"

definition write_finish :: "'w os \<Rightarrow> handle \<Rightarrow> nat \<Rightarrow> 'w sys \<Rightarrow> nat result \<times> handle \<times> 'w sys"
where
  "write_finish os h total_written s =
     (case set_socket_nonblocking os h False s of
        (Some nc, s) \<Rightarrow> close_and_fail os \<lparr>code = WriteFailed, native_code = nc\<rparr> h s
      | (None, s) \<Rightarrow> (Inr total_written, h, s))"

partial_function (option) write_loop ::
  "'w os \<Rightarrow> string \<Rightarrow> int \<Rightarrow> handle \<Rightarrow> nat \<Rightarrow> 'w sys \<Rightarrow> (nat result \<times> handle \<times> 'w sys) option"
where
  "write_loop os data deadline h total_written s =
     (if total_written < length data then
        (case write_turn os data deadline h total_written s of
           Finished r \<Rightarrow> Some r
         | Again k \<Rightarrow> write_loop os data deadline h (fst k) (snd k))
      else Some (write_finish os h total_written s))"

definition write_all :: "'w os \<Rightarrow> string \<Rightarrow> int \<Rightarrow> handle \<Rightarrow> 'w sys \<Rightarrow> (nat result \<times> handle \<times> 'w sys) option"
where
  "write_all os data timeout h s =
     (if \<not> connected h then Some (fail ConnectionClosed, h, s)
      else if data = [] then Some (Inr 0, h, s)
      else if timeout \<le> 0 then Some (close_and_fail os (mk_error WriteTimeout) h s)
      else
        (case set_socket_nonblocking os h True s of
           (Some nc, s) \<Rightarrow> Some (close_and_fail os \<lparr>code = WriteFailed, native_code = nc\<rparr> h s)
         | (None, s) \<Rightarrow>
             (case clock_now os s of
                (now, s) \<Rightarrow> write_loop os data (now + from_ms timeout) h 0 s)))"

section \<open>\<open>read_some\<close>\<close>

text \<open>The value is the count; beside it stand the contents of the caller's buffer.\<close>

type_synonym 'w read_outcome = "(nat \<times> string) result \<times> handle \<times> 'w sys"

definition read_finish :: "'w os \<Rightarrow> handle \<Rightarrow> int \<Rightarrow> string \<Rightarrow> 'w sys \<Rightarrow> 'w read_outcome"
where
  "read_finish os h transferred buffer s =
     (case set_socket_nonblocking os h False s of
        (Some nc, s) \<Rightarrow> close_and_fail os \<lparr>code = ReadFailed, native_code = nc\<rparr> h s
      | (None, s) \<Rightarrow> (Inr (nat transferred, buffer), h, s))"

definition read_turn :: "'w os \<Rightarrow> nat \<Rightarrow> int \<Rightarrow> handle \<Rightarrow> 'w sys \<Rightarrow> ('w read_outcome, 'w sys) io_turn"
where
  "read_turn os capacity deadline h s =
     (case clock_now os s of
        (now, s) \<Rightarrow>
          if now \<ge> deadline then Finished (close_and_fail os (mk_error ReadTimeout) h s)
          else
            (case receive_some os h capacity s of
               ((transferred, nc, buffer), s) \<Rightarrow>
                 if transferred > 0 then Finished (read_finish os h transferred buffer s)
                 else if transferred = 0 then Finished (close_and_fail os (mk_error ConnectionClosed) h s)
                 else if socket_error_is_interrupted os nc then Again s
                 else if socket_error_is_connection_closed os nc
                 then Finished (close_and_fail os \<lparr>code = ConnectionClosed, native_code = nc\<rparr> h s)
                 else if \<not> socket_error_is_would_block os nc
                 then Finished (close_and_fail os \<lparr>code = ReadFailed, native_code = nc\<rparr> h s)
                 else
                   (case remaining_timeout os deadline s of
                      (remaining, s) \<Rightarrow>
                        if remaining \<le> 0 then Finished (close_and_fail os (mk_error ReadTimeout) h s)
                        else
                          (case wait_socket_readable os h remaining s of
                             ((status, wc), s) \<Rightarrow>
                               if status = WaitReady then Again s
                               else if status = WaitFailed \<and> socket_error_is_interrupted os wc then Again s
                               else if status = WaitTimedOut
                               then Finished (close_and_fail os \<lparr>code = ReadTimeout, native_code = wc\<rparr> h s)
                               else if socket_error_is_connection_closed os wc
                               then Finished (close_and_fail os \<lparr>code = ConnectionClosed, native_code = wc\<rparr> h s)
                               else Finished (close_and_fail os \<lparr>code = ReadFailed, native_code = wc\<rparr> h s)))))"

partial_function (option) read_loop ::
  "'w os \<Rightarrow> nat \<Rightarrow> int \<Rightarrow> handle \<Rightarrow> 'w sys \<Rightarrow> 'w read_outcome option"
where
  "read_loop os capacity deadline h s =
     (case read_turn os capacity deadline h s of
        Finished r \<Rightarrow> Some r
      | Again s \<Rightarrow> read_loop os capacity deadline h s)"

text \<open>The second argument tells whether the buffer is \<open>nullptr\<close>.\<close>

definition read_some :: "'w os \<Rightarrow> bool \<Rightarrow> nat \<Rightarrow> int \<Rightarrow> handle \<Rightarrow> 'w sys \<Rightarrow> 'w read_outcome option"
where
  "read_some os null_buffer capacity timeout h s =
     (if \<not> connected h then Some (fail ConnectionClosed, h, s)
      else if capacity = 0 then Some (Inr (0, []), h, s)
      else if null_buffer then Some (fail ReadFailed, h, s)
      else if timeout \<le> 0 then Some (close_and_fail os (mk_error ReadTimeout) h s)
      else
        (case set_socket_nonblocking os h True s of
           (Some nc, s) \<Rightarrow> Some (close_and_fail os \<lparr>code = ReadFailed, native_code = nc\<rparr> h s)
         | (None, s) \<Rightarrow>
             (case clock_now os s of
                (now, s) \<Rightarrow> read_loop os capacity (now + from_ms timeout) h s)))"

section \<open>What connecting does\<close>

lemma remaining_timeout_effect [effects]: "remaining_timeout os d s = (t, s') \<Longrightarrow> effect os s s' []"
  unfolding remaining_timeout_def by (auto split: prod.splits dest: clock_now_effect)

text \<open>The log of attempts that failed: each socket is closed before the next is opened.\<close>

definition attempts :: "handle list \<Rightarrow> io_event list"
  where "attempts hs = concat (map (\<lambda>h. [Opened h, Closed h]) hs)"

lemma attempts_simps [simp]:
  "attempts [] = []" "attempts (h # hs) = Opened h # Closed h # attempts hs"
  "attempts (a @ b) = attempts a @ attempts b"
  by (simp_all add: attempts_def)

definition connect_codes :: "error_code set"
  where "connect_codes = {ConnectTimeout, ConnectFailed, SocketCreateFailed}"

lemma try_endpoint_effect:
  assumes run: "try_endpoint os d sc e s = (r, s')"
  shows "(\<exists>h. r = Inl (Inr h) \<and> socket_valid h \<and> effect os s s' [Opened h])
     \<or> (\<exists>hs. length hs \<le> 1 \<and> effect os s s' (attempts hs)
            \<and> (\<forall>x. r = Inl x \<longrightarrow> (\<exists>err. x = Inl err \<and> code err = ConnectTimeout)))"
proof -
  obtain t s1 where "1": "clock_now os s = (t, s1)" by fastforce
  obtain h c s2 where 2: "create_tcp_socket os (endpoint_family os e) (ep_socket_type e) (ep_protocol e) s1 = ((h, c), s2)"
    by (metis prod.collapse)
  obtain tm s3 where 3: "remaining_timeout os d s2 = (tm, s3)" by fastforce
  obtain st nc s4 where 4: "connect_with_timeout os h (ep_address e) (ep_address_size e) tm s3 = ((st, nc), s4)"
    by (metis prod.collapse)
  have e1: "effect os s s1 []" using 1 by (rule effects)
  have e2: "effect os s s2 (if socket_valid h then [Opened h] else [])"
    using e1 create_tcp_socket_effect [OF 2] by (rule effect_quiet_trans)
  have "effect os s2 s4 []"
    using remaining_timeout_effect [OF 3] connect_with_timeout_effect [OF 4] by (rule effect_quiet_trans)
  with e2 have e4: "effect os s s4 (if socket_valid h then [Opened h] else [])"
    by (metis append_Nil2 effect_trans)
  have e5: "socket_valid h \<Longrightarrow> effect os s (socket_destroy os h s4) (attempts [h])"
    using effect_trans [OF e4 socket_destroy_effect, of h] by simp
  have released: "socket_release h = (h, kInvalidSocket)" "socket_destroy os kInvalidSocket s4 = s4"
    by (simp_all add: socket_release_def socket_destroy_def socket_close_def socket_reset_def)
  show ?thesis
  proof (cases "endpoint_valid e \<and> t < d")
    case False
    then have "s' \<in> {s, s1}" "\<forall>x. r = Inl x \<longrightarrow> (\<exists>err. x = Inl err \<and> code err = ConnectTimeout)"
      using run unfolding try_endpoint_def Let_def by (auto simp: 1 split: if_splits)
    with e1 have "effect os s s' (attempts [])" by auto
    with \<open>\<forall>x. _\<close> show ?thesis by (metis le_numeral_extra(3) list.size(3) zero_le_one)
  next
    case valid: True
    show ?thesis
    proof (cases "socket_valid h")
      case False
      then have "s' = s2" "\<exists>sc'. r = Inr sc'"
        using run valid unfolding try_endpoint_def Let_def
        by (auto simp: 1 2 socket_destroy_def socket_close_def socket_reset_def split: if_splits)
      with e2 False have "effect os s s' (attempts [])" by simp
      with \<open>\<exists>sc'. _\<close> show ?thesis by (metis Inl_Inr_False le_numeral_extra(3) list.size(3) zero_le_one)
    next
      case True
      show ?thesis
      proof (cases "st = Connected")
        case conn: True
        then have "r = Inl (Inr h)" "s' = s4"
          using run valid True unfolding try_endpoint_def Let_def
          by (simp_all add: 1 2 3 4 released)
        with e4 True show ?thesis by simp
      next
        case False
        then have "s' = socket_destroy os h s4"
          "\<forall>x. r = Inl x \<longrightarrow> (\<exists>err. x = Inl err \<and> code err = ConnectTimeout)"
          using run valid True unfolding try_endpoint_def Let_def
          by (auto simp: 1 2 3 4 split: if_splits)
        with e5 [OF True] show ?thesis by (intro disjI2 exI [of _ "[h]"]) simp
      qed
    qed
  qed
qed

lemma connect_loop_effect:
  assumes "connect_loop os d sc es s = (r, s')"
  shows "\<exists>hs. length hs \<le> length es
     \<and> effect os s s' (attempts hs @ (case r of Inl err \<Rightarrow> [] | Inr h \<Rightarrow> [Opened h]))
     \<and> (case r of Inl err \<Rightarrow> code err \<in> connect_codes | Inr h \<Rightarrow> socket_valid h)"
  using assms
proof (induction es arbitrary: sc s)
  case Nil
  then show ?case by (intro exI [of _ "[]"]) (auto simp: connect_codes_def split: if_splits)
next
  case (Cons e es)
  obtain x s1 where x: "try_endpoint os d sc e s = (x, s1)" by fastforce
  note step = try_endpoint_effect [OF x]
  show ?case
  proof (cases x)
    case (Inl r')
    with Cons.prems x have eq: "r = r'" "s' = s1" by simp_all
    from step show ?thesis
    proof (elim disjE exE conjE)
      fix h assume "x = Inl (Inr h)" "socket_valid h" "effect os s s1 [Opened h]"
      with Inl eq have "r = Inr h" by simp
      with \<open>socket_valid h\<close> \<open>effect os s s1 [Opened h]\<close> show ?thesis
        unfolding \<open>r = Inr h\<close> eq(2) by (intro exI [of _ "[]"]) simp
    next
      fix hs :: "handle list"
      assume hs: "length hs \<le> 1" "effect os s s1 (attempts hs)"
        and "\<forall>x'. x = Inl x' \<longrightarrow> (\<exists>err. x' = Inl err \<and> code err = ConnectTimeout)"
      with Inl eq obtain err where "r = Inl err" "code err = ConnectTimeout" by auto
      with hs show ?thesis
        unfolding \<open>r = Inl err\<close> eq(2) by (intro exI [of _ hs]) (simp add: connect_codes_def)
    qed
  next
    case (Inr sc')
    with Cons.prems x have rest: "connect_loop os d sc' es s1 = (r, s')" by simp
    from step Inr obtain hs where hs: "length hs \<le> 1" "effect os s s1 (attempts hs)" by auto
    from Cons.IH [OF rest] obtain hs' where
      "length hs' \<le> length es"
      "effect os s1 s' (attempts hs' @ (case r of Inl err \<Rightarrow> [] | Inr h \<Rightarrow> [Opened h]))"
      "case r of Inl err \<Rightarrow> code err \<in> connect_codes | Inr h \<Rightarrow> socket_valid h" by blast
    with hs effect_trans [OF hs(2) this(2)] show ?thesis
      by (intro exI [of _ "hs @ hs'"]) simp
  qed
qed

lemma tcp_connect_effect:
  assumes "tcp_connect os es tm s = (r, s')"
  shows "\<exists>hs. length hs \<le> length es
     \<and> effect os s s' (attempts hs @ (case r of Inl err \<Rightarrow> [] | Inr h \<Rightarrow> [Opened h]))
     \<and> (case r of Inl err \<Rightarrow> code err \<in> connect_codes | Inr h \<Rightarrow> socket_valid h)"
proof (cases "tm \<le> 0 \<or> es = []")
  case True
  with assms show ?thesis
    by (intro exI [of _ "[]"]) (auto simp: tcp_connect_def connect_codes_def ensure_network_runtime_def split: if_splits)
next
  case False
  obtain t s1 where "1": "clock_now os s = (t, s1)" by fastforce
  with False assms have "connect_loop os (t + from_ms tm)
      \<lparr>created_socket = False, saw_valid_endpoint = False, last_native_error = 0\<rparr> es s1 = (r, s')"
    by (simp add: tcp_connect_def ensure_network_runtime_def)
  from connect_loop_effect [OF this] clock_now_effect [OF 1] show ?thesis
    by (blast intro: effect_quiet_trans)
qed

lemma looked_up_calls:
  "os_getaddrinfo os n p hi w = (r, l, w') \<Longrightarrow> (os_call os)\<^sup>*\<^sup>* w (os_freeaddrinfo os l w')"
  by (rule calls_snoc [OF call_freeaddrinfo calls_snoc [OF call_getaddrinfo rtranclp.rtrancl_refl]])

lemma resolve_effect: "resolve os host port s = (r, s') \<Longrightarrow> effect os s s' []"
  unfolding resolve_def Let_def
  by (auto simp: release_addrinfo_def split: prod.splits if_splits
      intro: looked_up_calls calls_snoc [OF call_getaddrinfo])

section \<open>What writing does\<close>

lemma close_and_fail_effect:
  "close_and_fail os e h s = (r, h', s') \<Longrightarrow>
     r = Inl e \<and> h' = kInvalidSocket \<and> effect os s s' (if socket_valid h then [Closed h] else [])"
  by (auto simp: close_and_fail_def tcp_close_def split: prod.splits dest: socket_close_effect)

text \<open>Every end of a loop that is not a success closes the connection.\<close>

definition shut :: "'w os \<Rightarrow> error_code set \<Rightarrow> handle \<Rightarrow> 'w sys \<Rightarrow> io_event list \<Rightarrow> 'a result \<times> handle \<times> 'w sys \<Rightarrow> bool"
where
  "shut os cs h s evs r \<longleftrightarrow>
     (\<exists>e. fst r = Inl e \<and> code e \<in> cs) \<and> fst (snd r) = kInvalidSocket
     \<and> effect os s (snd (snd r)) (evs @ [Closed h])"

lemma shutI:
  assumes "effect os s s1 evs" "socket_valid h" "code e \<in> cs"
  shows "shut os cs h s evs (close_and_fail os e h s1 :: 'a result \<times> handle \<times> 'w sys)"
proof -
  obtain r h' s' where r: "(close_and_fail os e h s1 :: 'a result \<times> _) = (r, h', s')" by (metis prod_cases3)
  from close_and_fail_effect [OF r] assms show ?thesis
    by (auto simp: shut_def r intro: effect_trans)
qed

lemma write_turn_effect:
  assumes h: "socket_valid h"
  shows "case write_turn os data d h n s of
           Finished r \<Rightarrow> shut os write_codes h s [] r \<or> shut os write_codes h s [Sent h []] r
         | Again (n', s') \<Rightarrow>
             (n' = n \<and> effect os s s' [])
             \<or> (\<exists>k. n' = n + k \<and> 0 < k
                   \<and> effect os s s' [Sent h (take k (take (bounded_io_size (length data - n)) (drop n data)))])"
proof -
  obtain t s1 where "1": "clock_now os s = (t, s1)" by fastforce
  obtain k nc s2 where 2: "send_some os h (drop n data) s1 = ((k, nc), s2)" by (metis prod.collapse)
  obtain tm s3 where 3: "remaining_timeout os d s2 = (tm, s3)" by fastforce
  obtain st wc s4 where 4: "wait_socket_writable os h tm s3 = ((st, wc), s4)" by (metis prod.collapse)
  have e1: "effect os s s1 []" using 1 by (rule clock_now_effect)
  have e2: "effect os s s2 (if k < 0 then [] else [Sent h (take (nat k) (take (bounded_io_size (length data - n)) (drop n data)))])"
    using effect_quiet_trans [OF e1 send_some_effect [OF 2]] by (simp split: if_splits)
  have e3: "k < 0 \<Longrightarrow> effect os s s3 []"
    using e2 remaining_timeout_effect [OF 3] by (auto intro: effect_quiet_trans)
  have e4: "k < 0 \<Longrightarrow> effect os s s4 []"
    using e3 wait_socket_effect [OF 4 [unfolded wait_socket_writable_def]] by (auto intro: effect_quiet_trans)
  have zero: "k = 0 \<Longrightarrow> effect os s s2 [Sent h []]" using e2 by simp
  note fin = shutI [OF _ h, where cs = write_codes]
  consider "t \<ge> d" | "t < d" "k > 0" | "t < d" "k = 0" | "t < d" "k < 0" by linarith
  then show ?thesis
  proof cases
    case 1
    with \<open>clock_now os s = (t, s1)\<close> show ?thesis
      by (simp add: write_turn_def fin [OF e1])
  next
    case 2
    with \<open>clock_now os s = (t, s1)\<close> \<open>send_some os h (drop n data) s1 = ((k, nc), s2)\<close> e2 show ?thesis
      by (simp add: write_turn_def del: take_take)
  next
    case 3
    with \<open>clock_now os s = (t, s1)\<close> \<open>send_some os h (drop n data) s1 = ((k, nc), s2)\<close> show ?thesis
      by (simp add: write_turn_def fin [OF zero])
  next
    case 4
    then have neg: "\<not> t \<ge> d" "\<not> k > 0" "k \<noteq> 0" by simp_all
    show ?thesis
      unfolding write_turn_def \<open>clock_now os s = (t, s1)\<close> \<open>send_some os h (drop n data) s1 = ((k, nc), s2)\<close>
        \<open>remaining_timeout os d s2 = (tm, s3)\<close> \<open>wait_socket_writable os h tm s3 = ((st, wc), s4)\<close>
        prod.case if_not_P [OF neg(1)] if_not_P [OF neg(2)] if_not_P [OF neg(3)]
      using e2 e3 e4 4
      by (simp add: fin del: take_take)
  qed
qed

text \<open>
  The documented behaviour of \<open>send\<close> and \<open>recv\<close>: no more bytes than asked for, and as many bytes in
  the buffer as the result says.
\<close>

definition sane_io :: "'w os \<Rightarrow> bool"
where
  "sane_io os \<longleftrightarrow>
     (\<forall>h b f w. fst (os_send os h b f w) \<le> int (length b))
     \<and> (\<forall>h n w. case os_recv os h n w of
                  (r, e, b, w') \<Rightarrow> r \<ge> 0 \<longrightarrow> length b = nat r \<and> nat r \<le> n)"

lemma bounded_io_size_le: "bounded_io_size n \<le> n"
  by (simp add: bounded_io_size_def)

lemma send_some_bound:
  assumes "sane_io os" "send_some os h data s = ((k, nc), s')"
  shows "k \<le> int (bounded_io_size (length data))"
proof -
  have "fst (os_send os h (take (bounded_io_size (length data)) data) (MSG_NOSIGNAL os) (world s))
      \<le> int (bounded_io_size (length data))"
    using assms(1) unfolding sane_io_def by (metis length_take min.absorb2 bounded_io_size_le)
  then show ?thesis
    using assms(2) unfolding send_some_def Let_def by (auto split: prod.splits if_splits)
qed

lemma write_turn_again:
  assumes h: "socket_valid h" and turn: "write_turn os data d h n s = Again (n', s')"
  shows "n' = n \<and> effect os s s' [] \<or>
     (\<exists>b. effect os s s' [Sent h b]
        \<and> (sane_io os \<longrightarrow> n \<le> length data \<longrightarrow> n' \<le> length data \<and> b @ drop n' data = drop n data))"
proof -
  obtain t s1 where 1: "clock_now os s = (t, s1)" by fastforce
  obtain k nc s2 where 2: "send_some os h (drop n data) s1 = ((k, nc), s2)" by (metis prod.collapse)
  have n': "n' = n \<or> n' = n + nat k"
    using turn by (auto simp: write_turn_def 1 2 Let_def split: if_splits prod.splits)
  let ?B = "bounded_io_size (length data - n)"
  have le: "n' \<le> n + ?B" if "sane_io os"
    using send_some_bound [OF that 2] n' by auto
  from write_turn_effect [OF h, where os = os and data = data and d = d and n = n and s = s] turn
  consider "n' = n" "effect os s s' []"
    | j where "n' = n + j" "effect os s s' [Sent h (take j (take ?B (drop n data)))]"
    by (auto simp del: take_take)
  then show ?thesis
  proof cases
    case (2 j)
    have "n' \<le> length data \<and> take j (take ?B (drop n data)) @ drop n' data = drop n data"
      if "sane_io os" "n \<le> length data"
    proof
      show "n' \<le> length data" using le [OF that(1)] that(2) bounded_io_size_le [of "length data - n"] by linarith
      have "take j (take ?B (drop n data)) = take j (drop n data)" using le [OF that(1)] 2(1) by simp
      then show "take j (take ?B (drop n data)) @ drop n' data = drop n data"
        using 2(1) by (metis append_take_drop_id drop_drop add.commute)
    qed
    with 2(2) show ?thesis by blast
  qed blast
qed

text \<open>
  The outcome of writing \<open>data\<close>: all of it was sent on the connection, which stays open; or a prefix
  was, and the connection was closed.
\<close>

definition write_outcome :: "'w os \<Rightarrow> string \<Rightarrow> nat \<Rightarrow> handle \<Rightarrow> 'w sys \<Rightarrow> nat result \<times> handle \<times> 'w sys \<Rightarrow> bool"
where
  "write_outcome os data m h s r \<longleftrightarrow>
     (\<exists>n bs s'. r = (Inr n, h, s') \<and> effect os s s' (map (Sent h) bs)
        \<and> (sane_io os \<longrightarrow> n = m \<and> concat bs = data))
     \<or> (\<exists>bs k. shut os write_codes h s (map (Sent h) bs) r \<and> (sane_io os \<longrightarrow> concat bs = take k data))"

lemma write_outcome_done:
  "effect os s s' (map (Sent h) bs) \<Longrightarrow> (sane_io os \<Longrightarrow> n = m \<and> concat bs = data) \<Longrightarrow>
     write_outcome os data m h s (Inr n, h, s')"
  unfolding write_outcome_def by blast

lemma write_outcome_cut:
  "shut os write_codes h s (map (Sent h) bs) r \<Longrightarrow> (sane_io os \<Longrightarrow> concat bs = take k data) \<Longrightarrow>
     write_outcome os data m h s r"
  unfolding write_outcome_def by blast

lemma write_outcome_more:
  assumes r: "write_outcome os (drop n data) m h s1 r" and e: "effect os s s1 [Sent h b]"
    and b: "sane_io os \<Longrightarrow> b @ drop n data = data'"
  shows "write_outcome os data' m h s r"
  using r unfolding write_outcome_def [of os "drop n data"]
proof (elim disjE exE conjE)
  fix j bs s'
  assume bs: "r = (Inr j, h, s')" "effect os s1 s' (map (Sent h) bs)"
    "sane_io os \<longrightarrow> j = m \<and> concat bs = drop n data"
  have "effect os s s' (map (Sent h) (b # bs))" using effect_trans [OF e bs(2)] by simp
  moreover have "sane_io os \<Longrightarrow> j = m \<and> concat (b # bs) = data'" using bs(3) b by auto
  ultimately show ?thesis unfolding bs(1) by (rule write_outcome_done)
next
  fix bs k
  assume sh: "shut os write_codes h s1 (map (Sent h) bs) r"
    and bs: "sane_io os \<longrightarrow> concat bs = take k (drop n data)"
  have "shut os write_codes h s (map (Sent h) (b # bs)) r"
    using sh effect_trans [OF e] by (auto simp: shut_def)
  moreover have "concat (b # bs) = take (length b + k) data'" if "sane_io os"
    using bs b [OF that] that by auto
  ultimately show ?thesis by (rule write_outcome_cut)
qed

lemma shut_quiet: "effect os s s1 [] \<Longrightarrow> shut os cs h s1 evs r \<Longrightarrow> shut os cs h s evs r"
  by (auto simp: shut_def intro: effect_quiet_trans)

lemma write_outcome_quiet: "effect os s s1 [] \<Longrightarrow> write_outcome os data m h s1 r \<Longrightarrow> write_outcome os data m h s r"
  unfolding write_outcome_def by (blast intro: shut_quiet effect_quiet_trans)

lemma write_finish_outcome:
  assumes h: "socket_valid h" and n: "sane_io os \<Longrightarrow> n = m \<and> data = []"
  shows "write_outcome os data m h s (write_finish os h n s)"
proof -
  obtain r s1 where 1: "set_socket_nonblocking os h False s = (r, s1)" by fastforce
  note e = set_socket_nonblocking_effect [OF 1]
  show ?thesis
  proof (cases r)
    case None
    with 1 e n show ?thesis
      by (auto simp: write_finish_def intro!: write_outcome_done [where bs = "[]"])
  next
    case (Some c)
    have "shut os write_codes h s (map (Sent h) []) (write_finish os h n s)"
      unfolding write_finish_def 1 Some by (simp add: shutI [OF e h])
    then show ?thesis by (rule write_outcome_cut [where k = 0]) simp
  qed
qed

lemma write_loop_outcome:
  assumes "write_loop os data d h n s = Some r" "socket_valid h" "sane_io os \<longrightarrow> n \<le> length data"
  shows "write_outcome os (drop n data) (length data) h s r"
  using assms(2-)
proof (induction rule: write_loop.raw_induct [OF _ assms(1)])
  case (1 loop os data d h n s r)
  note IH = 1(1) and run = 1(2) and h = 1(3) and n = 1(4)
  show ?case
  proof (cases "n < length data")
    case False
    then have "sane_io os \<Longrightarrow> n = length data \<and> drop n data = []" using n by auto
    then have "write_outcome os (drop n data) (length data) h s (write_finish os h n s)"
      by (intro write_finish_outcome h) simp
    with run False show ?thesis by simp
  next
    case True
    show ?thesis
    proof (cases "write_turn os data d h n s")
      case (Finished r')
      with run True have "r = r'" by simp
      with write_turn_effect [OF h, where os = os and data = data and d = d and n = n and s = s] Finished
      consider "shut os write_codes h s (map (Sent h) []) r" | "shut os write_codes h s (map (Sent h) [[]]) r"
        by auto
      then show ?thesis
      proof cases
        case 1
        then show ?thesis by (rule write_outcome_cut [where k = 0]) simp
      next
        case 2
        then show ?thesis by (rule write_outcome_cut [where k = 0]) simp
      qed
    next
      case (Again k)
      obtain n' s' where k: "k = (n', s')" by fastforce
      have run': "loop os data d h n' s' = Some r" using run True Again k by simp
      from write_turn_again [OF h Again [unfolded k]] show ?thesis
      proof (elim disjE exE conjE)
        assume "n' = n" and e: "effect os s s' []"
        with IH [OF run' h] n have "write_outcome os (drop n data) (length data) h s' r" by simp
        with e show ?thesis by (rule write_outcome_quiet)
      next
        fix b
        assume e: "effect os s s' [Sent h b]" and
          b: "sane_io os \<longrightarrow> n \<le> length data \<longrightarrow> n' \<le> length data \<and> b @ drop n' data = drop n data"
        with IH [OF run' h] n have "write_outcome os (drop n' data) (length data) h s' r" by blast
        from write_outcome_more [OF this e] b n show ?thesis by blast
      qed
    qed
  qed
qed

lemma write_all_outcome:
  assumes run: "write_all os data tm h s = Some r" and h: "socket_valid h"
  shows "write_outcome os data (length data) h s r"
proof -
  obtain r1 s1 where 1: "set_socket_nonblocking os h True s = (r1, s1)" by fastforce
  obtain t s2 where 2: "clock_now os s1 = (t, s2)" by fastforce
  have e1: "effect os s s1 []" using 1 by (rule set_socket_nonblocking_effect)
  have e2: "effect os s s2 []" using e1 clock_now_effect [OF 2] by (rule effect_quiet_trans)
  have failed: "write_outcome os data (length data) h s r" if "shut os write_codes h s [] r"
    using that write_outcome_cut [of os h s "[]" r 0] by simp
  consider "data = []" | "data \<noteq> []" "tm \<le> 0" | c where "data \<noteq> []" "tm > 0" "r1 = Some c"
    | "data \<noteq> []" "tm > 0" "r1 = None" by fastforce
  then show ?thesis
  proof cases
    case 1
    with run h show ?thesis
      by (auto simp: write_all_def connected_def intro!: write_outcome_done [where bs = "[]"])
  next
    case 2
    with run h have "r = close_and_fail os (mk_error WriteTimeout) h s" by (simp add: write_all_def connected_def)
    then show ?thesis by (intro failed) (simp add: shutI [OF effect_refl h])
  next
    case (3 c)
    with run h 1 have "r = close_and_fail os \<lparr>code = WriteFailed, native_code = c\<rparr> h s1"
      by (simp add: write_all_def connected_def)
    then show ?thesis by (intro failed) (simp add: shutI [OF e1 h])
  next
    case 4
    with run h 1 2 have "write_loop os data (t + from_ms tm) h 0 s2 = Some r"
      by (simp add: write_all_def connected_def)
    from write_loop_outcome [OF this h] e2 show ?thesis by (simp add: write_outcome_quiet)
  qed
qed

section \<open>What reading does\<close>

text \<open>
  A read delivers bytes and leaves the connection open, or finds it closed without bytes, or fails
  and closes it.
\<close>

definition read_outcome :: "'w os \<Rightarrow> nat \<Rightarrow> handle \<Rightarrow> 'w sys \<Rightarrow> 'w read_outcome \<Rightarrow> bool"
where
  "read_outcome os capacity h s r \<longleftrightarrow>
     (\<exists>n buffer s'. r = (Inr (n, buffer), h, s') \<and> 0 < n \<and> effect os s s' [Received h (take n buffer)]
        \<and> (sane_io os \<longrightarrow> length buffer = n \<and> n \<le> capacity))
     \<or> (\<exists>bs. shut os {ConnectionClosed} h s (map (Received h) bs) r \<and> concat bs = [])
     \<or> (\<exists>bs. shut os {ReadTimeout, ReadFailed} h s (map (Received h) bs) r)"

lemma read_outcome_quiet: "effect os s s1 [] \<Longrightarrow> read_outcome os c h s1 r \<Longrightarrow> read_outcome os c h s r"
  unfolding read_outcome_def by (blast intro: shut_quiet effect_quiet_trans)

lemma read_outcome_closed: "shut os {ConnectionClosed} h s [] r \<Longrightarrow> read_outcome os c h s r"
  unfolding read_outcome_def by (intro disjI2 disjI1 exI [of _ "[]"]) simp

lemma read_outcome_failed: "shut os {ReadTimeout, ReadFailed} h s [] r \<Longrightarrow> read_outcome os c h s r"
  unfolding read_outcome_def by (intro disjI2 exI [of _ "[]"]) simp

lemma receive_some_bound:
  assumes "sane_io os" "receive_some os h n s = ((r, c, b), s')" "r \<ge> 0"
  shows "length b = nat r \<and> nat r \<le> n"
proof -
  obtain r' e b' w where call: "os_recv os h (bounded_io_size n) (world s) = (r', e, b', w)"
    by (metis prod_cases4)
  with assms have "r' = r" "b' = b" "r' \<ge> 0"
    by (auto simp: receive_some_def split: if_splits)
  moreover have "case os_recv os h (bounded_io_size n) (world s) of
      (r, e, b, w') \<Rightarrow> r \<ge> 0 \<longrightarrow> length b = nat r \<and> nat r \<le> bounded_io_size n"
    by (rule assms(1) [unfolded sane_io_def, THEN conjunct2, THEN spec, THEN spec, THEN spec])
  ultimately show ?thesis using call bounded_io_size_le [of n] by auto
qed

lemma read_finish_outcome:
  assumes h: "socket_valid h" and k: "0 < k" and e: "effect os s s1 [Received h (take (nat k) buffer)]"
    and len: "sane_io os \<Longrightarrow> length buffer = nat k \<and> nat k \<le> c"
  shows "read_outcome os c h s (read_finish os h k buffer s1)"
proof -
  obtain r s2 where 1: "set_socket_nonblocking os h False s1 = (r, s2)" by fastforce
  have e2: "effect os s s2 [Received h (take (nat k) buffer)]"
    using effect_trans [OF e set_socket_nonblocking_effect [OF 1]] by simp
  show ?thesis
  proof (cases r)
    case None
    with 1 e2 k len show ?thesis
      unfolding read_outcome_def read_finish_def by (intro disjI1 exI [of _ "nat k"]) auto
  next
    case (Some c)
    have "shut os {ReadTimeout, ReadFailed} h s (map (Received h) [take (nat k) buffer]) (read_finish os h k buffer s1)"
      unfolding read_finish_def 1 Some using e2 by (simp add: shutI h)
    then show ?thesis unfolding read_outcome_def by blast
  qed
qed

lemma read_turn_effect:
  assumes h: "socket_valid h"
  shows "case read_turn os c d h s of
           Finished r \<Rightarrow> read_outcome os c h s r
         | Again s' \<Rightarrow> effect os s s' []"
proof -
  obtain t s1 where 1: "clock_now os s = (t, s1)" by fastforce
  obtain k nc b s2 where 2: "receive_some os h c s1 = ((k, nc, b), s2)" by (metis prod.collapse)
  obtain tm s3 where 3: "remaining_timeout os d s2 = (tm, s3)" by fastforce
  obtain st wc s4 where 4: "wait_socket_readable os h tm s3 = ((st, wc), s4)" by (metis prod.collapse)
  have e1: "effect os s s1 []" using 1 by (rule clock_now_effect)
  have e2: "effect os s s2 (if k < 0 then [] else [Received h (take (nat k) b)])"
    using effect_quiet_trans [OF e1 receive_some_effect [OF 2]] .
  have e3: "k < 0 \<Longrightarrow> effect os s s3 []"
    using e2 remaining_timeout_effect [OF 3] by (auto intro: effect_quiet_trans)
  have e4: "k < 0 \<Longrightarrow> effect os s s4 []"
    using e3 wait_socket_effect [OF 4 [unfolded wait_socket_readable_def]] by (auto intro: effect_quiet_trans)
  note failed = read_outcome_failed [OF shutI [OF _ h]] and closed = read_outcome_closed [OF shutI [OF _ h]]
  consider "t \<ge> d" | "t < d" "k > 0" | "t < d" "k = 0" | "t < d" "k < 0" by linarith
  then show ?thesis
  proof cases
    case late: 1
    show ?thesis by (simp add: read_turn_def 1 late failed [OF e1])
  next
    case got: 2
    have "read_outcome os c h s (read_finish os h k b s2)"
      using e2 got receive_some_bound [OF _ 2] by (intro read_finish_outcome h) auto
    with got show ?thesis by (simp add: read_turn_def 1 2)
  next
    case eof: 3
    have "shut os {ConnectionClosed} h s (map (Received h) [[]]) (close_and_fail os (mk_error ConnectionClosed) h s2)"
      using e2 eof by (simp add: shutI h)
    then have "read_outcome os c h s (close_and_fail os (mk_error ConnectionClosed) h s2)"
      unfolding read_outcome_def by (intro disjI2 disjI1 exI [of _ "[[]]"]) simp
    with eof show ?thesis by (simp add: read_turn_def 1 2)
  next
    case neg: 4
    then have nk: "\<not> t \<ge> d" "\<not> k > 0" "k \<noteq> 0" by simp_all
    show ?thesis
      unfolding read_turn_def 1 2 3 4 prod.case if_not_P [OF nk(1)] if_not_P [OF nk(2)] if_not_P [OF nk(3)]
      using e2 e3 e4 neg by (simp add: failed closed)
  qed
qed

lemma read_loop_outcome:
  assumes "read_loop os c d h s = Some r" "socket_valid h"
  shows "read_outcome os c h s r"
  using assms(2)
proof (induction rule: read_loop.raw_induct [OF _ assms(1)])
  case (1 loop os c d h s r)
  note IH = 1(1) and run = 1(2) and h = 1(3)
  note turn = read_turn_effect [OF h, where os = os and c = c and d = d and s = s]
  show ?case
  proof (cases "read_turn os c d h s")
    case (Finished r')
    with run turn show ?thesis by simp
  next
    case (Again s')
    with run have "loop os c d h s' = Some r" by simp
    from IH [OF this h] turn Again show ?thesis by (simp add: read_outcome_quiet)
  qed
qed

lemma read_some_outcome:
  assumes run: "read_some os False c tm h s = Some r" and h: "socket_valid h" and c: "0 < c"
  shows "read_outcome os c h s r"
proof -
  obtain r1 s1 where 1: "set_socket_nonblocking os h True s = (r1, s1)" by fastforce
  obtain t s2 where 2: "clock_now os s1 = (t, s2)" by fastforce
  have e1: "effect os s s1 []" using 1 by (rule set_socket_nonblocking_effect)
  have e2: "effect os s s2 []" using e1 clock_now_effect [OF 2] by (rule effect_quiet_trans)
  note failed = read_outcome_failed [OF shutI [OF _ h]]
  consider "tm \<le> 0" | c where "tm > 0" "r1 = Some c" | "tm > 0" "r1 = None" by fastforce
  then show ?thesis
  proof cases
    case late: 1
    with run h c have "r = close_and_fail os (mk_error ReadTimeout) h s"
      by (simp add: read_some_def connected_def)
    then show ?thesis by (simp add: failed [OF effect_refl])
  next
    case mode: (2 c)
    with run h c 1 have "r = close_and_fail os \<lparr>code = ReadFailed, native_code = c\<rparr> h s1"
      by (simp add: read_some_def connected_def)
    then show ?thesis by (simp add: failed [OF e1])
  next
    case 3
    with run h c 1 2 have "read_loop os c (t + from_ms tm) h s2 = Some r"
      by (simp add: read_some_def connected_def)
    from read_loop_outcome [OF this h] e2 show ?thesis by (simp add: read_outcome_quiet)
  qed
qed

section \<open>The calls return\<close>

text \<open>
  What the program relies on to end its loops: only finitely many readings of the clock fit before a
  point in time.  \<open>rank d w\<close> bounds how many more readings before \<open>d\<close> there can be in the world \<open>w\<close>.
\<close>

definition clock_advances :: "'w os \<Rightarrow> (int \<Rightarrow> 'w \<Rightarrow> nat) \<Rightarrow> bool"
where
  "clock_advances os rank \<longleftrightarrow>
     (\<forall>d w w'. os_call os w w' \<longrightarrow> rank d w' \<le> rank d w)
     \<and> (\<forall>d w t w'. os_now os w = (t, w') \<longrightarrow> t < d \<longrightarrow> rank d w' < rank d w)"

lemma effect_rank:
  assumes "clock_advances os rank" "effect os s s' evs"
  shows "rank d (world s') \<le> rank d (world s)"
proof -
  from assms(2) have "(os_call os)\<^sup>*\<^sup>* (world s) (world s')" by (simp add: effect_def)
  then show ?thesis
    using assms(1) unfolding clock_advances_def by induction (auto intro: order_trans)
qed

lemma clock_now_rank:
  "clock_advances os rank \<Longrightarrow> clock_now os s = (t, s') \<Longrightarrow> t < d \<Longrightarrow> rank d (world s') < rank d (world s)"
  by (auto simp: clock_now_def clock_advances_def split: prod.splits)

lemma write_turn_clock:
  assumes turn: "write_turn os data d h n s = Again k"
  shows "\<exists>t s1 evs. clock_now os s = (t, s1) \<and> t < d \<and> effect os s1 (snd k) evs"
proof -
  obtain t s1 where 1: "clock_now os s = (t, s1)" by fastforce
  obtain j nc s2 where 2: "send_some os h (drop n data) s1 = ((j, nc), s2)" by (metis prod.collapse)
  obtain tm s3 where 3: "remaining_timeout os d s2 = (tm, s3)" by fastforce
  obtain st wc s4 where 4: "wait_socket_writable os h tm s3 = ((st, wc), s4)" by (metis prod.collapse)
  obtain evs where e2: "effect os s1 s2 evs" using send_some_effect [OF 2] by blast
  have e4: "effect os s1 s4 evs"
    using effect_trans [OF e2 effect_quiet_trans [OF remaining_timeout_effect [OF 3]
          wait_socket_effect [OF 4 [unfolded wait_socket_writable_def]]]] by simp
  have "t < d" "snd k \<in> {s2, s4}"
    using turn by (auto simp: write_turn_def 1 2 3 4 split: if_splits)
  with 1 e2 e4 show ?thesis by blast
qed

lemma read_turn_clock:
  assumes turn: "read_turn os c d h s = Again s'"
  shows "\<exists>t s1 evs. clock_now os s = (t, s1) \<and> t < d \<and> effect os s1 s' evs"
proof -
  obtain t s1 where 1: "clock_now os s = (t, s1)" by fastforce
  obtain j nc b s2 where 2: "receive_some os h c s1 = ((j, nc, b), s2)" by (metis prod.collapse)
  obtain tm s3 where 3: "remaining_timeout os d s2 = (tm, s3)" by fastforce
  obtain st wc s4 where 4: "wait_socket_readable os h tm s3 = ((st, wc), s4)" by (metis prod.collapse)
  obtain evs where e2: "effect os s1 s2 evs" using receive_some_effect [OF 2] by blast
  have e4: "effect os s1 s4 evs"
    using effect_trans [OF e2 effect_quiet_trans [OF remaining_timeout_effect [OF 3]
          wait_socket_effect [OF 4 [unfolded wait_socket_readable_def]]]] by simp
  have "t < d" "s' \<in> {s2, s4}"
    using turn by (auto simp: read_turn_def 1 2 3 4 split: if_splits)
  with 1 e2 e4 show ?thesis by blast
qed

lemma write_loop_returns:
  assumes clock: "clock_advances os rank"
  shows "write_loop os data d h n s \<noteq> None"
proof (induction "rank d (world s)" arbitrary: n s rule: less_induct)
  case less
  show ?case
  proof (cases "write_turn os data d h n s")
    case (Again k)
    from write_turn_clock [OF Again] obtain t s1 evs
      where "clock_now os s = (t, s1)" "t < d" "effect os s1 (snd k) evs" by blast
    then have "rank d (world (snd k)) < rank d (world s)"
      using clock_now_rank [OF clock] effect_rank [OF clock] by (meson order_le_less_trans)
    from less [OF this] Again show ?thesis by (subst write_loop.simps) (simp del: not_None_eq)
  qed (subst write_loop.simps, simp del: not_None_eq)
qed

lemma read_loop_returns:
  assumes clock: "clock_advances os rank"
  shows "read_loop os c d h s \<noteq> None"
proof (induction "rank d (world s)" arbitrary: s rule: less_induct)
  case less
  show ?case
  proof (cases "read_turn os c d h s")
    case (Again s')
    from read_turn_clock [OF Again] obtain t s1 evs
      where "clock_now os s = (t, s1)" "t < d" "effect os s1 s' evs" by blast
    then have "rank d (world s') < rank d (world s)"
      using clock_now_rank [OF clock] effect_rank [OF clock] by (meson order_le_less_trans)
    from less [OF this] Again show ?thesis by (subst read_loop.simps) (simp del: not_None_eq)
  qed (subst read_loop.simps, simp del: not_None_eq)
qed

lemma write_all_returns: "clock_advances os rank \<Longrightarrow> write_all os data tm h s \<noteq> None"
  unfolding write_all_def by (simp add: write_loop_returns del: not_None_eq split: prod.split option.split)

lemma read_some_returns: "clock_advances os rank \<Longrightarrow> read_some os nb c tm h s \<noteq> None"
  unfolding read_some_def by (simp add: read_loop_returns del: not_None_eq split: prod.split option.split)

section \<open>The connection meets the contract\<close>

lemma write_all_sent:
  assumes "write_all os d t h s = Some (Inr n, h', s')" "socket_valid h"
  shows "h' = h \<and> (\<exists>bs. effect os s s' (map (Sent h) bs) \<and> (sane_io os \<longrightarrow> n = length d \<and> concat bs = d))"
  using write_all_outcome [OF assms] by (auto simp: write_outcome_def shut_def)

lemma write_all_cut:
  assumes "write_all os d t h s = Some (Inl e, h', s')" "socket_valid h"
  shows "h' = kInvalidSocket \<and> code e \<in> write_codes
    \<and> (\<exists>bs k. effect os s s' (map (Sent h) bs @ [Closed h]) \<and> (sane_io os \<longrightarrow> concat bs = take k d))"
  using write_all_outcome [OF assms] by (auto simp: write_outcome_def shut_def)

lemma read_some_got:
  assumes "read_some os False c t h s = Some (Inr (n, b), h', s')" "socket_valid h" "0 < c"
  shows "h' = h \<and> 0 < n \<and> effect os s s' [Received h (take n b)] \<and> (sane_io os \<longrightarrow> length b = n \<and> n \<le> c)"
  using read_some_outcome [OF assms] by (auto simp: read_outcome_def shut_def)

lemma read_some_cut:
  assumes "read_some os False c t h s = Some (Inl e, h', s')" "socket_valid h" "0 < c"
  shows "h' = kInvalidSocket \<and> code e \<in> read_codes
    \<and> (\<exists>bs. effect os s s' (map (Received h) bs @ [Closed h]) \<and> (code e = ConnectionClosed \<longrightarrow> concat bs = []))"
proof -
  from read_some_outcome [OF assms] obtain bs cs where
    "shut os cs h s (map (Received h) bs) ((Inl e, h', s') :: _ read_outcome)"
    "cs = {ConnectionClosed} \<and> concat bs = [] \<or> cs = {ReadTimeout, ReadFailed}"
    unfolding read_outcome_def by blast
  then show ?thesis by (auto simp: shut_def read_codes_def)
qed

interpretation tcp: timed_transport "effect os" "write_all os" "read_some os False" "sane_io os"
  "remaining_timeout os"
proof unfold_locales
  show "effect os s s []" for s by simp
  show "effect os s s'' (xs @ ys)" if "effect os s s' xs" "effect os s' s'' ys" for s s' s'' xs ys
    using that by (rule effect_trans)
qed (blast dest: write_all_sent write_all_cut read_some_got read_some_cut remaining_timeout_effect)+

end
