(* ===== verification/Client_Model.thy ===== *)
theory Client_Model
  imports Redirect Response_Properties Tcp_Connection
begin

text \<open>
  \<open>Client\<close> of \<open>include/cpp_request/client.hpp\<close> and \<open>src/core/client.cpp\<close>: one exchange on a new or a kept
  connection, and the redirect loop around it.

  The state is the client and the system (\<open>'w sys\<close>).  A connection is the handle it owns; at the end
  of its scope \<open>socket_destroy\<close> closes it.  \<open>None\<close> is a call that never returns.  The helper functions
  \<open>ascii_iequals\<close>, \<open>trim_ows\<close>, \<open>contains_token\<close> and \<open>remaining_timeout\<close> of the file repeat, word for word,
  those of other files, whose definitions are used.
\<close>

record client =
  reusable_socket_token :: "64 word"
  has_reusable_connection :: bool
  reusable_host :: string
  reusable_port :: uint16
  follow_redirects :: bool
  max_redirects :: nat
  client_limits :: response_limits
  connect_timeout :: int
  read_timeout :: int
  write_timeout :: int

definition mk_client :: client
where
  "mk_client =
     \<lparr>reusable_socket_token = 0, has_reusable_connection = False, reusable_host = [], reusable_port = 0,
      follow_redirects = True, max_redirects = 10, client_limits = default_limits,
      connect_timeout = 5000, read_timeout = 30000, write_timeout = 30000\<rparr>"

definition set_connect_timeout :: "client \<Rightarrow> int \<Rightarrow> client"
  where "set_connect_timeout c t = c\<lparr>connect_timeout := t\<rparr>"

definition set_read_timeout :: "client \<Rightarrow> int \<Rightarrow> client"
  where "set_read_timeout c t = c\<lparr>read_timeout := t\<rparr>"

definition set_write_timeout :: "client \<Rightarrow> int \<Rightarrow> client"
  where "set_write_timeout c t = c\<lparr>write_timeout := t\<rparr>"

definition set_follow_redirects :: "client \<Rightarrow> bool \<Rightarrow> client"
  where "set_follow_redirects c b = c\<lparr>follow_redirects := b\<rparr>"

definition set_max_redirects :: "client \<Rightarrow> nat \<Rightarrow> client"
  where "set_max_redirects c n = c\<lparr>max_redirects := n\<rparr>"

definition set_response_limits :: "client \<Rightarrow> response_limits \<Rightarrow> client"
  where "set_response_limits c l = c\<lparr>client_limits := l\<rparr>"

section \<open>Helpers\<close>

definition request_wants_connection_close :: "request \<Rightarrow> bool"
where
  "request_wants_connection_close r =
     list_ex (\<lambda>f. ascii_iequals (field_name f) ''Connection'' \<and> contains_token (field_value f) ''close'')
       (req_headers r)"

definition same_stored_origin :: "string \<Rightarrow> uint16 \<Rightarrow> string \<Rightarrow> uint16 \<Rightarrow> bool"
where
  "same_stored_origin stored_host stored_port host port =
     (stored_port = port \<and> ascii_iequals stored_host host)"

definition same_origin :: "url \<Rightarrow> url \<Rightarrow> bool"
  where "same_origin a b = (url_port a = url_port b \<and> ascii_iequals (url_host a) (url_host b))"

definition is_cross_origin_sensitive_header :: "string \<Rightarrow> bool"
where
  "is_cross_origin_sensitive_header n =
     (ascii_iequals n ''Host'' \<or> ascii_iequals n ''Authorization''
      \<or> ascii_iequals n ''Proxy-Authorization'' \<or> ascii_iequals n ''Cookie'')"

definition is_entity_header_removed_with_body :: "string \<Rightarrow> bool"
where
  "is_entity_header_removed_with_body n =
     (ascii_iequals n ''Content-Length'' \<or> ascii_iequals n ''Transfer-Encoding''
      \<or> ascii_iequals n ''Content-Type'')"

fun redirect_fields :: "headers \<Rightarrow> headers \<Rightarrow> bool \<Rightarrow> bool \<Rightarrow> headers"
where
  "redirect_fields result [] cross_origin drop_body = result"
| "redirect_fields result (f # fs) cross_origin drop_body =
     (if cross_origin \<and> is_cross_origin_sensitive_header (field_name f)
      then redirect_fields result fs cross_origin drop_body
      else if drop_body \<and> is_entity_header_removed_with_body (field_name f)
      then redirect_fields result fs cross_origin drop_body
      else redirect_fields (headers_add result (field_name f) (field_value f)) fs cross_origin drop_body)"

definition redirected_headers :: "headers \<Rightarrow> bool \<Rightarrow> bool \<Rightarrow> headers"
  where "redirected_headers source cross_origin drop_body = redirect_fields [] source cross_origin drop_body"

text \<open>A handle is an \<open>int\<close>, the token a \<open>std::uintptr_t\<close>: the first cast extends the sign.\<close>

definition encode_socket_handle :: "handle \<Rightarrow> 64 word"
  where "encode_socket_handle h = scast h"

definition decode_socket_handle :: "64 word \<Rightarrow> handle"
  where "decode_socket_handle t = ucast t"

definition make_request :: "http_method \<Rightarrow> string \<Rightarrow> string \<Rightarrow> request"
  where "make_request m u b = set_body (mk_request m u) b"

section \<open>The kept connection\<close>

definition forget_connection :: "client \<Rightarrow> client"
where
  "forget_connection c =
     c\<lparr>reusable_socket_token := 0, has_reusable_connection := False, reusable_host := [], reusable_port := 0\<rparr>"

definition close_reusable_connection :: "'w os \<Rightarrow> client \<Rightarrow> 'w sys \<Rightarrow> client \<times> 'w sys"
where
  "close_reusable_connection os c s =
     (let s = (if has_reusable_connection c
               then (case socket_close os (decode_socket_handle (reusable_socket_token c)) s of
                       (socket, s) \<Rightarrow> socket_destroy os socket s)
               else s)
      in (forget_connection c, s))"

definition client_destroy :: "'w os \<Rightarrow> client \<Rightarrow> 'w sys \<Rightarrow> 'w sys"
  where "client_destroy os c s = snd (close_reusable_connection os c s)"

text \<open>
  Moving: the new client and what is left of the old one.  A moved-from \<open>std::string\<close> holds an
  unspecified text, here the argument \<open>rest\<close>.
\<close>

definition client_move :: "string \<Rightarrow> client \<Rightarrow> client \<times> client"
where
  "client_move rest other =
     (other, other\<lparr>reusable_socket_token := 0, has_reusable_connection := False,
                   reusable_host := rest, reusable_port := 0\<rparr>)"

text \<open>\<open>a = std::move(b)\<close> for different objects.\<close>

definition client_move_assign ::
  "'w os \<Rightarrow> string \<Rightarrow> client \<Rightarrow> client \<Rightarrow> 'w sys \<Rightarrow> client \<times> client \<times> 'w sys"
where
  "client_move_assign os rest a b s =
     (case close_reusable_connection os a s of (a, s) \<Rightarrow>
        (case client_move rest b of (a, b) \<Rightarrow> (a, b, s)))"

section \<open>One exchange\<close>

text \<open>
  The connection an exchange uses (lines 303 to 335): the kept one if it leads to the origin of the
  request, and a new one otherwise.
\<close>

definition acquire_connection ::
  "'w os \<Rightarrow> client \<Rightarrow> url \<Rightarrow> 'w sys \<Rightarrow> handle result \<times> client \<times> 'w sys"
where
  "acquire_connection os c u s =
     (if has_reusable_connection c
         \<and> same_stored_origin (reusable_host c) (reusable_port c) (url_host u) (url_port u)
      then (Inr (adopt_native_handle (decode_socket_handle (reusable_socket_token c))), forget_connection c, s)
      else
        (case close_reusable_connection os c s of
           (c, s) \<Rightarrow>
             (case resolve os (url_host u) (url_port u) s of
                (Inl e, s) \<Rightarrow> (Inl e, c, s)
              | (Inr endpoints, s) \<Rightarrow>
                  (case tcp_connect os endpoints (connect_timeout c) s of
                     (Inl e, s) \<Rightarrow> (Inl e, c, s)
                   | (Inr h, s) \<Rightarrow> (Inr h, c, s)))))"

text \<open>Writing the head and the body under one deadline (lines 339 to 353).  The functions it calls are arguments.\<close>

definition send_request ::
  "(int \<Rightarrow> 's \<Rightarrow> int \<times> 's) \<Rightarrow> (string \<Rightarrow> int \<Rightarrow> handle \<Rightarrow> 's \<Rightarrow> (nat result \<times> handle \<times> 's) option) \<Rightarrow>
   int \<Rightarrow> string \<Rightarrow> string \<Rightarrow> handle \<Rightarrow> 's \<Rightarrow> (unit result \<times> handle \<times> 's) option"
where
  "send_request remaining do_write write_deadline head content h s =
     (case remaining write_deadline s of
        (tm, s) \<Rightarrow>
          (case do_write head tm h s of
             None \<Rightarrow> None
           | Some (Inl e, h, s) \<Rightarrow> Some (Inl e, h, s)
           | Some (Inr n, h, s) \<Rightarrow>
               if content = [] then Some (Inr (), h, s)
               else
                 (case remaining write_deadline s of
                    (tm, s) \<Rightarrow>
                      (case do_write content tm h s of
                         None \<Rightarrow> None
                       | Some (Inl e, h, s) \<Rightarrow> Some (Inl e, h, s)
                       | Some (Inr n, h, s) \<Rightarrow> Some (Inr (), h, s)))))"

text \<open>
  The read loop (lines 360 to 385).  The method of the connection it calls is the first argument; the
  buffer is the part of the stream a call delivered.
\<close>

partial_function (option) read_response ::
  "(handle \<Rightarrow> 's \<Rightarrow> ((nat \<times> string) result \<times> handle \<times> 's) option) \<Rightarrow>
   response_parser \<Rightarrow> handle \<Rightarrow> 's \<Rightarrow> (response_parser result \<times> handle \<times> 's) option"
where
  "read_response do_read parser h s =
     (if complete parser then Some (Inr parser, h, s)
      else
        (case do_read h s of
           None \<Rightarrow> None
         | Some (Inl e, h, s) \<Rightarrow>
             if code e = ConnectionClosed then
               (case finish_eof parser of
                  (Inl e', parser) \<Rightarrow> Some (Inl e', h, s)
                | (Inr progress, parser) \<Rightarrow>
                    if complete parser then Some (Inr parser, h, s) else Some (Inl e, h, s))
             else Some (Inl e, h, s)
         | Some (Inr (n, buffer), h, s) \<Rightarrow>
             (case feed parser (take n buffer) of
                (Inl e, parser) \<Rightarrow> Some (Inl e, h, s)
              | (Inr progress, parser) \<Rightarrow> read_response do_read parser h s)))"

definition read_buffer_size :: nat
  where "read_buffer_size = 16 * 1024"

text \<open>
  The end of an exchange (lines 387 to 402): the connection is kept, or closed as it goes out of scope.
\<close>

definition finish_exchange ::
  "'w os \<Rightarrow> client \<Rightarrow> request \<Rightarrow> url \<Rightarrow> response_parser \<Rightarrow> handle \<Rightarrow> 'w sys \<Rightarrow>
   (response result \<times> client \<times> 'w sys) option"
where
  "finish_exchange os c r u parser h s =
     (let reusable = connected h \<and> connection_reusable parser \<and> pending_bytes parser = []
                       \<and> \<not> request_wants_connection_close r
      in case take_response parser of
           None \<Rightarrow> None
         | Some resp \<Rightarrow>
             if reusable then
               (case release_native_handle h of
                  (released, h) \<Rightarrow>
                    Some (Inr resp,
                          c\<lparr>reusable_socket_token := encode_socket_handle released,
                            has_reusable_connection := True,
                            reusable_host := url_host u, reusable_port := url_port u\<rparr>,
                          socket_destroy os h s))
             else Some (Inr resp, c, socket_destroy os h s))"

definition execute_once ::
  "'w os \<Rightarrow> client \<Rightarrow> request \<Rightarrow> 'w sys \<Rightarrow> (response result \<times> client \<times> 'w sys) option"
where
  "execute_once os c r s =
     (case serialize_request (os_inet_pton6 os) r of
        Inl e \<Rightarrow> Some (Inl e, c, s)
      | Inr ser \<Rightarrow>
          (case acquire_connection os c (ser_url ser) s of
             (Inl e, c, s) \<Rightarrow> Some (Inl e, c, s)
           | (Inr h, c, s) \<Rightarrow>
               (case clock_now os s of
                  (now, s) \<Rightarrow>
                    (case send_request (remaining_timeout os) (write_all os) (now + from_ms (write_timeout c))
                            (ser_head ser) (ser_body ser) h s of
                       None \<Rightarrow> None
                     | Some (Inl e, h, s) \<Rightarrow> Some (Inl e, c, socket_destroy os h s)
                     | Some (Inr u, h, s) \<Rightarrow>
                         (case read_response (read_some os False read_buffer_size (read_timeout c))
                                 (mk_parser (req_method r) (client_limits c)) h s of
                            None \<Rightarrow> None
                          | Some (Inl e, h, s) \<Rightarrow> Some (Inl e, c, socket_destroy os h s)
                          | Some (Inr parser, h, s) \<Rightarrow>
                              finish_exchange os c r (ser_url ser) parser h s)))))"

section \<open>Following redirects\<close>

text \<open>The variables of the loop of \<open>Client::request\<close>.\<close>

record redirect_state =
  current_url :: string
  current_method :: http_method
  current_headers :: headers
  current_body :: string
  redirects_followed :: nat

definition start_redirects :: "request \<Rightarrow> redirect_state"
where
  "start_redirects r =
     \<lparr>current_url = effective_request_url r, current_method = req_method r,
      current_headers = req_headers r, current_body = req_body r, redirects_followed = 0\<rparr>"

text \<open>One turn of the loop up to the next request (lines 228 to 280).\<close>

definition follow_redirect ::
  "(string \<Rightarrow> bool) \<Rightarrow> nat \<Rightarrow> redirect_state \<Rightarrow> response \<Rightarrow> redirect_state result"
where
  "follow_redirect inet max_count st resp =
     (if redirects_followed st \<ge> max_count then fail RedirectLimitExceeded
      else if \<not> headers_contains (rs_headers resp) ''Location'' then fail MissingRedirectLocation
      else
        let location = headers_get (rs_headers resp) ''Location''
        in if location = [] then fail MissingRedirectLocation
           else
             (case Url_parse inet (current_url st) of
                Inl e \<Rightarrow> Inl e
              | Inr base \<Rightarrow>
                  (case resolve_redirect_location inet base location of
                     Inl e \<Rightarrow> Inl e
                   | Inr next_url \<Rightarrow>
                       (case Url_parse inet next_url of
                          Inl e \<Rightarrow> if code e = UnsupportedScheme then fail UnsupportedRedirectScheme else Inl e
                        | Inr next_parsed \<Rightarrow>
                            let behavior = redirect_behavior (status_code resp) (current_method st);
                                cross_origin = (\<not> same_origin base next_parsed);
                                drop_body = (\<not> preserve_body behavior)
                            in Inr \<lparr>current_url = next_url, current_method = rb_method behavior,
                                   current_headers = redirected_headers (current_headers st) cross_origin drop_body,
                                   current_body = (if preserve_body behavior then current_body st else []),
                                   redirects_followed = redirects_followed st + 1\<rparr>))))"

definition redirected_request :: "redirect_state \<Rightarrow> request"
where
  "redirected_request st =
     set_body ((mk_request (current_method st) (current_url st))\<lparr>req_headers := current_headers st\<rparr>)
       (current_body st)"

lemma follow_redirect_counts:
  "follow_redirect inet n st resp = Inr st' \<Longrightarrow>
     redirects_followed st < n \<and> redirects_followed st' = Suc (redirects_followed st)"
  by (auto simp: follow_redirect_def Let_def split: if_splits sum.splits)

text \<open>The loop; the exchange it repeats is the first argument.\<close>

function redirect_loop ::
  "(request \<Rightarrow> 'x \<Rightarrow> (response result \<times> 'x) option) \<Rightarrow> (string \<Rightarrow> bool) \<Rightarrow> nat \<Rightarrow>
   redirect_state \<Rightarrow> response \<Rightarrow> 'x \<Rightarrow> (response result \<times> 'x) option"
where
  "redirect_loop execute inet max_count st resp x =
     (if \<not> is_redirect_status (status_code resp) then Some (Inr resp, x)
      else
        (case follow_redirect inet max_count st resp of
           Inl e \<Rightarrow> Some (Inl e, x)
         | Inr st' \<Rightarrow>
             (case execute (redirected_request st') x of
                None \<Rightarrow> None
              | Some (Inl e, x') \<Rightarrow> Some (Inl e, x')
              | Some (Inr resp', x') \<Rightarrow> redirect_loop execute inet max_count st' resp' x')))"
  by pat_completeness auto
termination
  by (relation "measure (\<lambda>(ex, i, n, st, resp, x). n - redirects_followed st)")
     (auto dest: follow_redirect_counts)

declare redirect_loop.simps [simp del]

definition request_with ::
  "(request \<Rightarrow> 'x \<Rightarrow> (response result \<times> 'x) option) \<Rightarrow> (string \<Rightarrow> bool) \<Rightarrow> bool \<Rightarrow> nat \<Rightarrow>
   request \<Rightarrow> 'x \<Rightarrow> (response result \<times> 'x) option"
where
  "request_with execute inet follow max_count r x =
     (case execute r x of
        None \<Rightarrow> None
      | Some (Inl e, x) \<Rightarrow> Some (Inl e, x)
      | Some (Inr resp, x) \<Rightarrow>
          if \<not> follow \<or> \<not> is_redirect_status (status_code resp) then Some (Inr resp, x)
          else redirect_loop execute inet max_count (start_redirects r) resp x)"

text \<open>\<open>Client::request\<close>: the exchange changes the client and the system.\<close>

definition client_request ::
  "'w os \<Rightarrow> client \<Rightarrow> request \<Rightarrow> 'w sys \<Rightarrow> (response result \<times> client \<times> 'w sys) option"
where
  "client_request os c r s =
     request_with (\<lambda>r (c, s). execute_once os c r s) (os_inet_pton6 os)
       (follow_redirects c) (max_redirects c) r (c, s)"

definition client_get :: "'w os \<Rightarrow> client \<Rightarrow> string \<Rightarrow> 'w sys \<Rightarrow> (response result \<times> client \<times> 'w sys) option"
  where "client_get os c u s = client_request os c (make_request Get u []) s"

definition client_head :: "'w os \<Rightarrow> client \<Rightarrow> string \<Rightarrow> 'w sys \<Rightarrow> (response result \<times> client \<times> 'w sys) option"
  where "client_head os c u s = client_request os c (make_request Head u []) s"

definition client_post :: "'w os \<Rightarrow> client \<Rightarrow> string \<Rightarrow> string \<Rightarrow> 'w sys \<Rightarrow> (response result \<times> client \<times> 'w sys) option"
  where "client_post os c u b s = client_request os c (make_request Post u b) s"

definition client_put :: "'w os \<Rightarrow> client \<Rightarrow> string \<Rightarrow> string \<Rightarrow> 'w sys \<Rightarrow> (response result \<times> client \<times> 'w sys) option"
  where "client_put os c u b s = client_request os c (make_request Put u b) s"

definition client_patch :: "'w os \<Rightarrow> client \<Rightarrow> string \<Rightarrow> string \<Rightarrow> 'w sys \<Rightarrow> (response result \<times> client \<times> 'w sys) option"
  where "client_patch os c u b s = client_request os c (make_request Patch u b) s"

definition client_del :: "'w os \<Rightarrow> client \<Rightarrow> string \<Rightarrow> 'w sys \<Rightarrow> (response result \<times> client \<times> 'w sys) option"
  where "client_del os c u s = client_request os c (make_request Delete u []) s"

text \<open>The free functions use a client of their own, which is destroyed when they return.\<close>

definition with_new_client ::
  "'w os \<Rightarrow> (client \<Rightarrow> 'w sys \<Rightarrow> (response result \<times> client \<times> 'w sys) option) \<Rightarrow> 'w sys \<Rightarrow>
   (response result \<times> 'w sys) option"
where
  "with_new_client os f s =
     (case f mk_client s of
        None \<Rightarrow> None
      | Some (r, c, s) \<Rightarrow> Some (r, client_destroy os c s))"

definition free_get :: "'w os \<Rightarrow> string \<Rightarrow> 'w sys \<Rightarrow> (response result \<times> 'w sys) option"
  where "free_get os u s = with_new_client os (\<lambda>c. client_get os c u) s"

definition free_head :: "'w os \<Rightarrow> string \<Rightarrow> 'w sys \<Rightarrow> (response result \<times> 'w sys) option"
  where "free_head os u s = with_new_client os (\<lambda>c. client_head os c u) s"

definition free_post :: "'w os \<Rightarrow> string \<Rightarrow> string \<Rightarrow> 'w sys \<Rightarrow> (response result \<times> 'w sys) option"
  where "free_post os u b s = with_new_client os (\<lambda>c. client_post os c u b) s"

definition free_put :: "'w os \<Rightarrow> string \<Rightarrow> string \<Rightarrow> 'w sys \<Rightarrow> (response result \<times> 'w sys) option"
  where "free_put os u b s = with_new_client os (\<lambda>c. client_put os c u b) s"

definition free_patch :: "'w os \<Rightarrow> string \<Rightarrow> string \<Rightarrow> 'w sys \<Rightarrow> (response result \<times> 'w sys) option"
  where "free_patch os u b s = with_new_client os (\<lambda>c. client_patch os c u b) s"

definition free_del :: "'w os \<Rightarrow> string \<Rightarrow> 'w sys \<Rightarrow> (response result \<times> 'w sys) option"
  where "free_del os u s = with_new_client os (\<lambda>c. client_del os c u) s"

end
