(* ===== verification/Client_Exchange.thy ===== *)
theory Client_Exchange
  imports Client_Model "HOL-Library.Multiset"
begin

text \<open>
  What one exchange of \<open>Client\<close> does: the lemmas of the client over the contract \<open>timed_transport\<close>, the
  ownership of sockets, and \<open>execute_once_effect\<close>, which says what \<open>Client::execute_once\<close> sends,
  receives, opens, closes and keeps.
\<close>

section \<open>Sending and receiving over a transport\<close>

text \<open>The pieces of a stream that a parser was fed, each without an error, while it was not complete.\<close>

fun fed :: "response_parser \<Rightarrow> string list \<Rightarrow> response_parser option"
where
  "fed p [] = Some p"
| "fed p (b # bs) =
     (if complete p then None
      else (case feed p b of (Inl e, p') \<Rightarrow> None | (Inr q, p') \<Rightarrow> fed p' bs))"

context timed_transport
begin

lemma does_quiet: "does s s' [] \<Longrightarrow> does s' s'' evs \<Longrightarrow> does s s'' evs"
  using does_trans [of s s' "[]" s'' evs] by simp

lemma send_request_sent:
  assumes run: "send_request remaining writes d hdt content h s = Some (Inr u, h', s')" and h: "socket_valid h"
  shows "h' = h \<and> (\<exists>bs. does s s' (map (Sent h) bs) \<and> (sound \<longrightarrow> concat bs = hdt @ content))"
proof -
  obtain t s1 where 1: "remaining d s = (t, s1)" by fastforce
  from run 1 obtain n h2 s2 where 2: "writes hdt t h s1 = Some (Inr n, h2, s2)"
    by (auto simp: send_request_def split: option.splits sum.splits prod.splits)
  from write_sent [OF 2 h] obtain bs where
    bs: "h2 = h" "does s1 s2 (map (Sent h) bs)" "sound \<longrightarrow> concat bs = hdt" by blast
  have e2: "does s s2 (map (Sent h) bs)" using remaining_quiet [OF 1] bs(2) by (rule does_quiet)
  show ?thesis
  proof (cases "content = []")
    case True
    with run 1 2 bs e2 show ?thesis by (auto simp: send_request_def)
  next
    case False
    obtain t3 s3 where 3: "remaining d s2 = (t3, s3)" by fastforce
    from run False 1 2 3 obtain m where 4: "writes content t3 h2 s3 = Some (Inr m, h', s')"
      by (auto simp: send_request_def split: option.splits sum.splits prod.splits)
    from write_sent [OF 4] h bs(1) obtain cs where
      cs: "h' = h" "does s3 s' (map (Sent h) cs)" "sound \<longrightarrow> concat cs = content" by blast
    have "does s s' (map (Sent h) bs @ map (Sent h) cs)"
      using e2 does_quiet [OF remaining_quiet [OF 3] cs(2)] by (rule does_trans)
    with bs(3) cs show ?thesis by (metis map_append concat_append)
  qed
qed

lemma send_request_cut:
  assumes run: "send_request remaining writes d hdt content h s = Some (Inl e, h', s')" and h: "socket_valid h"
  shows "h' = kInvalidSocket \<and> code e \<in> write_codes
    \<and> (\<exists>bs k. does s s' (map (Sent h) bs @ [Closed h]) \<and> (sound \<longrightarrow> concat bs = take k (hdt @ content)))"
proof -
  obtain t s1 where 1: "remaining d s = (t, s1)" by fastforce
  show ?thesis
  proof (cases "writes hdt t h s1")
    case None
    with run 1 show ?thesis by (simp add: send_request_def)
  next
    case (Some a)
    obtain r2 h2 s2 where a: "a = (r2, h2, s2)" by (metis prod_cases3)
    show ?thesis
    proof (cases r2)
      case (Inl e2)
      with run 1 Some a have eq: "e2 = e" "h2 = h'" "s2 = s'" by (simp_all add: send_request_def)
      from write_cut [OF Some [unfolded a Inl] h] eq obtain bs k where
        bs: "h' = kInvalidSocket" "code e \<in> write_codes" "does s1 s' (map (Sent h) bs @ [Closed h])"
          "sound \<longrightarrow> concat bs = take k hdt" by blast
      moreover have "take k hdt = take (min k (length hdt)) (hdt @ content)" by (simp add: min_def)
      ultimately show ?thesis using does_quiet [OF remaining_quiet [OF 1]] by metis
    next
      case (Inr n)
      from write_sent [OF Some [unfolded a Inr] h] obtain bs where
        bs: "h2 = h" "does s1 s2 (map (Sent h) bs)" "sound \<longrightarrow> concat bs = hdt" by blast
      have e2: "does s s2 (map (Sent h) bs)" using remaining_quiet [OF 1] bs(2) by (rule does_quiet)
      from run 1 Some a Inr have "content \<noteq> []" by (auto simp: send_request_def)
      obtain t3 s3 where 3: "remaining d s2 = (t3, s3)" by fastforce
      from run \<open>content \<noteq> []\<close> 1 Some a Inr 3 have 4: "writes content t3 h2 s3 = Some (Inl e, h', s')"
        by (auto simp: send_request_def split: option.splits sum.splits prod.splits)
      from write_cut [OF 4] h bs(1) obtain cs k where
        cs: "h' = kInvalidSocket" "code e \<in> write_codes" "does s3 s' (map (Sent h) cs @ [Closed h])"
          "sound \<longrightarrow> concat cs = take k content" by blast
      have "does s s' (map (Sent h) bs @ map (Sent h) cs @ [Closed h])"
        using e2 does_quiet [OF remaining_quiet [OF 3] cs(3)] by (rule does_trans)
      then have "does s s' (map (Sent h) (bs @ cs) @ [Closed h])" by simp
      moreover have "sound \<longrightarrow> concat (bs @ cs) = take (length hdt + k) (hdt @ content)"
        using bs(3) cs(4) by simp
      ultimately show ?thesis using cs(1,2) by blast
    qed
  qed
qed

text \<open>
  The outcomes of the read loop: the parser is complete with the connection open; it is completed by
  the end of the stream; or an error.
\<close>

definition read_complete where
  "read_complete p h s q h' s' \<longleftrightarrow>
     (\<exists>bs. fed p bs = Some q \<and> complete q \<and> h' = h \<and> does s s' (map (Received h) bs))"

definition read_to_eof where
  "read_to_eof p h s q h' s' \<longleftrightarrow>
     (\<exists>bs rs p1 x. fed p bs = Some p1 \<and> \<not> complete p1 \<and> finish_eof p1 = (Inr x, q) \<and> complete q
        \<and> h' = kInvalidSocket \<and> concat rs = concat bs \<and> does s s' (map (Received h) rs @ [Closed h]))"

definition read_error where
  "read_error h s h' s' \<longleftrightarrow>
     (\<exists>rs. h' = h \<and> does s s' (map (Received h) rs)
           \<or> h' = kInvalidSocket \<and> does s s' (map (Received h) rs @ [Closed h]))"

lemma does_received:
  "does s s1 [Received h b] \<Longrightarrow> does s1 s' (map (Received h) rs @ evs) \<Longrightarrow>
     does s s' (map (Received h) (b # rs) @ evs)"
  using does_trans by fastforce

lemma read_step:
  assumes e: "does s s1 [Received h b]" and p: "\<not> complete p" "feed p b = (Inr x, p')"
  shows "read_complete p' h s1 q h' s' \<Longrightarrow> read_complete p h s q h' s'"
    and "read_to_eof p' h s1 q h' s' \<Longrightarrow> read_to_eof p h s q h' s'"
    and "read_error h s1 h' s' \<Longrightarrow> read_error h s h' s'"
proof -
  assume "read_complete p' h s1 q h' s'"
  then obtain bs where bs: "fed p' bs = Some q" "complete q" "h' = h" "does s1 s' (map (Received h) bs @ [])"
    by (auto simp: read_complete_def)
  with does_received [OF e bs(4)] p show "read_complete p h s q h' s'"
    unfolding read_complete_def by (intro exI [of _ "b # bs"]) simp
next
  assume "read_to_eof p' h s1 q h' s'"
  then obtain bs rs p1 y where bs: "fed p' bs = Some p1" "\<not> complete p1" "finish_eof p1 = (Inr y, q)" "complete q"
      "h' = kInvalidSocket" "concat rs = concat bs" "does s1 s' (map (Received h) rs @ [Closed h])"
    unfolding read_to_eof_def by blast
  have "fed p (b # bs) = Some p1" "concat (b # rs) = concat (b # bs)" using p bs by simp_all
  with bs does_received [OF e bs(7)] show "read_to_eof p h s q h' s'"
    unfolding read_to_eof_def by blast
next
  assume "read_error h s1 h' s'"
  then obtain rs where "h' = h \<and> does s1 s' (map (Received h) rs @ [])
      \<or> h' = kInvalidSocket \<and> does s1 s' (map (Received h) rs @ [Closed h])"
    unfolding read_error_def by auto
  then have "h' = h \<and> does s s' (map (Received h) (b # rs) @ [])
      \<or> h' = kInvalidSocket \<and> does s s' (map (Received h) (b # rs) @ [Closed h])"
    using does_received [OF e] by blast
  then show "read_error h s h' s'" unfolding read_error_def by (metis append_Nil2)
qed

definition read_result where
  "read_result p h s r \<longleftrightarrow>
     (case r of
        (Inr q, h', s') \<Rightarrow> read_complete p h s q h' s' \<or> read_to_eof p h s q h' s'
      | (Inl e, h', s') \<Rightarrow> read_error h s h' s')"

lemma read_cut_result:
  assumes a: "reads c t h s = Some (Inl e, h1, s1)" and h: "socket_valid h" and c: "0 < c" and more: "\<not> complete p"
    and run: "(if code e = ConnectionClosed then
        (case finish_eof p of
           (Inl e', q) \<Rightarrow> Some (Inl e', h1, s1)
         | (Inr x, q) \<Rightarrow> if complete q then Some (Inr q, h1, s1) else Some (Inl e, h1, s1))
      else Some (Inl e, h1, s1)) = Some r"
  shows "read_result p h s r"
proof -
  from read_cut [OF a h c] obtain rs where
    rs: "h1 = kInvalidSocket" "does s s1 (map (Received h) rs @ [Closed h])"
      "code e = ConnectionClosed \<longrightarrow> concat rs = []" by blast
  then have err: "read_error h s h1 s1" unfolding read_error_def by blast
  obtain re q where q: "finish_eof p = (re, q)" by fastforce
  show ?thesis
  proof (cases "code e = ConnectionClosed \<and> complete q \<and> (\<exists>x. re = Inr x)")
    case True
    then obtain x where x: "re = Inr x" by blast
    with True run q have "r = (Inr q, h1, s1)" by simp
    moreover have "read_to_eof p h s q h1 s1"
      unfolding read_to_eof_def using more q x True rs by (intro exI [of _ "[]"] exI [of _ rs]) simp
    ultimately show ?thesis by (simp add: read_result_def)
  next
    case False
    with run q have "\<exists>e'. r = (Inl e', h1, s1)" by (auto split: if_splits sum.splits)
    with err show ?thesis by (auto simp: read_result_def)
  qed
qed

lemma read_response_result:
  assumes "read_response (reads c t) p h s = Some r" "socket_valid h" "0 < c"
  shows "read_result p h s r"
proof -
  have "do_read = reads c t \<longrightarrow> socket_valid h \<longrightarrow> read_result p h s r"
    if "read_response do_read p h s = Some r" for do_read p h s r
  proof (induction rule: read_response.raw_induct [OF _ that])
    case (1 loop do_read p h s r)
    note IH = 1(1) and run = 1(2)
    show ?case
    proof (intro impI)
      assume rd: "do_read = reads c t" and h: "socket_valid h"
      show "read_result p h s r"
      proof (cases "complete p")
        case True
        with run have "r = (Inr p, h, s)" by simp
        with True does_refl show ?thesis
          by (auto simp: read_result_def read_complete_def intro!: exI [of _ "[]"])
      next
        case False
        then obtain ra h1 s1 where a: "reads c t h s = Some (ra, h1, s1)"
          using run rd by (cases "reads c t h s") auto
        show ?thesis
        proof (cases ra)
          case (Inl e)
          with run False rd a show ?thesis by (intro read_cut_result [OF a [unfolded Inl] h assms(3) False]) simp
        next
          case (Inr nb)
          obtain n b where nb: "nb = (n, b)" by fastforce
          from read_got [OF a [unfolded Inr nb] h assms(3)] have
            got: "h1 = h" "does s s1 [Received h (take n b)]" by blast+
          obtain rf p' where f: "feed p (take n b) = (rf, p')" by fastforce
          show ?thesis
          proof (cases rf)
            case (Inl e)
            with False run rd a \<open>ra = Inr nb\<close> nb f have "r = (Inl e, h1, s1)" by simp
            moreover have "read_error h s h1 s1"
              using got unfolding read_error_def by (intro exI [of _ "[take n b]"]) simp
            ultimately show ?thesis by (simp add: read_result_def)
          next
            case (Inr x)
            with False run rd a \<open>ra = Inr nb\<close> nb f have "loop do_read p' h1 s1 = Some r" by simp
            from IH [OF this] rd h got(1) read_step [OF got(2) False f [unfolded Inr]]
            show ?thesis by (auto simp: read_result_def split: sum.splits)
          qed
        qed
      qed
    qed
  qed
  from this [OF assms(1)] assms(2) show ?thesis by simp
qed

lemma read_response_outcome:
  assumes "read_response (reads c t) p h s = Some (res, h', s')" "socket_valid h" "0 < c"
  shows "case res of Inr q \<Rightarrow> read_complete p h s q h' s' \<or> read_to_eof p h s q h' s'
           | Inl e \<Rightarrow> read_error h s h' s'"
  using read_response_result [OF assms] by (cases res) (simp_all add: read_result_def)

end

section \<open>What the parser was fed\<close>

lemma process_nothing:
  "rp_stage p = StageHead \<Longrightarrow> rp_buffer p = [] \<Longrightarrow> process_buffer p = (Inr ParseNeedMore, p)"
  by (simp add: process_buffer.simps [of p] process_turn_def head_turn_def would_exceed_def)

lemma feed_nothing: "feed (mk_parser m lim) [] = (Inr ParseNeedMore, mk_parser m lim)"
  by (simp add: feed_def process_nothing mk_parser_def)

lemma seen_Inr: "parser_seen (feed p b) = parser_seen (Inr x, q) \<Longrightarrow> feed p b = (Inr x, q)"
  by (auto simp: parser_seen_def split: prod.splits sum.splits)

lemma fed_feed:
  assumes "fed p bs = Some q" "feed (mk_parser m lim) acc = (Inr ParseNeedMore, p)"
  shows "feed (mk_parser m lim) (acc @ concat bs)
    = (Inr (if complete q then ParseComplete else ParseNeedMore), q)"
  using assms
proof (induction bs arbitrary: p acc)
  case Nil
  with feed_budget [OF Nil.prems(2) mk_parser_budget(1)] show ?case by simp
next
  case (Cons b bs)
  from Cons.prems(1) obtain x p' where f: "feed p b = (Inr x, p')" "fed p' bs = Some q"
    by (auto split: if_splits prod.splits sum.splits)
  have "parser_seen (feed (mk_parser m lim) (acc @ b)) = parser_seen (feed p b)"
    using parser.feed_append [OF Cons.prems(2)] by simp
  with f have next_feed: "feed (mk_parser m lim) (acc @ b) = (Inr x, p')" by (metis seen_Inr)
  show ?case
  proof (cases x)
    case ParseNeedMore
    from Cons.IH [OF f(2) next_feed [unfolded ParseNeedMore]] show ?thesis
      by (simp only: concat.simps append_assoc)
  next
    case ParseComplete
    then have "process_buffer (start m lim (acc @ b)) = (Inr ParseComplete, p')"
      using next_feed by (simp add: feed_start)
    from response_text_sound [OF this] have "complete p'" by (auto simp: done_with_def)
    with f(2) have "bs = []" "q = p'" by (cases bs; simp)+
    with next_feed ParseComplete \<open>complete p'\<close> show ?thesis by simp
  qed
qed

text \<open>What a completed read loop has read.\<close>

lemma fed_complete_text:
  assumes "fed (mk_parser m lim) bs = Some q" "complete q"
  shows "\<exists>t close. concat bs = t @ pending_bytes q \<and> response_text m lim t (rp_response q) close
    \<and> connection_reusable q = (\<not> close)"
proof -
  have "feed (mk_parser m lim) (concat bs) = (Inr ParseComplete, q)"
    using fed_feed [OF assms(1) feed_nothing] assms(2) by simp
  then have "process_buffer (start m lim (concat bs)) = (Inr ParseComplete, q)" by (simp add: feed_start)
  from response_text_sound [OF this] show ?thesis
    by (auto simp: done_with_def connection_reusable_def)
qed

lemma fed_eof_text:
  assumes "fed (mk_parser m lim) bs = Some p1" "\<not> complete p1" "finish_eof p1 = (Inr x, q)" "complete q"
  shows "close_text m lim (concat bs) (rp_response q) \<and> close_delimited q"
proof -
  have f: "feed (mk_parser m lim) (concat bs) = (Inr ParseNeedMore, p1)"
    using fed_feed [OF assms(1) feed_nothing] assms(2) by simp
  have x: "x = ParseComplete" using assms(3) by (auto simp: finish_eof_def Let_def split: parse_stage.splits if_splits)
  from closes_at_eof [OF f mk_parser_budget(1) assms(3) [unfolded x]] have "close_delimited q" ..
  with f assms(3) x have "eof_run (feed (mk_parser m lim) (concat bs)) (rp_response q)"
    unfolding eof_run_def by blast
  with \<open>close_delimited q\<close> show ?thesis unfolding parser_accepts_eof by simp
qed

section \<open>Ownership\<close>

text \<open>
  The handles a piece of the program owns before and after are settled by its log: what was opened
  or owned before was closed or is owned after.
\<close>

definition settled :: "io_event list \<Rightarrow> handle multiset \<Rightarrow> handle multiset \<Rightarrow> bool"
  where "settled evs before after \<longleftrightarrow> mset (opened_in evs) + before = mset (closed_in evs) + after"

lemma settled_Nil [simp]: "settled [] a b \<longleftrightarrow> a = b"
  by (simp add: settled_def)

lemma settled_trans: "settled xs a b \<Longrightarrow> settled ys b c \<Longrightarrow> settled (xs @ ys) a c"
proof -
  assume "settled xs a b" "settled ys b c"
  then have 1: "mset (opened_in xs) + a = mset (closed_in xs) + b"
    and 2: "mset (opened_in ys) + b = mset (closed_in ys) + c" by (simp_all add: settled_def)
  have "mset (opened_in (xs @ ys)) + a = (mset (opened_in xs) + a) + mset (opened_in ys)" by simp
  also have "\<dots> = mset (closed_in xs) + (mset (opened_in ys) + b)" unfolding 1 by simp
  also have "\<dots> = mset (closed_in (xs @ ys)) + c" unfolding 2 by simp
  finally show "settled (xs @ ys) a c" by (simp add: settled_def)
qed

definition held :: "client \<Rightarrow> handle multiset"
  where "held c = (if has_reusable_connection c then {#decode_socket_handle (reusable_socket_token c)#} else {#})"

text \<open>A client is well formed when the connection it keeps is a socket.\<close>

definition client_wf :: "client \<Rightarrow> bool"
where
  "client_wf c \<longleftrightarrow>
     (if has_reusable_connection c then socket_valid (decode_socket_handle (reusable_socket_token c))
      else reusable_socket_token c = 0 \<and> reusable_port c = 0)"

lemma held_forget [simp]: "held (forget_connection c) = {#}" "client_wf (forget_connection c)"
  "has_reusable_connection (forget_connection c) = False" "client_limits (forget_connection c) = client_limits c"
  by (simp_all add: held_def forget_connection_def client_wf_def)

lemma token_roundtrip: "decode_socket_handle (encode_socket_handle h) = h"
  unfolding decode_socket_handle_def encode_socket_handle_def
  by transfer (simp add: take_bit_signed_take_bit)

lemma close_reusable_effect:
  assumes "close_reusable_connection os c s = (c', s')" "client_wf c"
  shows "c' = forget_connection c \<and>
    effect os s s' (if has_reusable_connection c then [Closed (decode_socket_handle (reusable_socket_token c))] else [])"
proof -
  have quiet: "socket_destroy os kInvalidSocket s = s" for s
    by (simp add: socket_destroy_def socket_close_def socket_reset_def)
  show ?thesis
    using assms socket_close_effect [of os "decode_socket_handle (reusable_socket_token c)" s]
    by (auto simp: close_reusable_connection_def Let_def client_wf_def quiet split: if_splits prod.splits)
qed

lemma attempts_views [simp]:
  "opened_in (attempts hs) = hs" "closed_in (attempts hs) = hs" "sent_in (attempts hs) = []"
  "received_in (attempts hs) = []"
  by (induction hs) simp_all

text \<open>The handle a client keeps, and whether it leads to the origin of a URL.\<close>

abbreviation kept_handle :: "client \<Rightarrow> handle"
  where "kept_handle c \<equiv> decode_socket_handle (reusable_socket_token c)"

definition reuses :: "client \<Rightarrow> url \<Rightarrow> bool"
where
  "reuses c u \<longleftrightarrow>
     has_reusable_connection c \<and> same_stored_origin (reusable_host c) (reusable_port c) (url_host u) (url_port u)"

text \<open>
  The log of getting a connection: nothing when the kept one is used; otherwise the kept one is closed
  first, then end points are tried.
\<close>

definition acquire_log :: "client \<Rightarrow> url \<Rightarrow> handle list \<Rightarrow> io_event list"
where
  "acquire_log c u hs =
     (if reuses c u then []
      else (if has_reusable_connection c then [Closed (kept_handle c)] else []) @ attempts hs)"

lemma acquire_connection_effect:
  assumes run: "acquire_connection os c u s = (res, c', s')" and wf: "client_wf c"
  shows "c' = forget_connection c \<and> (\<exists>hs. case res of
      Inr h \<Rightarrow> socket_valid h \<and> (reuses c u \<longrightarrow> h = kept_handle c)
         \<and> effect os s s' (acquire_log c u hs @ (if reuses c u then [] else [Opened h]))
    | Inl e \<Rightarrow> \<not> reuses c u \<and> effect os s s' (acquire_log c u hs))"
proof (cases "reuses c u")
  case True
  with run wf show ?thesis
    by (auto simp: acquire_connection_def adopt_native_handle_def client_wf_def reuses_def acquire_log_def)
next
  case False
  obtain c1 s1 where 1: "close_reusable_connection os c s = (c1, s1)" by fastforce
  obtain r2 s2 where 2: "resolve os (url_host u) (url_port u) s1 = (r2, s2)" by fastforce
  have c1: "c1 = forget_connection c" "effect os s s1 (acquire_log c u [])"
    using close_reusable_effect [OF 1 wf] False by (simp_all add: acquire_log_def)
  have e2: "effect os s s2 (acquire_log c u [])"
    using effect_trans [OF c1(2) resolve_effect [OF 2]] by simp
  note unfolded = acquire_connection_def if_not_P [OF False [unfolded reuses_def]] 1 prod.case 2
  show ?thesis
  proof (cases r2)
    case (Inl e)
    with run have "res = Inl e" "c' = c1" "s' = s2" unfolding unfolded by simp_all
    with c1 e2 False show ?thesis by auto
  next
    case (Inr es)
    obtain r3 s3 where 3: "tcp_connect os es (connect_timeout c1) s2 = (r3, s3)" by fastforce
    with run Inr have eq: "res = r3" "c' = c1" "s' = s3" unfolding unfolded by (auto split: sum.splits)
    from tcp_connect_effect [OF 3] obtain hs where hs:
      "effect os s2 s3 (attempts hs @ (case r3 of Inl err \<Rightarrow> [] | Inr h \<Rightarrow> [Opened h]))"
      "case r3 of Inl err \<Rightarrow> code err \<in> connect_codes | Inr h \<Rightarrow> socket_valid h" by blast
    have "effect os s s3 (acquire_log c u hs @ (case r3 of Inl err \<Rightarrow> [] | Inr h \<Rightarrow> [Opened h]))"
      using effect_trans [OF e2 hs(1)] False by (simp add: acquire_log_def)
    with hs(2) False c1(1) show ?thesis
      unfolding eq by (intro conjI exI [of _ hs]) (auto split: sum.splits)
  qed
qed

lemma acquire_log_views:
  "sent_in (acquire_log c u hs) = []" "received_in (acquire_log c u hs) = []"
  "\<not> reuses c u \<Longrightarrow> settled (acquire_log c u hs) (held c) {#}"
  by (auto simp: acquire_log_def settled_def held_def)

lemma acquire_log_settled:
  assumes "reuses c u \<longrightarrow> h = kept_handle c"
  shows "settled (acquire_log c u hs @ (if reuses c u then [] else [Opened h])) (held c) {#h#}"
  using assms by (auto simp: acquire_log_def settled_def held_def reuses_def)

section \<open>One exchange\<close>

text \<open>What was read when the read loop ends with a complete parser.\<close>

definition read_message :: "http_method \<Rightarrow> response_limits \<Rightarrow> string \<Rightarrow> response_parser \<Rightarrow> handle \<Rightarrow> bool"
where
  "read_message m lim inp q h \<longleftrightarrow>
     complete q \<and>
     ((\<exists>t close. inp = t @ pending_bytes q \<and> response_text m lim t (rp_response q) close
          \<and> connection_reusable q = (\<not> close))
      \<or> h = kInvalidSocket \<and> close_text m lim inp (rp_response q))"

lemma read_response_effect:
  assumes "read_response (read_some os False c tm) (mk_parser m lim) h s = Some (res, h', s')"
    and h: "socket_valid h" and c: "0 < c"
  shows "\<exists>rs. effect os s s' (map (Received h) rs @ (if socket_valid h' then [] else [Closed h]))
    \<and> (socket_valid h' \<longrightarrow> h' = h)
    \<and> (case res of Inr q \<Rightarrow> read_message m lim (concat rs) q h' | Inl e \<Rightarrow> True)"
proof (cases res)
  case (Inl e)
  with tcp.read_response_outcome [OF assms] h show ?thesis
    by (auto simp: tcp.read_error_def socket_valid_def)
next
  case (Inr q)
  with tcp.read_response_outcome [OF assms]
  consider "tcp.read_complete os (mk_parser m lim) h s q h' s'" | "tcp.read_to_eof os (mk_parser m lim) h s q h' s'"
    by auto
  then show ?thesis
  proof cases
    case 1
    then obtain bs where bs: "fed (mk_parser m lim) bs = Some q" "complete q" "h' = h"
        "effect os s s' (map (Received h) bs)"
      unfolding tcp.read_complete_def by blast
    from fed_complete_text [OF bs(1,2)] bs h Inr show ?thesis
      by (intro exI [of _ bs]) (simp add: read_message_def)
  next
    case 2
    then obtain bs rs p1 x where bs: "fed (mk_parser m lim) bs = Some p1" "\<not> complete p1"
        "finish_eof p1 = (Inr x, q)" "complete q" "h' = kInvalidSocket" "concat rs = concat bs"
        "effect os s s' (map (Received h) rs @ [Closed h])"
      unfolding tcp.read_to_eof_def by blast
    from fed_eof_text [OF bs(1-4)] bs Inr show ?thesis
      by (intro exI [of _ rs]) (simp add: read_message_def socket_valid_def)
  qed
qed

text \<open>What a client keeps after an exchange of the request \<open>r\<close> with the URL \<open>u\<close>.\<close>

definition keeps :: "client \<Rightarrow> request \<Rightarrow> url \<Rightarrow> string \<Rightarrow> response \<Rightarrow> bool"
where
  "keeps c r u inp resp \<longleftrightarrow>
     (has_reusable_connection c \<longrightarrow>
        response_text (req_method r) (client_limits c) inp resp False \<and> \<not> request_wants_connection_close r
        \<and> reusable_host c = url_host u \<and> reusable_port c = url_port u)"

definition response_of :: "http_method \<Rightarrow> response_limits \<Rightarrow> string \<Rightarrow> response \<Rightarrow> bool"
where
  "response_of m lim inp resp \<longleftrightarrow>
     (\<exists>t rest close. inp = t @ rest \<and> response_text m lim t resp close) \<or> close_text m lim inp resp"

lemma socket_destroy_invalid [simp]: "socket_destroy os kInvalidSocket s = s"
  by (simp add: socket_destroy_def socket_close_def socket_reset_def)

lemma socket_destroy_log:
  assumes "socket_valid h' \<longrightarrow> h' = h" and "effect os s s1 (xs @ (if socket_valid h' then [] else [Closed h]))"
  shows "effect os s (socket_destroy os h' s1) (xs @ [Closed h])"
  using effect_trans [OF assms(2) socket_destroy_effect [of os s1 h']] assms(1) by (auto split: if_splits)

lemma finish_exchange_effect:
  assumes run: "finish_exchange os c r u q h' s1 = Some (res, c', s')"
    and msg: "read_message (req_method r) (client_limits c) inp q h'"
    and h': "socket_valid h' \<longrightarrow> h' = h" and c: "\<not> has_reusable_connection c" "client_wf c"
    and io: "effect os s s1 (xs @ (if socket_valid h' then [] else [Closed h]))"
  shows "\<exists>resp. res = Inr resp \<and> response_of (req_method r) (client_limits c) inp resp
    \<and> keeps c' r u inp resp \<and> client_wf c' \<and> client_limits c' = client_limits c
    \<and> (has_reusable_connection c' \<longrightarrow> kept_handle c' = h)
    \<and> effect os s s' (xs @ (if has_reusable_connection c' then [] else [Closed h]))"
proof -
  have q: "take_response q = Some (rp_response q)" using msg by (simp add: read_message_def take_response_def)
  have resp: "response_of (req_method r) (client_limits c) inp (rp_response q)"
    using msg unfolding read_message_def response_of_def by blast
  show ?thesis
  proof (cases "connected h' \<and> connection_reusable q \<and> pending_bytes q = [] \<and> \<not> request_wants_connection_close r")
    case True
    then have v: "socket_valid h'" "h' = h" using h' by (simp_all add: connected_def)
    have "response_text (req_method r) (client_limits c) inp (rp_response q) False"
      using msg True v(1) by (auto simp: read_message_def socket_valid_def)
    with run True q v resp io show ?thesis
      by (auto simp: finish_exchange_def Let_def release_native_handle_def socket_release_def keeps_def
          client_wf_def token_roundtrip)
  next
    case False
    then have "res = Inr (rp_response q)" "c' = c" "s' = socket_destroy os h' s1"
      using run unfolding finish_exchange_def Let_def q option.case if_not_P [OF False] by simp_all
    with socket_destroy_log [OF h' io] resp c show ?thesis by (auto simp: keeps_def)
  qed
qed

text \<open>
  The log of an exchange on the connection \<open>h\<close>: the request is written, the response is read, and the
  connection is closed unless the client keeps it.
\<close>

definition exchange_log :: "'w os \<Rightarrow> client \<Rightarrow> request \<Rightarrow> handle \<Rightarrow> io_event list \<Rightarrow> response \<Rightarrow> client \<Rightarrow> bool"
where
  "exchange_log os c r h evs resp c' \<longleftrightarrow>
     (\<exists>ser out inp.
        serialize_request (os_inet_pton6 os) r = Inr ser
        \<and> evs = map (Sent h) out @ map (Received h) inp @ (if has_reusable_connection c' then [] else [Closed h])
        \<and> (sane_io os \<longrightarrow> concat out = ser_head ser @ ser_body ser)
        \<and> response_of (req_method r) (client_limits c) (concat inp) resp
        \<and> keeps c' r (ser_url ser) (concat inp) resp
        \<and> (has_reusable_connection c' \<longrightarrow> kept_handle c' = h))"

lemma exchange_log_settled: "exchange_log os c r h evs resp c' \<Longrightarrow> settled evs {#h#} (held c')"
  by (auto simp: exchange_log_def settled_def held_def)

lemma exchange_on_connection:
  assumes run: "(case send_request (remaining_timeout os) (write_all os) d (ser_head ser) (ser_body ser) h s of
       None \<Rightarrow> None
     | Some (Inl e, h, s) \<Rightarrow> Some (Inl e, c, socket_destroy os h s)
     | Some (Inr u, h, s) \<Rightarrow>
         (case read_response (read_some os False read_buffer_size (read_timeout c))
                 (mk_parser (req_method r) (client_limits c)) h s of
            None \<Rightarrow> None
          | Some (Inl e, h, s) \<Rightarrow> Some (Inl e, c, socket_destroy os h s)
          | Some (Inr parser, h, s) \<Rightarrow> finish_exchange os c r (ser_url ser) parser h s)) = Some (res, c', s')"
    and h: "socket_valid h" and c: "\<not> has_reusable_connection c" "client_wf c"
    and ser: "serialize_request (os_inet_pton6 os) r = Inr ser"
  shows "client_wf c' \<and> client_limits c' = client_limits c \<and> (\<exists>evs. effect os s s' evs
    \<and> (case res of
         Inl e \<Rightarrow> c' = c \<and> settled evs {#h#} {#}
       | Inr resp \<Rightarrow> exchange_log os c r h evs resp c'))"
proof -
  obtain rs h1 s1 where 1: "send_request (remaining_timeout os) (write_all os) d (ser_head ser) (ser_body ser) h s
      = Some (rs, h1, s1)"
    using run by (cases "send_request (remaining_timeout os) (write_all os) d (ser_head ser) (ser_body ser) h s") auto
  show ?thesis
  proof (cases rs)
    case (Inl e)
    from tcp.send_request_cut [OF 1 [unfolded Inl] h] obtain bs where
      bs: "h1 = kInvalidSocket" "effect os s s1 (map (Sent h) bs @ [Closed h])" by blast
    moreover from run 1 Inl bs(1) have "res = Inl e" "c' = c" "s' = s1" by simp_all
    ultimately show ?thesis using c
      by (auto simp: settled_def intro!: exI [of _ "map (Sent h) bs @ [Closed h]"])
  next
    case (Inr u)
    from tcp.send_request_sent [OF 1 [unfolded Inr] h] obtain bs where
      bs: "h1 = h" "effect os s s1 (map (Sent h) bs)" "sane_io os \<longrightarrow> concat bs = ser_head ser @ ser_body ser"
      by blast
    let ?read = "read_response (read_some os False read_buffer_size (read_timeout c))
        (mk_parser (req_method r) (client_limits c)) h s1"
    obtain rr h2 s2 where 2: "?read = Some (rr, h2, s2)"
      using run 1 Inr bs(1) by (cases ?read) auto
    have "0 < read_buffer_size" by (simp add: read_buffer_size_def)
    from read_response_effect [OF 2 h this] obtain xs where
      xs: "effect os s1 s2 (map (Received h) xs @ (if socket_valid h2 then [] else [Closed h]))"
        "socket_valid h2 \<longrightarrow> h2 = h"
        "case rr of Inr q \<Rightarrow> read_message (req_method r) (client_limits c) (concat xs) q h2 | Inl e \<Rightarrow> True"
      by blast
    let ?io = "map (Sent h) bs @ map (Received h) xs"
    have io: "effect os s s2 (?io @ (if socket_valid h2 then [] else [Closed h]))"
      using effect_trans [OF bs(2) xs(1)] by simp
    show ?thesis
    proof (cases rr)
      case (Inl e)
      with run 1 Inr bs(1) 2 have "res = Inl e" "c' = c" "s' = socket_destroy os h2 s2" by simp_all
      with socket_destroy_log [OF xs(2) io] c show ?thesis
        by (auto simp: settled_def intro!: exI [of _ "?io @ [Closed h]"])
    next
      case parsed: (Inr q)
      with run 1 Inr bs(1) 2 have fin: "finish_exchange os c r (ser_url ser) q h2 s2 = Some (res, c', s')" by simp
      from xs(3) parsed have "read_message (req_method r) (client_limits c) (concat xs) q h2" by simp
      from finish_exchange_effect [OF fin this xs(2) c io] obtain resp where
        fin: "res = Inr resp" "response_of (req_method r) (client_limits c) (concat xs) resp"
          "keeps c' r (ser_url ser) (concat xs) resp" "client_wf c'" "client_limits c' = client_limits c"
          "has_reusable_connection c' \<longrightarrow> kept_handle c' = h"
          "effect os s s' (?io @ (if has_reusable_connection c' then [] else [Closed h]))" by blast
      then have "exchange_log os c r h (?io @ (if has_reusable_connection c' then [] else [Closed h])) resp c'"
        unfolding exchange_log_def using ser bs(3)
        by (intro exI [of _ ser] exI [of _ bs] exI [of _ xs]) simp
      with fin show ?thesis by auto
    qed
  qed
qed

text \<open>The whole exchange, from the connection it uses to the connection it keeps.\<close>

lemma execute_once_effect:
  assumes run: "execute_once os c r s = Some (res, c', s')" and wf: "client_wf c"
  shows "client_wf c' \<and> client_limits c' = client_limits c \<and>
    (case serialize_request (os_inet_pton6 os) r of
       Inl e \<Rightarrow> res = Inl e \<and> c' = c \<and> s' = s
     | Inr ser \<Rightarrow>
         (case res of
            Inl e \<Rightarrow> \<not> has_reusable_connection c' \<and> (\<exists>evs. effect os s s' evs \<and> settled evs (held c) {#})
          | Inr resp \<Rightarrow>
              (\<exists>h hs evs. (reuses c (ser_url ser) \<longrightarrow> h = kept_handle c)
                 \<and> effect os s s' (acquire_log c (ser_url ser) hs
                      @ (if reuses c (ser_url ser) then [] else [Opened h]) @ evs)
                 \<and> exchange_log os c r h evs resp c')))"
proof (cases "serialize_request (os_inet_pton6 os) r")
  case (Inl e)
  with run wf show ?thesis by (simp add: execute_once_def)
next
  case (Inr ser)
  let ?u = "ser_url ser"
  obtain ra c1 s1 where 1: "acquire_connection os c ?u s = (ra, c1, s1)" by (metis prod_cases3)
  from acquire_connection_effect [OF 1 wf] obtain hs where
    c1: "c1 = forget_connection c" and acq: "case ra of
      Inr h \<Rightarrow> socket_valid h \<and> (reuses c ?u \<longrightarrow> h = kept_handle c)
         \<and> effect os s s1 (acquire_log c ?u hs @ (if reuses c ?u then [] else [Opened h]))
    | Inl e \<Rightarrow> \<not> reuses c ?u \<and> effect os s s1 (acquire_log c ?u hs)" by blast
  show ?thesis
  proof (cases ra)
    case (Inl e)
    with run Inr 1 have "res = Inl e" "c' = c1" "s' = s1" by (simp_all add: execute_once_def)
    with acq Inl c1 Inr acquire_log_views(3) show ?thesis by auto
  next
    case conn: (Inr h)
    obtain now s2 where 2: "clock_now os s1 = (now, s2)" by fastforce
    from acq conn have h: "socket_valid h" "reuses c ?u \<longrightarrow> h = kept_handle c"
        "effect os s s1 (acquire_log c ?u hs @ (if reuses c ?u then [] else [Opened h]))" by simp_all
    from run Inr 1 conn 2 exchange_on_connection [where os = os and c = c1 and r = r and ser = ser and h = h
        and s = s2 and d = "now + from_ms (write_timeout c1)", of res c' s'] h(1) c1
    obtain ys where ys: "client_wf c'" "client_limits c' = client_limits c1" "effect os s2 s' ys"
        "case res of Inl e \<Rightarrow> c' = c1 \<and> settled ys {#h#} {#} | Inr resp \<Rightarrow> exchange_log os c1 r h ys resp c'"
      unfolding execute_once_def by auto
    let ?acq = "acquire_log c ?u hs @ (if reuses c ?u then [] else [Opened h])"
    have all: "effect os s s' (?acq @ ys)"
      using h(3) effect_quiet_trans [OF clock_now_effect [OF 2] ys(3)] by (rule effect_trans)
    show ?thesis
    proof (cases res)
      case (Inl e)
      with ys(4) settled_trans [OF acquire_log_settled [OF h(2)], of ys "{#}" hs] all
      have "effect os s s' (?acq @ ys)" "settled (?acq @ ys) (held c) {#}" by auto
      with Inl ys c1 \<open>serialize_request _ r = Inr ser\<close> show ?thesis by auto
    next
      case (Inr resp)
      with ys(4) c1 have "exchange_log os c r h ys resp c'" by (simp add: exchange_log_def)
      moreover have "effect os s s' (acquire_log c ?u hs @ (if reuses c ?u then [] else [Opened h]) @ ys)"
        using all by simp
      ultimately have "\<exists>h hs evs. (reuses c ?u \<longrightarrow> h = kept_handle c)
          \<and> effect os s s' (acquire_log c ?u hs @ (if reuses c ?u then [] else [Opened h]) @ evs)
          \<and> exchange_log os c r h evs resp c'" using h(2) by blast
      with Inr ys(1,2) c1 \<open>serialize_request _ r = Inr ser\<close> show ?thesis by simp
    qed
  qed
qed

lemma execute_once_settled:
  assumes "execute_once os c r s = Some (res, c', s')" and "client_wf c"
  shows "\<exists>evs. effect os s s' evs \<and> settled evs (held c) (held c')"
proof (cases "serialize_request (os_inet_pton6 os) r")
  case (Inl e)
  with execute_once_effect [OF assms] show ?thesis by (auto intro!: exI [of _ "[]"])
next
  case (Inr ser)
  show ?thesis
  proof (cases res)
    case (Inl e)
    with Inr execute_once_effect [OF assms] show ?thesis by (auto simp: held_def)
  next
    case ok: (Inr resp)
    with Inr execute_once_effect [OF assms] obtain h hs evs where
      "reuses c (ser_url ser) \<longrightarrow> h = kept_handle c"
      "effect os s s' (acquire_log c (ser_url ser) hs @ (if reuses c (ser_url ser) then [] else [Opened h]) @ evs)"
      "exchange_log os c r h evs resp c'" by auto
    with settled_trans [OF acquire_log_settled [OF this(1)] exchange_log_settled [OF this(3)]] show ?thesis
      by (metis append_assoc)
  qed
qed

end
