(* ===== verification/Redirect_Chain.thy ===== *)
theory Redirect_Chain
  imports Client_Exchange Request_Wire
begin

text \<open>
  The redirect loop of \<open>Client::request\<close> as a chain of hops (\<open>hop_chain\<close>), the requests it makes
  (\<open>recording\<close>), and what every exchange keeps and therefore the whole call keeps.
\<close>

section \<open>Redirect chains\<close>

lemma redirect_fields_filter:
  "redirect_fields out fs cross drop_body = out @ filter
     (\<lambda>f. \<not> (cross \<and> is_cross_origin_sensitive_header (field_name f))
        \<and> \<not> (drop_body \<and> is_entity_header_removed_with_body (field_name f))) fs"
  by (induction fs arbitrary: out) (auto simp: headers_add_def mk_field_def)

lemma redirected_headers_filter:
  "redirected_headers fs cross drop_body = filter
     (\<lambda>f. \<not> (cross \<and> is_cross_origin_sensitive_header (field_name f))
        \<and> \<not> (drop_body \<and> is_entity_header_removed_with_body (field_name f))) fs"
  by (simp add: redirected_headers_def redirect_fields_filter)

text \<open>The origin a URL leads to; the case of the host's letters does not matter.\<close>

definition origin_of :: "(string \<Rightarrow> bool) \<Rightarrow> string \<Rightarrow> (string \<times> uint16) option"
where
  "origin_of inet t =
     (case Url_parse inet t of Inl e \<Rightarrow> None | Inr u \<Rightarrow> Some (map ascii_lower (url_host u), url_port u))"

lemma same_origin_iff:
  "Url_parse inet a = Inr u \<Longrightarrow> Url_parse inet b = Inr v \<Longrightarrow> same_origin u v \<longleftrightarrow> origin_of inet a = origin_of inet b"
  by (auto simp: same_origin_def origin_of_def ascii_iequals_map)

definition sensitive_free :: "headers \<Rightarrow> bool"
  where "sensitive_free h \<longleftrightarrow> (\<forall>f \<in> set h. \<not> is_cross_origin_sensitive_header (field_name f))"

text \<open>What a hop of the redirect loop does to its state.\<close>

lemma follow_redirectE:
  assumes "follow_redirect inet n st resp = Inr st'"
  obtains u v where "Url_parse inet (current_url st) = Inr u" "Url_parse inet (current_url st') = Inr v"
    "redirects_followed st < n" "redirects_followed st' = Suc (redirects_followed st)"
    "current_headers st' = redirected_headers (current_headers st) (\<not> same_origin u v)
       (\<not> preserve_body (redirect_behavior (status_code resp) (current_method st)))"
    "current_method st' = rb_method (redirect_behavior (status_code resp) (current_method st))"
    "current_body st' = (if preserve_body (redirect_behavior (status_code resp) (current_method st))
                         then current_body st else [])"
  using assms by (auto simp: follow_redirect_def Let_def split: if_splits sum.splits)

text \<open>The states of the loop after a given one, each a hop from the one before.\<close>

inductive hop_chain :: "(string \<Rightarrow> bool) \<Rightarrow> nat \<Rightarrow> redirect_state \<Rightarrow> redirect_state list \<Rightarrow> bool"
  for inet n
where
  chain_end: "hop_chain inet n st []"
| chain_hop: "follow_redirect inet n st resp = Inr st' \<Longrightarrow> hop_chain inet n st' sts \<Longrightarrow>
     hop_chain inet n st (st' # sts)"

inductive_cases hop_chain_ConsE [elim!]: "hop_chain inet n st (st' # sts)"

lemma hop_sensitive:
  assumes "follow_redirect inet n st resp = Inr st'"
    and "origin_of inet (current_url st) \<noteq> origin_of inet (current_url st') \<or> sensitive_free (current_headers st)"
  shows "sensitive_free (current_headers st')"
  using assms(1)
proof (rule follow_redirectE)
  fix u v
  assume "Url_parse inet (current_url st) = Inr u" "Url_parse inet (current_url st') = Inr v"
    and h: "current_headers st' = redirected_headers (current_headers st) (\<not> same_origin u v)
       (\<not> preserve_body (redirect_behavior (status_code resp) (current_method st)))"
  then have "same_origin u v \<longleftrightarrow> origin_of inet (current_url st) = origin_of inet (current_url st')"
    by (simp add: same_origin_iff)
  with assms(2) show ?thesis
    unfolding h by (auto simp: sensitive_free_def redirected_headers_filter)
qed

lemma chain_sensitive_kept:
  "hop_chain inet n st sts \<Longrightarrow> sensitive_free (current_headers st) \<Longrightarrow> j < length sts \<Longrightarrow>
     sensitive_free (current_headers (sts ! j))"
proof (induction arbitrary: j rule: hop_chain.induct)
  case (chain_hop st resp st' sts)
  from hop_sensitive [OF chain_hop.hyps(1)] chain_hop.prems(1) have "sensitive_free (current_headers st')" by blast
  with chain_hop.IH chain_hop.prems(2) show ?case by (cases j) auto
qed simp

lemma chain_sensitive:
  "hop_chain inet n st sts \<Longrightarrow> j < length sts \<Longrightarrow>
     origin_of inet (current_url st) \<noteq> origin_of inet (current_url (sts ! j)) \<Longrightarrow>
     sensitive_free (current_headers (sts ! j))"
proof (induction arbitrary: j rule: hop_chain.induct)
  case (chain_hop st resp st' sts)
  show ?case
  proof (cases "origin_of inet (current_url st) = origin_of inet (current_url st')")
    case True
    with chain_hop.prems chain_hop.IH show ?thesis by (cases j) auto
  next
    case False
    with hop_sensitive [OF chain_hop.hyps(1)] have "sensitive_free (current_headers st')" by blast
    with chain_sensitive_kept [OF chain_hop.hyps(2)] chain_hop.prems(1) show ?thesis by (cases j) auto
  qed
qed simp

lemma chain_drop:
  "hop_chain inet n st sts \<Longrightarrow> i \<le> length sts \<Longrightarrow> hop_chain inet n ((st # sts) ! i) (drop i sts)"
proof (induction arbitrary: i rule: hop_chain.induct)
  case (chain_end st)
  then show ?case by (simp add: hop_chain.chain_end)
next
  case (chain_hop st resp st' sts)
  then show ?case by (cases i) (auto intro: hop_chain.chain_hop)
qed

lemma chain_pair_sensitive:
  assumes "hop_chain inet n st sts" "i < j" "j \<le> length sts"
    and "origin_of inet (current_url ((st # sts) ! i)) \<noteq> origin_of inet (current_url ((st # sts) ! j))"
  shows "sensitive_free (current_headers ((st # sts) ! j))"
proof -
  from assms(2,3) obtain k where k: "j = Suc (i + k)" by (auto dest: less_imp_Suc_add)
  with assms(3) have "drop i sts ! k = (st # sts) ! j" "k < length (drop i sts)" by simp_all
  with chain_sensitive [OF chain_drop [OF assms(1), of i], of k] assms(2-4) show ?thesis by simp
qed

lemma chain_bound: "hop_chain inet n st sts \<Longrightarrow> redirects_followed st \<le> n \<Longrightarrow> length sts + redirects_followed st \<le> n"
proof (induction rule: hop_chain.induct)
  case (chain_hop st resp st' sts)
  from follow_redirect_counts [OF chain_hop.hyps(1)] chain_hop.IH show ?case by simp
qed simp

lemma resolve_no_fragment: "resolve_redirect_location inet base location = Inr c \<Longrightarrow> CHR ''#'' \<notin> set c"
proof -
  assume "resolve_redirect_location inet base location = Inr c"
  then have "\<exists>s. validate_redirect_url inet s = Inr c"
    by (auto simp: resolve_redirect_location_def Let_def split: if_splits option.splits)
  then obtain s where "c = strip_fragment s" unfolding validate_redirect_url_Inr by blast
  then show ?thesis using strip_fragment_no_hash by simp
qed

lemma hop_no_fragment: "follow_redirect inet n st resp = Inr st' \<Longrightarrow> CHR ''#'' \<notin> set (current_url st')"
  by (auto simp: follow_redirect_def Let_def dest: resolve_no_fragment split: if_splits sum.splits)

lemma chain_no_fragment: "hop_chain inet n st sts \<Longrightarrow> st' \<in> set sts \<Longrightarrow> CHR ''#'' \<notin> set (current_url st')"
  by (induction rule: hop_chain.induct) (auto dest: hop_no_fragment)

lemma redirected_request_url:
  "CHR ''#'' \<notin> set (current_url st) \<Longrightarrow> effective_request_url (redirected_request st) = current_url st"
proof -
  assume "CHR ''#'' \<notin> set (current_url st)"
  then have "find_chr (CHR ''#'') (current_url st) = None" by (auto simp: find_if_None)
  then show ?thesis
    by (simp add: effective_request_url_def redirected_request_def set_body_def mk_request_def take_opt_def
        append_query_params_eq)
qed

section \<open>The requests of a call\<close>

text \<open>An exchange that also notes the requests it is given.\<close>

definition recording ::
  "(request \<Rightarrow> 'x \<Rightarrow> (response result \<times> 'x) option) \<Rightarrow> request \<Rightarrow> 'x \<times> request list \<Rightarrow>
   (response result \<times> 'x \<times> request list) option"
where
  "recording execute r xr =
     (case execute r (fst xr) of None \<Rightarrow> None | Some (res, x) \<Rightarrow> Some (res, x, snd xr @ [r]))"

lemma recording_Some:
  "execute r x = Some (res, x') \<Longrightarrow> recording execute r (x, rs) = Some (res, x', rs @ [r])"
  by (simp add: recording_def)

lemma redirect_loop_recorded:
  "redirect_loop execute inet n st resp x = Some (res, x') \<Longrightarrow>
     \<exists>sts. hop_chain inet n st sts
       \<and> redirect_loop (recording execute) inet n st resp (x, rs) = Some (res, x', rs @ map redirected_request sts)
       \<and> (\<forall>resp'. res = Inr resp' \<longrightarrow> \<not> is_redirect_status (status_code resp'))"
proof (induction execute inet n st resp x arbitrary: rs rule: redirect_loop.induct)
  case (1 execute inet n st resp x)
  show ?case
  proof (cases "is_redirect_status (status_code resp)")
    case False
    with "1.prems" show ?thesis
      by (auto simp: redirect_loop.simps [of _ _ _ st resp] intro!: exI [of _ "[]"] chain_end)
  next
    case True
    show ?thesis
    proof (cases "follow_redirect inet n st resp")
      case (Inl e)
      with True "1.prems" show ?thesis
        by (auto simp: redirect_loop.simps [of _ _ _ st resp] intro!: exI [of _ "[]"] chain_end)
    next
      case (Inr st1)
      with True "1.prems" obtain r1 x1 where ex: "execute (redirected_request st1) x = Some (r1, x1)"
        by (auto simp: redirect_loop.simps [of _ _ _ st resp] split: option.splits)
      show ?thesis
      proof (cases r1)
        case (Inl e)
        with True \<open>follow_redirect inet n st resp = Inr st1\<close> ex "1.prems" show ?thesis
          by (auto simp: redirect_loop.simps [of _ _ _ st resp] recording_def
              intro!: exI [of _ "[st1]"] chain_hop chain_end)
      next
        case (Inr resp1)
        with True \<open>follow_redirect inet n st resp = Inr st1\<close> ex "1.prems"
        have rest: "redirect_loop execute inet n st1 resp1 x1 = Some (res, x')"
          by (simp add: redirect_loop.simps [of _ _ _ st resp])
        from "1.IH" [OF _ \<open>follow_redirect inet n st resp = Inr st1\<close> ex _ Inr rest, of "rs @ [redirected_request st1]"] True
        obtain sts where sts: "hop_chain inet n st1 sts"
          "redirect_loop (recording execute) inet n st1 resp1 (x1, rs @ [redirected_request st1])
             = Some (res, x', (rs @ [redirected_request st1]) @ map redirected_request sts)"
          "\<forall>resp'. res = Inr resp' \<longrightarrow> \<not> is_redirect_status (status_code resp')" by blast
        with True \<open>follow_redirect inet n st resp = Inr st1\<close> ex Inr show ?thesis
          by (auto simp: redirect_loop.simps [of _ _ _ st resp] recording_Some [where execute = execute, OF ex]
              intro!: exI [of _ "st1 # sts"] chain_hop)
      qed
    qed
  qed
qed

lemma request_with_recorded:
  assumes "request_with execute inet follow n r x = Some (res, x')"
  shows "\<exists>sts. hop_chain inet n (start_redirects r) sts
    \<and> request_with (recording execute) inet follow n r (x, []) = Some (res, x', r # map redirected_request sts)
    \<and> (\<forall>resp. res = Inr resp \<longrightarrow> follow \<longrightarrow> \<not> is_redirect_status (status_code resp))
    \<and> (\<not> follow \<longrightarrow> sts = [])"
proof -
  obtain r1 x1 where ex: "execute r x = Some (r1, x1)"
    using assms by (auto simp: request_with_def split: option.splits)
  show ?thesis
  proof (cases "\<exists>resp. r1 = Inr resp \<and> follow \<and> is_redirect_status (status_code resp)")
    case True
    then obtain resp where resp: "r1 = Inr resp" "follow" "is_redirect_status (status_code resp)" by blast
    with assms ex have "redirect_loop execute inet n (start_redirects r) resp x1 = Some (res, x')"
      by (simp add: request_with_def)
    from redirect_loop_recorded [OF this, of "[r]"] resp ex show ?thesis
      by (auto simp: request_with_def recording_Some [where execute = execute, OF ex])
  next
    case False
    with assms ex show ?thesis
      by (intro exI [of _ "[]"])
        (auto simp: request_with_def recording_Some [where execute = execute, OF ex] chain_end split: sum.splits if_splits)
  qed
qed

text \<open>A relation that every exchange keeps is kept by the whole call.\<close>

lemma redirect_loop_keeps:
  assumes "\<And>r x res x'. execute r x = Some (res, x') \<Longrightarrow> R x0 x \<Longrightarrow> R x0 x'"
  shows "redirect_loop execute inet n st resp x = Some (res, x') \<Longrightarrow> R x0 x \<Longrightarrow> R x0 x'"
  using assms
proof (induction execute inet n st resp x rule: redirect_loop.induct)
  case (1 execute inet n st resp x)
  show ?case
  proof (cases "is_redirect_status (status_code resp) \<and> (\<exists>st'. follow_redirect inet n st resp = Inr st')")
    case False
    with "1.prems" show ?thesis by (auto simp: redirect_loop.simps [of _ _ _ st resp] split: if_splits sum.splits)
  next
    case True
    then obtain st' where st': "is_redirect_status (status_code resp)" "follow_redirect inet n st resp = Inr st'" by blast
    with "1.prems"(1) obtain r1 x1 where ex: "execute (redirected_request st') x = Some (r1, x1)"
      by (auto simp: redirect_loop.simps [of _ _ _ st resp] split: option.splits)
    have x1: "R x0 x1" using "1.prems"(3) [OF ex "1.prems"(2)] .
    show ?thesis
    proof (cases r1)
      case (Inl e)
      with st' ex x1 "1.prems"(1) show ?thesis by (simp add: redirect_loop.simps [of _ _ _ st resp])
    next
      case (Inr resp1)
      with st' ex "1.prems"(1) have "redirect_loop execute inet n st' resp1 x1 = Some (res, x')"
        by (simp add: redirect_loop.simps [of _ _ _ st resp])
      from "1.IH" [OF _ st'(2) ex _ Inr this x1 "1.prems"(3)] st'(1) show ?thesis by simp
    qed
  qed
qed

lemma request_with_keeps:
  assumes step: "\<And>r x res x'. execute r x = Some (res, x') \<Longrightarrow> R x0 x \<Longrightarrow> R x0 x'"
    and run: "request_with execute inet follow n r x = Some (res, x')" and start: "R x0 x"
  shows "R x0 x'"
proof -
  obtain r1 x1 where ex: "execute r x = Some (r1, x1)"
    using run by (auto simp: request_with_def split: option.splits)
  have "R x0 x1" using step [OF ex start] .
  with run ex redirect_loop_keeps [of execute R x0 inet n _ _ x1 res x'] step show ?thesis
    by (auto simp: request_with_def split: sum.splits if_splits)
qed

text \<open>Ownership over a whole call.\<close>

lemma client_request_settles:
  assumes run: "client_request os c r s = Some (res, c', s')" and wf: "client_wf c"
  shows "client_wf c' \<and> client_limits c' = client_limits c \<and>
    (\<exists>evs. effect os s s' evs \<and> settled evs (held c) (held c'))"
proof -
  define R where "R = (\<lambda>(c, s) (c', s'). client_wf c' \<and> client_limits c' = client_limits c \<and>
    (\<exists>evs. effect os s s' evs \<and> settled evs (held c) (held c')))"
  have step: "R (c, s) y" if "(\<lambda>(c, s). execute_once os c r s) x = Some (res, y)" "R (c, s) x" for r x res y
  proof -
    obtain c1 s1 c2 s2 where xy: "x = (c1, s1)" "y = (c2, s2)" by fastforce
    with that(1) have ex: "execute_once os c1 r s1 = Some (res, c2, s2)" by simp
    from that(2) xy obtain evs where 1: "client_wf c1" "client_limits c1 = client_limits c"
        "effect os s s1 evs" "settled evs (held c) (held c1)" unfolding R_def by auto
    from execute_once_effect [OF ex 1(1)] execute_once_settled [OF ex 1(1)] obtain evs' where
      2: "effect os s1 s2 evs'" "settled evs' (held c1) (held c2)" "client_wf c2"
        "client_limits c2 = client_limits c1" by blast
    from effect_trans [OF 1(3) 2(1)] settled_trans [OF 1(4) 2(2)] 1(2) 2(3,4) show ?thesis
      unfolding R_def xy by auto
  qed
  have start: "R (c, s) (c, s)" using wf unfolding R_def by (auto intro!: exI [of _ "[]"])
  from run have "request_with (\<lambda>r (c, s). execute_once os c r s) (os_inet_pton6 os)
      (follow_redirects c) (max_redirects c) r (c, s) = Some (res, (c', s'))" by (simp add: client_request_def)
  from request_with_keeps [where R = R and execute = "\<lambda>r (c, s). execute_once os c r s", OF step this start] show ?thesis unfolding R_def by simp
qed

end
