(* ===== verification/Net_Properties.thy ===== *)
theory Net_Properties
  imports Tcp_Connection
begin

text \<open>
  The properties of \<open>src/net/\<close>: what \<open>TcpConnection\<close> and \<open>Resolver\<close> do to the system, stated on the log, and
  a small system on which they run.
\<close>

section \<open>A system to run on\<close>

text \<open>
  A small system with the constants of Linux, on which the witnesses below run: the clock advances by a
  microsecond with each reading, \<open>send\<close> takes the numbers of bytes in a script (a negative one is
  \<open>EAGAIN\<close>) and \<open>recv\<close> delivers the pieces in a script, then the end of the stream.
\<close>

record script =
  sc_clock :: int
  sc_next :: handle
  sc_sends :: "int list"
  sc_reads :: "string list"

definition demo_os :: "script os"
where
  "demo_os =
     \<lparr>os_socket = (\<lambda>f t p w. (sc_next w, 0, w\<lparr>sc_next := sc_next w + 1\<rparr>)),
      os_close = (\<lambda>h w. w), os_getfl = (\<lambda>h w. (0, 0, w)), os_setfl = (\<lambda>h n w. (0, 0, w)),
      os_poll = (\<lambda>h ev t w. (1, 0, w)),
      os_send = (\<lambda>h b f w. case sc_sends w of
                    [] \<Rightarrow> (int (length b), 0, w)
                  | n # ns \<Rightarrow> if n < 0 then (- 1, 11, w\<lparr>sc_sends := ns\<rparr>)
                             else (min n (int (length b)), 0, w\<lparr>sc_sends := ns\<rparr>)),
      os_recv = (\<lambda>h n w. case sc_reads w of
                    [] \<Rightarrow> (0, 0, [], w)
                  | b # bs \<Rightarrow> (int (length (take n b)), 0, take n b, w\<lparr>sc_reads := bs\<rparr>)),
      os_connect = (\<lambda>h a n w. (0, 0, w)), os_so_error = (\<lambda>h w. (0, 0, 0, w)),
      os_now = (\<lambda>w. (sc_clock w, w\<lparr>sc_clock := sc_clock w + 1000\<rparr>)),
      os_getaddrinfo = (\<lambda>n p hi w. (0, [\<lparr>ai_family = 2, ai_socktype = 1, ai_protocol = 6, ai_addrlen = 16,
                                        ai_addr = Some (replicate 16 (CHR 0x00))\<rparr>], w)),
      os_freeaddrinfo = (\<lambda>l w. w), os_inet_pton6 = (\<lambda>t. False),
      EINTR = 4, EAGAIN = 11, EWOULDBLOCK = 11, EPIPE = 32, ECONNRESET = 104, ENOTCONN = 107,
      ESHUTDOWN = 108, EINPROGRESS = 115, EALREADY = 114, O_NONBLOCK = 2048, POLLIN = 1, POLLOUT = 4,
      MSG_NOSIGNAL = 16384, AF_UNSPEC = 0, AF_INET = 2, AF_INET6 = 10, SOCK_STREAM = 1, IPPROTO_TCP = 6,
      AI_NUMERICSERV = 1024, sizeof_sockaddr_storage = 128, ss_family = (\<lambda>a. 2)\<rparr>"

definition demo_sys :: "int list \<Rightarrow> string list \<Rightarrow> script sys"
  where "demo_sys sends reads =
    \<lparr>world = \<lparr>sc_clock = 0, sc_next = 3, sc_sends = sends, sc_reads = reads\<rparr>, sys_log = []\<rparr>"

lemma demo_sane: "sane_io demo_os"
  by (auto simp: sane_io_def demo_os_def split: list.splits)

lemma demo_clock: "clock_advances demo_os (\<lambda>d w. nat (d - sc_clock w))"
proof -
  have "sc_clock w \<le> sc_clock w'" if "os_call demo_os w w'" for w w'
    using that by cases (auto simp: demo_os_def split: list.splits if_splits)
  moreover have "os_now demo_os w = (t, w') \<Longrightarrow> t = sc_clock w \<and> sc_clock w' = sc_clock w + 1000" for w t w'
    by (auto simp: demo_os_def)
  ultimately show ?thesis unfolding clock_advances_def by fastforce
qed

section \<open>Properties\<close>

lemma length_to_digits: "n < 10 ^ Suc k \<Longrightarrow> length (to_digits 10 n) \<le> Suc k"
proof (induction k arbitrary: n)
  case 0
  then show ?case by (subst to_digits.simps) simp
next
  case (Suc k)
  show ?case
  proof (cases "n < 10")
    case False
    have "n div 10 < 10 ^ Suc k" using Suc.prems by (simp add: less_mult_imp_div_less)
    with Suc.IH False show ?thesis by (subst to_digits.simps) simp
  qed (subst to_digits.simps, simp)
qed

lemma service_length: "length (to_decimal (unat (port :: uint16))) \<le> 5"
proof -
  have "unat port < 2 ^ 16" using unsigned_less [of port] by simp
  then have "unat port < 10 ^ Suc 4" by simp
  from length_to_digits [OF this] show ?thesis by (simp add: to_decimal_def)
qed

text \<open>The results of \<open>getaddrinfo\<close> that are used, and the end point each becomes.\<close>

definition usable :: "'w os \<Rightarrow> addrinfo \<Rightarrow> bool"
where
  "usable os a \<longleftrightarrow>
     ai_addr a \<noteq> None \<and> ai_family a \<in> {AF_INET os, AF_INET6 os}
     \<and> 0 < ai_addrlen a \<and> ai_addrlen a \<le> sizeof_sockaddr_storage os"

definition to_endpoint :: "'w os \<Rightarrow> addrinfo \<Rightarrow> endpoint"
where
  "to_endpoint os a =
     mk_endpoint os (ai_addr a) (ai_addrlen a)
       (if ai_socktype a \<noteq> 0 then ai_socktype a else SOCK_STREAM os)
       (if ai_protocol a \<noteq> 0 then ai_protocol a else IPPROTO_TCP os)"

lemma collect_endpoints_eq:
  "collect_endpoints os es results = es @ map (to_endpoint os) (filter (usable os) results)"
  by (induction results arbitrary: es) (auto simp: usable_def to_endpoint_def Let_def)

lemma usable_valid: "usable os a \<Longrightarrow> endpoint_valid (to_endpoint os a)"
  by (auto simp: usable_def to_endpoint_def mk_endpoint_def endpoint_valid_def Let_def)

definition resolver_hints :: "'w os \<Rightarrow> addr_hints"
where
  "resolver_hints os = \<lparr>hint_family = AF_UNSPEC os, hint_socktype = SOCK_STREAM os,
     hint_protocol = IPPROTO_TCP os, hint_flags = AI_NUMERICSERV os\<rparr>"

section \<open>Properties\<close>

text \<open>
  C11: \<open>write_all\<close> sends exactly the data.  A success has sent all of it, piece by piece, on the
  connection, which stays open; a failure has sent a beginning of it and has closed the connection,
  with one of three codes.
\<close>

theorem write_all_exact:
  assumes "write_all os data timeout h s = Some (res, h', s')" and "connected h" and "sane_io os"
  shows "\<exists>pieces. case res of
      Inr n \<Rightarrow> n = length data \<and> concat pieces = data \<and> h' = h
               \<and> sys_log s' = sys_log s @ map (Sent h) pieces
    | Inl e \<Rightarrow> code e \<in> {WriteTimeout, WriteFailed, ConnectionClosed}
               \<and> (\<exists>k. concat pieces = take k data) \<and> \<not> connected h'
               \<and> sys_log s' = sys_log s @ map (Sent h) pieces @ [Closed h]"
proof (cases res)
  case (Inl e)
  with write_all_cut [of os data timeout h s e h' s'] assms show ?thesis
    by (auto simp: connected_def socket_valid_def effect_def write_codes_def)
next
  case (Inr n)
  with write_all_sent [of os data timeout h s n h' s'] assms show ?thesis
    by (auto simp: connected_def effect_def)
qed

declare write_loop.simps [code] read_loop.simps [code]

lemma demo_write:
  "case write_all demo_os ''abcde'' 10 3 (demo_sys [2, - 1, 2] []) of
     Some (res, h, s) \<Rightarrow> res = Inr 5
   | None \<Rightarrow> False"
  by code_simp

theorem write_all_exact_witness:
  "\<exists>s' pieces. write_all demo_os ''abcde'' 10 3 (demo_sys [2, - 1, 2] []) = Some (Inr 5, 3, s')
     \<and> concat pieces = ''abcde'' \<and> sys_log s' = map (Sent 3) pieces"
proof -
  from demo_write obtain h s where
    run: "write_all demo_os ''abcde'' 10 3 (demo_sys [2, - 1, 2] []) = Some (Inr 5, h, s)"
    by (auto split: option.splits)
  have "connected 3" by (simp add: connected_def socket_valid_def kInvalidSocket_def)
  from write_all_exact [OF run this demo_sane] run show ?thesis
    by (auto simp: demo_sys_def)
qed

text \<open>
  C23: \<open>read_some\<close> delivers between one byte and a full buffer, exactly the bytes that arrived, and keeps
  the connection; or it closes the connection.  Where it reports \<open>ConnectionClosed\<close>, no byte was lost.
\<close>

theorem read_some_exact:
  assumes "read_some os False capacity timeout h s = Some (res, h', s')" and "connected h" and "sane_io os"
    and "0 < capacity"
  shows "case res of
      Inr (n, buffer) \<Rightarrow> 0 < n \<and> n \<le> capacity \<and> length buffer = n \<and> h' = h
               \<and> sys_log s' = sys_log s @ [Received h buffer]
    | Inl e \<Rightarrow> code e \<in> {ReadTimeout, ReadFailed, ConnectionClosed} \<and> \<not> connected h'
               \<and> (\<exists>pieces. sys_log s' = sys_log s @ map (Received h) pieces @ [Closed h]
                     \<and> (code e = ConnectionClosed \<longrightarrow> concat pieces = []))"
proof (cases res)
  case (Inl e)
  with read_some_cut [of os capacity timeout h s e h' s'] assms show ?thesis
    by (auto simp: connected_def socket_valid_def effect_def read_codes_def)
next
  case (Inr nb)
  obtain n b where "nb = (n, b)" by fastforce
  with Inr read_some_got [of os capacity timeout h s n b h' s'] assms show ?thesis
    by (auto simp: connected_def effect_def)
qed

lemma demo_read:
  "case read_some demo_os False 3 10 3 (demo_sys [] [''abcde'']) of
     Some (res, h, s) \<Rightarrow> res = Inr (3, ''abc'')
   | None \<Rightarrow> False"
  by code_simp

theorem read_some_exact_witness:
  "\<exists>s'. read_some demo_os False 3 10 3 (demo_sys [] [''abcde'']) = Some (Inr (3, ''abc''), 3, s')
     \<and> sys_log s' = [Received 3 ''abc'']"
proof -
  from demo_read obtain h s where
    run: "read_some demo_os False 3 10 3 (demo_sys [] [''abcde'']) = Some (Inr (3, ''abc''), h, s)"
    by (auto split: option.splits)
  have "connected 3" by (simp add: connected_def socket_valid_def kInvalidSocket_def)
  from read_some_exact [OF run this demo_sane] run show ?thesis
    by (simp add: demo_sys_def)
qed

text \<open>
  C21: A call to \<open>write_all\<close> or \<open>read_some\<close> returns, whatever the peer does, when only finitely many
  readings of the clock fit before any point in time.
\<close>

theorem io_calls_return:
  assumes "clock_advances os rank"
  shows "(\<exists>res h' s'. write_all os data timeout h s = Some (res, h', s'))
    \<and> (\<exists>res h' s'. read_some os null_buffer capacity timeout h s = Some (res, h', s'))"
  using write_all_returns [OF assms, of data timeout h s] read_some_returns [OF assms, of null_buffer capacity timeout h s]
  by auto

theorem io_calls_return_witness:
  "\<exists>res h' s'. write_all demo_os ''abc'' 10 3 (demo_sys [0] []) = Some (res, h', s')"
  using io_calls_return [OF demo_clock] by blast

text \<open>
  C27: \<open>TcpConnection::connect\<close> leaks no socket.  It opens at most one per end point and closes each
  before the next; after a success exactly the socket of the connection is open, after an error none.
\<close>

theorem connect_leaks_nothing:
  assumes "tcp_connect os endpoints timeout s = (res, s')"
  shows "\<exists>hs. length hs \<le> length endpoints \<and>
    (case res of
       Inr h \<Rightarrow> connected h \<and> sys_log s' = sys_log s @ attempts hs @ [Opened h]
     | Inl e \<Rightarrow> code e \<in> {ConnectTimeout, ConnectFailed, SocketCreateFailed}
                \<and> sys_log s' = sys_log s @ attempts hs)"
  using tcp_connect_effect [OF assms]
  by (auto simp: effect_def connected_def connect_codes_def split: sum.splits)

definition demo_endpoint :: endpoint
where
  "demo_endpoint = \<lparr>ep_address = replicate 128 (CHR 0x00), ep_address_size = 16, ep_socket_type = 1,
     ep_protocol = 6\<rparr>"

lemma demo_connect: "fst (tcp_connect demo_os [demo_endpoint] 10 (demo_sys [] [])) = Inr 3"
  by code_simp

theorem connect_leaks_nothing_witness:
  "\<exists>s' hs. tcp_connect demo_os [demo_endpoint] 10 (demo_sys [] []) = (Inr 3, s') \<and> length hs \<le> 1
     \<and> sys_log s' = attempts hs @ [Opened 3]"
proof -
  from demo_connect obtain s' where run: "tcp_connect demo_os [demo_endpoint] 10 (demo_sys [] []) = (Inr 3, s')"
    by (metis prod.collapse)
  from connect_leaks_nothing [OF run] run show ?thesis by (auto simp: demo_sys_def)
qed

text \<open>
  A signal that interrupts the wait for a connection fails the attempt (line 118 of \<open>socket_connect.cpp\<close>), where
  \<open>write_all\<close> and \<open>read_some\<close> go on waiting.
\<close>

definition signal_os :: "script os"
where
  "signal_os = demo_os\<lparr>os_connect := (\<lambda>h a n w. (- 1, 115, w)), os_poll := (\<lambda>h ev t w. (- 1, 4, w))\<rparr>"

lemma interrupted_connect_fails:
  "fst (tcp_connect signal_os [demo_endpoint] 10 (demo_sys [] [])) = fail_native ConnectFailed 4"
  by code_simp

lemma interrupted_write_goes_on:
  "case write_all signal_os ''data'' 10 5 (demo_sys [- 1, - 1] []) of
     None \<Rightarrow> False | Some (r, h, s) \<Rightarrow> r = Inr 4 \<and> sent_in (sys_log s) = ''data''"
  by code_simp

text \<open>
  C32: \<open>Resolver::resolve\<close> succeeds exactly when the host is a C string that \<open>getaddrinfo\<close> resolves with
  at least one usable result.  It returns the usable results in their order, each a valid end point,
  gives the list back to the system, and the conversion of the port never fails.
\<close>

theorem resolve_exact:
  "resolve os host port s = (Inr endpoints, s') \<longleftrightarrow>
     host \<noteq> [] \<and> CHR 0x00 \<notin> set host
     \<and> (\<exists>results w.
          os_getaddrinfo os host (to_decimal (unat port)) (resolver_hints os) (world s) = (0, results, w)
          \<and> endpoints = map (to_endpoint os) (filter (usable os) results)
          \<and> endpoints \<noteq> [] \<and> list_all endpoint_valid endpoints
          \<and> s' = s\<lparr>world := release_addrinfo os results w\<rparr>)"
proof -
  obtain status results w where
    call: "os_getaddrinfo os host (to_decimal (unat port)) (resolver_hints os) (world s) = (status, results, w)"
    by (metis prod_cases3)
  have valid: "list_all endpoint_valid (map (to_endpoint os) (filter (usable os) results))"
    by (auto simp: usable_valid list_all_iff)
  show ?thesis
    using call valid service_length [of port]
    by (auto simp: resolve_def ensure_network_runtime_def Let_def collect_endpoints_eq
        resolver_hints_def [symmetric] split: if_splits)
qed

end
