(* ===== verification/Client_Properties.thy ===== *)
theory Client_Properties
  imports Redirect_Chain Net_Properties
begin

text \<open>
  The properties of \<open>Client\<close>: what an exchange sends and returns, which connections are kept, who owns the
  sockets, what a redirect chain carries along, and a limit of the program.
\<close>

declare read_response.simps [code]

section \<open>The requests of a call\<close>

definition request_origin :: "(string \<Rightarrow> bool) \<Rightarrow> request \<Rightarrow> (string \<times> uint16) option"
  where "request_origin inet r = origin_of inet (effective_request_url r)"

text \<open>The requests a call makes: those a recording exchange is given.\<close>

definition requests_made ::
  "'w os \<Rightarrow> client \<Rightarrow> request \<Rightarrow> 'w sys \<Rightarrow> response result \<Rightarrow> client \<Rightarrow> 'w sys \<Rightarrow> request list \<Rightarrow> bool"
where
  "requests_made os c r s res c' s' rs \<longleftrightarrow>
     request_with (recording (\<lambda>r (c, s). execute_once os c r s)) (os_inet_pton6 os)
       (follow_redirects c) (max_redirects c) r ((c, s), []) = Some (res, (c', s'), rs)"

lemma client_request_recorded:
  assumes "client_request os c r s = Some (res, c', s')"
  shows "\<exists>sts. hop_chain (os_inet_pton6 os) (max_redirects c) (start_redirects r) sts
    \<and> requests_made os c r s res c' s' (r # map redirected_request sts)
    \<and> (\<forall>resp. res = Inr resp \<longrightarrow> follow_redirects c \<longrightarrow> \<not> is_redirect_status (status_code resp))
    \<and> (\<not> follow_redirects c \<longrightarrow> sts = [])"
  using request_with_recorded [OF assms [unfolded client_request_def]]
  unfolding requests_made_def by blast

lemma chain_request:
  assumes "hop_chain inet n (start_redirects r) sts" "j \<le> length sts"
  shows "request_origin inet ((r # map redirected_request sts) ! j)
      = origin_of inet (current_url ((start_redirects r # sts) ! j))
    \<and> req_headers ((r # map redirected_request sts) ! j) = current_headers ((start_redirects r # sts) ! j)"
proof (cases j)
  case 0
  then show ?thesis by (simp add: request_origin_def start_redirects_def)
next
  case (Suc k)
  then have k: "k < length sts" using assms(2) by simp
  then have "CHR ''#'' \<notin> set (current_url (sts ! k))" using chain_no_fragment [OF assms(1)] by simp
  with Suc k show ?thesis
    by (simp add: request_origin_def redirected_request_url) (simp add: redirected_request_def set_body_def)
qed

section \<open>A call to run\<close>

text \<open>A redirect from the host \<open>a\<close> to the host \<open>b\<close>, of a request with a cookie.\<close>

definition hop_reply :: string
where
  "hop_reply = ''HTTP/1.1 302 F'' @ crlf @ ''Location: http://b/x'' @ crlf
     @ ''Content-Length: 0'' @ crlf @ crlf"

definition ok_reply :: string
  where "ok_reply = ''HTTP/1.1 200 OK'' @ crlf @ ''Content-Length: 2'' @ crlf @ crlf @ ''hi''"

definition login_request :: request
where
  "login_request = (mk_request Get ''http://a/'')
     \<lparr>req_headers := [mk_field ''Cookie'' ''k'', mk_field ''X'' ''1'']\<rparr>"

definition demo_start :: "script sys"
  where "demo_start = demo_sys [] [hop_reply, ok_reply]"

lemma demo_call:
  "case client_request demo_os mk_client login_request demo_start of
     None \<Rightarrow> False
   | Some (res, c, s) \<Rightarrow> result_has_value res"
  by code_simp

lemma demo_requests:
  "case request_with (recording (\<lambda>r (c, s). execute_once demo_os c r s)) (os_inet_pton6 demo_os)
       (follow_redirects mk_client) (max_redirects mk_client) login_request ((mk_client, demo_start), []) of
     None \<Rightarrow> False
   | Some (res, cs, rs) \<Rightarrow> length rs = 2 \<and> req_url (rs ! 1) = ''http://b/x''
        \<and> req_headers (rs ! 1) = [mk_field ''X'' ''1'']
        \<and> request_origin (os_inet_pton6 demo_os) (rs ! 0) \<noteq> request_origin (os_inet_pton6 demo_os) (rs ! 1)"
  by code_simp

lemma demo_exchange:
  "case execute_once demo_os mk_client (mk_request Get ''http://b/x'') (demo_sys [] [ok_reply]) of
     None \<Rightarrow> False
   | Some (res, c, s) \<Rightarrow> (case res of Inl e \<Rightarrow> False | Inr resp \<Rightarrow> body resp = ''hi'')
        \<and> has_reusable_connection c"
  by code_simp

lemma mk_client_wf: "client_wf mk_client" "held mk_client = {#}"
  by (simp_all add: client_wf_def mk_client_def held_def)

lemma chain_pair_sensitive_kept:
  assumes "hop_chain inet n st sts" "j \<le> k" "k \<le> length sts"
    and "sensitive_free (current_headers ((st # sts) ! j))"
  shows "sensitive_free (current_headers ((st # sts) ! k))"
proof (cases "j = k")
  case False
  with assms(2,3) obtain i where i: "k = Suc (j + i)" by (auto dest: less_imp_Suc_add simp: order.order_iff_strict)
  with assms(3) have "drop j sts ! i = (st # sts) ! k" "i < length (drop j sts)" by simp_all
  with chain_sensitive_kept [OF chain_drop [OF assms(1), of j], of i] assms(2-4) show ?thesis by simp
qed (use assms in simp)

section \<open>Properties\<close>

text \<open>
  C1: What an exchange that succeeds does to the system, event by event.  It uses the kept connection
  exactly when that leads to the origin of the request, and otherwise closes it before it opens
  another; it writes exactly the serialized request; the bytes it reads spell the response it
  returns, under the grammar of responses and the limits of the client; and it closes the connection
  unless it keeps it.
\<close>

theorem exchange_exact:
  assumes "execute_once os c r s = Some (Inr resp, c', s')" and "client_wf c" and "sane_io os"
  shows "\<exists>ser h tried out inp. serialize_request (os_inet_pton6 os) r = Inr ser
    \<and> (reuses c (ser_url ser) \<longrightarrow> h = kept_handle c)
    \<and> sys_log s' = sys_log s
        @ acquire_log c (ser_url ser) tried @ (if reuses c (ser_url ser) then [] else [Opened h])
        @ map (Sent h) out @ map (Received h) inp
        @ (if has_reusable_connection c' then [] else [Closed h])
    \<and> concat out = ser_head ser @ ser_body ser
    \<and> ((\<exists>text pending close. concat inp = text @ pending
            \<and> response_text (req_method r) (client_limits c) text resp close)
       \<or> close_text (req_method r) (client_limits c) (concat inp) resp)"
proof -
  from execute_once_effect [OF assms(1,2)] obtain ser where ser: "serialize_request (os_inet_pton6 os) r = Inr ser"
    by (auto split: sum.splits)
  with execute_once_effect [OF assms(1,2)] obtain h hs evs where
    h: "reuses c (ser_url ser) \<longrightarrow> h = kept_handle c" and
    log: "sys_log s' = sys_log s @ acquire_log c (ser_url ser) hs
       @ (if reuses c (ser_url ser) then [] else [Opened h]) @ evs" and
    ex: "exchange_log os c r h evs resp c'" by (auto simp: effect_def)
  from ex ser assms(3) obtain out inp where
    "evs = map (Sent h) out @ map (Received h) inp @ (if has_reusable_connection c' then [] else [Closed h])"
    "concat out = ser_head ser @ ser_body ser"
    "response_of (req_method r) (client_limits c) (concat inp) resp"
    unfolding exchange_log_def by auto
  with ser h log show ?thesis
    unfolding response_of_def
    by (intro exI [of _ ser] exI [of _ h] exI [of _ hs] exI [of _ out] exI [of _ inp]) simp
qed

lemma demo_not_reused: "\<not> reuses mk_client u"
  by (simp add: reuses_def mk_client_def)

theorem exchange_exact_witness:
  "\<exists>resp c' s' h tried out inp ser.
     execute_once demo_os mk_client (mk_request Get ''http://b/x'') (demo_sys [] [ok_reply])
       = Some (Inr resp, c', s') \<and> body resp = ''hi''
     \<and> serialize_request (os_inet_pton6 demo_os) (mk_request Get ''http://b/x'') = Inr ser
     \<and> sys_log s' = attempts tried @ Opened h # map (Sent h) out @ map (Received h) inp
     \<and> concat out = ser_head ser @ ser_body ser"
proof -
  from demo_exchange obtain resp c' s' where
    run: "execute_once demo_os mk_client (mk_request Get ''http://b/x'') (demo_sys [] [ok_reply])
      = Some (Inr resp, c', s')" and hi: "body resp = ''hi''" "has_reusable_connection c'"
    by (auto split: option.splits sum.splits)
  from exchange_exact [OF run mk_client_wf(1) demo_sane] obtain ser h tried out inp where
    ser: "serialize_request (os_inet_pton6 demo_os) (mk_request Get ''http://b/x'') = Inr ser" and
    log: "sys_log s' = sys_log (demo_sys [] [ok_reply])
        @ acquire_log mk_client (ser_url ser) tried @ (if reuses mk_client (ser_url ser) then [] else [Opened h])
        @ map (Sent h) out @ map (Received h) inp
        @ (if has_reusable_connection c' then [] else [Closed h])" and
    out: "concat out = ser_head ser @ ser_body ser" by blast
  have "\<not> has_reusable_connection mk_client" "sys_log (demo_sys [] [ok_reply]) = []"
    by (simp_all add: mk_client_def demo_sys_def)
  with log hi have "sys_log s' = attempts tried @ Opened h # map (Sent h) out @ map (Received h) inp"
    by (simp add: demo_not_reused acquire_log_def)
  with run hi ser out show ?thesis by blast
qed

text \<open>
  C8: A connection is kept only behind a response that delimited itself, did not ask for the end and
  left no byte behind, to a request that did not ask for the end either; it is the connection
  the response came from, kept for the origin it leads to.  An exchange that failed keeps none, except
  where the request was refused before the connection was touched.
\<close>

theorem kept_connection_safe:
  assumes "execute_once os c r s = Some (res, c', s')" and "client_wf c" and "has_reusable_connection c'"
  shows "case res of
      Inr resp \<Rightarrow>
        (\<exists>ser evs out inp. serialize_request (os_inet_pton6 os) r = Inr ser
           \<and> sys_log s' = sys_log s @ evs @ map (Sent (kept_handle c')) out @ map (Received (kept_handle c')) inp
           \<and> response_text (req_method r) (client_limits c) (concat inp) resp False
           \<and> \<not> request_wants_connection_close r
           \<and> reusable_host c' = url_host (ser_url ser) \<and> reusable_port c' = url_port (ser_url ser))
    | Inl e \<Rightarrow> c' = c \<and> s' = s \<and> serialize_request (os_inet_pton6 os) r = Inl e"
proof (cases res)
  case (Inl e)
  with execute_once_effect [OF assms(1,2)] assms(3) show ?thesis by (auto split: sum.splits)
next
  case (Inr resp)
  with execute_once_effect [OF assms(1,2)] obtain ser where
    ser: "serialize_request (os_inet_pton6 os) r = Inr ser" by (auto split: sum.splits)
  with Inr execute_once_effect [OF assms(1,2)] obtain h hs evs where
    lim: "client_limits c' = client_limits c" and
    log: "sys_log s' = sys_log s @ (acquire_log c (ser_url ser) hs
       @ (if reuses c (ser_url ser) then [] else [Opened h])) @ evs" and
    ex: "exchange_log os c r h evs resp c'" by (auto simp: effect_def)
  from ex ser assms(3) obtain out inp where
    "evs = map (Sent h) out @ map (Received h) inp" "kept_handle c' = h"
    "keeps c' r (ser_url ser) (concat inp) resp"
    unfolding exchange_log_def by auto
  with ser log lim assms(3) show ?thesis
    unfolding keeps_def Inr sum.case
    by (intro exI [of _ ser]
        exI [of _ "acquire_log c (ser_url ser) hs @ (if reuses c (ser_url ser) then [] else [Opened h])"]
        exI [of _ out] exI [of _ inp]) simp
qed

theorem kept_connection_safe_witness:
  "\<exists>resp c' s' evs out inp. execute_once demo_os mk_client (mk_request Get ''http://b/x'') (demo_sys [] [ok_reply])
       = Some (Inr resp, c', s') \<and> has_reusable_connection c'
     \<and> sys_log s' = evs @ map (Sent (kept_handle c')) out @ map (Received (kept_handle c')) inp
     \<and> response_text Get (client_limits mk_client) (concat inp) resp False"
proof -
  from demo_exchange obtain resp c' s' where
    run: "execute_once demo_os mk_client (mk_request Get ''http://b/x'') (demo_sys [] [ok_reply])
      = Some (Inr resp, c', s')" and kept: "has_reusable_connection c'"
    by (auto split: option.splits sum.splits)
  from kept_connection_safe [OF run mk_client_wf(1) kept] obtain evs out inp where
    "sys_log s' = sys_log (demo_sys [] [ok_reply]) @ evs
       @ map (Sent (kept_handle c')) out @ map (Received (kept_handle c')) inp"
    "response_text (req_method (mk_request Get ''http://b/x'')) (client_limits mk_client) (concat inp) resp False"
    by auto
  with run kept show ?thesis by (auto simp: demo_sys_def mk_request_def)
qed

text \<open>
  C7: No socket is leaked or closed twice, whatever the system answers: over a call, what was opened or held
  before was closed or is held after, and destroying the client closes the rest.
\<close>

theorem no_socket_leak:
  assumes "client_request os c r s = Some (res, c', s')" and "client_wf c"
  shows "\<exists>evs evs'. sys_log s' = sys_log s @ evs
    \<and> mset (opened_in evs) + held c = mset (closed_in evs) + held c'
    \<and> sys_log (client_destroy os c' s') = sys_log s' @ evs'
    \<and> mset (opened_in (evs @ evs')) + held c = mset (closed_in (evs @ evs'))"
proof -
  from client_request_settles [OF assms] obtain evs where evs:
    "client_wf c'" "effect os s s' evs" "settled evs (held c) (held c')" by blast
  obtain c2 s2 where 2: "close_reusable_connection os c' s' = (c2, s2)" by fastforce
  let ?evs' = "if has_reusable_connection c' then [Closed (decode_socket_handle (reusable_socket_token c'))] else []"
  have "sys_log (client_destroy os c' s') = sys_log s' @ ?evs'"
    using close_reusable_effect [OF 2 evs(1)] 2 by (simp add: client_destroy_def effect_def)
  moreover have "settled ?evs' (held c') {#}" by (simp add: settled_def held_def)
  with evs(3) have "settled (evs @ ?evs') (held c) {#}" by (rule settled_trans)
  then have "mset (opened_in (evs @ ?evs')) + held c = mset (closed_in (evs @ ?evs'))"
    unfolding settled_def by simp
  moreover have "sys_log s' = sys_log s @ evs" using evs(2) by (simp add: effect_def)
  moreover have "mset (opened_in evs) + held c = mset (closed_in evs) + held c'"
    using evs(3) unfolding settled_def .
  ultimately show ?thesis by blast
qed

theorem no_socket_leak_witness:
  "\<exists>res c' s' evs. client_request demo_os mk_client login_request demo_start = Some (res, c', s')
     \<and> sys_log s' = evs \<and> mset (opened_in evs) = mset (closed_in evs) + held c'"
proof -
  from demo_call obtain res c' s' where
    run: "client_request demo_os mk_client login_request demo_start = Some (res, c', s')"
    by (auto split: option.splits)
  from no_socket_leak [OF run mk_client_wf(1)] run mk_client_wf(2) show ?thesis
    by (auto simp: demo_start_def demo_sys_def)
qed

text \<open>
  C6: Redirects never carry credentials to another origin.  Of the requests of a call, a later one whose
  origin differs from that of an earlier one has no \<open>Host\<close>, \<open>Authorization\<close>, \<open>Proxy-Authorization\<close>
  or \<open>Cookie\<close> field, and a field that was dropped is not restored on the way back.
\<close>

theorem credentials_stay_home:
  assumes "client_request os c r s = Some (res, c', s')"
  shows "\<exists>rs. requests_made os c r s res c' s' rs
    \<and> (\<forall>j < length rs. \<forall>i < j.
          request_origin (os_inet_pton6 os) (rs ! i) \<noteq> request_origin (os_inet_pton6 os) (rs ! j) \<longrightarrow>
          (\<forall>k < length rs. j \<le> k \<longrightarrow>
             (\<forall>f \<in> set (req_headers (rs ! k)). \<not> is_cross_origin_sensitive_header (field_name f))))"
proof -
  from client_request_recorded [OF assms] obtain sts where
    sts: "hop_chain (os_inet_pton6 os) (max_redirects c) (start_redirects r) sts"
      "requests_made os c r s res c' s' (r # map redirected_request sts)" by blast
  have "sensitive_free (req_headers ((r # map redirected_request sts) ! k))"
    if "i < j" "j \<le> k" "k \<le> length sts" "request_origin (os_inet_pton6 os) ((r # map redirected_request sts) ! i)
      \<noteq> request_origin (os_inet_pton6 os) ((r # map redirected_request sts) ! j)" for i j k
  proof -
    have le: "i \<le> length sts" "j \<le> length sts" using that by simp_all
    note req = chain_request [OF sts(1) le(1)] chain_request [OF sts(1) le(2)] chain_request [OF sts(1) that(3)]
    have "origin_of (os_inet_pton6 os) (current_url ((start_redirects r # sts) ! i))
        \<noteq> origin_of (os_inet_pton6 os) (current_url ((start_redirects r # sts) ! j))"
      using that(4) req by metis
    with chain_pair_sensitive [OF sts(1) that(1) le(2)]
    have "sensitive_free (current_headers ((start_redirects r # sts) ! j))" by blast
    then have "sensitive_free (current_headers ((start_redirects r # sts) ! k))"
      by (rule chain_pair_sensitive_kept [OF sts(1) that(2,3)])
    then show ?thesis using req by metis
  qed
  then show ?thesis
    using sts(2) unfolding sensitive_free_def
    by (intro exI [of _ "r # map redirected_request sts"]) (auto simp: less_Suc_eq_le)
qed

theorem credentials_stay_home_witness:
  "\<exists>res c' s' rs. requests_made demo_os mk_client login_request demo_start res c' s' rs \<and> length rs = 2
     \<and> request_origin (os_inet_pton6 demo_os) (rs ! 0) \<noteq> request_origin (os_inet_pton6 demo_os) (rs ! 1)
     \<and> (\<forall>f \<in> set (req_headers (rs ! 1)). \<not> is_cross_origin_sensitive_header (field_name f))"
proof -
  from demo_call obtain res c' s' where
    run: "client_request demo_os mk_client login_request demo_start = Some (res, c', s')"
    by (auto split: option.splits)
  from credentials_stay_home [OF run] obtain rs where
    made: "requests_made demo_os mk_client login_request demo_start res c' s' rs" and
    free: "\<forall>j < length rs. \<forall>i < j.
          request_origin (os_inet_pton6 demo_os) (rs ! i) \<noteq> request_origin (os_inet_pton6 demo_os) (rs ! j) \<longrightarrow>
          (\<forall>k < length rs. j \<le> k \<longrightarrow>
             (\<forall>f \<in> set (req_headers (rs ! k)). \<not> is_cross_origin_sensitive_header (field_name f)))" by blast
  have "length rs = 2 \<and>
      request_origin (os_inet_pton6 demo_os) (rs ! 0) \<noteq> request_origin (os_inet_pton6 demo_os) (rs ! 1)"
    using demo_requests made unfolding requests_made_def by simp
  moreover from this have "1 < length rs" "(0::nat) < 1" by simp_all
  ultimately show ?thesis using made free by (metis order_refl)
qed

text \<open>
  C18: A call follows at most \<open>max_redirects\<close> redirects, so the loop ends; with redirects disabled it makes
  one request.  A response it returns with redirects enabled is not a redirect.
\<close>

theorem redirects_bounded:
  assumes "client_request os c r s = Some (res, c', s')"
  shows "\<exists>rs. requests_made os c r s res c' s' (r # rs) \<and> length rs \<le> max_redirects c
    \<and> (\<not> follow_redirects c \<longrightarrow> rs = [])
    \<and> (\<forall>resp. res = Inr resp \<longrightarrow> follow_redirects c \<longrightarrow> \<not> is_redirect_status (status_code resp))"
proof -
  from client_request_recorded [OF assms] obtain sts where
    sts: "hop_chain (os_inet_pton6 os) (max_redirects c) (start_redirects r) sts"
      "requests_made os c r s res c' s' (r # map redirected_request sts)"
      "\<forall>resp. res = Inr resp \<longrightarrow> follow_redirects c \<longrightarrow> \<not> is_redirect_status (status_code resp)"
      "\<not> follow_redirects c \<longrightarrow> sts = []" by blast
  have "redirects_followed (start_redirects r) = 0" by (simp add: start_redirects_def)
  with chain_bound [OF sts(1)] have "length sts \<le> max_redirects c" by simp
  with sts show ?thesis by (intro exI [of _ "map redirected_request sts"]) auto
qed

theorem redirects_bounded_witness:
  "\<exists>res c' s' rs. requests_made demo_os mk_client login_request demo_start res c' s' (login_request # rs)
     \<and> length rs \<le> 10"
proof -
  from demo_call obtain res c' s' where
    run: "client_request demo_os mk_client login_request demo_start = Some (res, c', s')"
    by (auto split: option.splits)
  have "max_redirects mk_client = 10" by (simp add: mk_client_def)
  with redirects_bounded [OF run] show ?thesis by auto
qed

section \<open>The state of a client\<close>

lemma client_move_settled:
  "client_move_assign os rest a b s = (a', b', s') \<Longrightarrow> client_wf a \<Longrightarrow> client_wf b \<Longrightarrow>
     a' = b \<and> client_wf b' \<and> held b' = {#} \<and>
     (\<exists>evs. effect os s s' evs \<and> settled evs (held a + held b) (held a' + held b'))"
proof -
  assume run: "client_move_assign os rest a b s = (a', b', s')" and wf: "client_wf a" "client_wf b"
  obtain c1 s1 where 1: "close_reusable_connection os a s = (c1, s1)" by fastforce
  let ?evs = "if has_reusable_connection a then [Closed (decode_socket_handle (reusable_socket_token a))] else []"
  have e: "effect os s s1 ?evs" using close_reusable_effect [OF 1 wf(1)] by simp
  from run 1 have eq: "a' = b" "s' = s1"
    "b' = b\<lparr>reusable_socket_token := 0, has_reusable_connection := False, reusable_host := rest, reusable_port := 0\<rparr>"
    by (auto simp: client_move_assign_def client_move_def)
  then have "held b' = {#}" "client_wf b'" by (simp_all add: held_def client_wf_def)
  moreover have "settled ?evs (held a + held b) (held a' + held b')"
    using \<open>held b' = {#}\<close> eq(1) by (simp add: settled_def held_def)
  ultimately show ?thesis using e eq by blast
qed

text \<open>
  C31: Every operation keeps a client well formed: a client that keeps a connection keeps the handle of a
  socket, whose token it reads back unchanged.  Moving gives the connection to the new client and
  leaves none behind; the connection of the client that is assigned to is closed, once.
\<close>

theorem client_well_formed:
  assumes "client_wf a" and "client_wf b"
  shows "client_wf mk_client \<and> decode_socket_handle (encode_socket_handle h) = h
    \<and> (\<forall>res c' s'. client_request os a r s = Some (res, c', s') \<longrightarrow> client_wf c')
    \<and> (\<forall>c' s'. close_reusable_connection os a s = (c', s') \<longrightarrow> client_wf c' \<and> held c' = {#})
    \<and> (\<forall>rest a' b' s'. client_move_assign os rest a b s = (a', b', s') \<longrightarrow>
          a' = b \<and> client_wf b' \<and> \<not> has_reusable_connection b'
          \<and> closed_in (drop (length (sys_log s)) (sys_log s'))
              = (if has_reusable_connection a then [decode_socket_handle (reusable_socket_token a)] else []))"
proof (intro conjI allI impI)
  show "client_wf mk_client" by (rule mk_client_wf)
  show "decode_socket_handle (encode_socket_handle h) = h" by (rule token_roundtrip)
next
  fix res c' s'
  assume "client_request os a r s = Some (res, c', s')"
  from client_request_settles [OF this assms(1)] show "client_wf c'" by blast
next
  fix c' s'
  assume "close_reusable_connection os a s = (c', s')"
  from close_reusable_effect [OF this assms(1)] show "client_wf c'" "held c' = {#}" by simp_all
next
  fix rest a' b' s'
  assume run: "client_move_assign os rest a b s = (a', b', s')"
  obtain c1 s1 where 1: "close_reusable_connection os a s = (c1, s1)" by fastforce
  with run have "s' = s1" "b' = b\<lparr>reusable_socket_token := 0, has_reusable_connection := False,
      reusable_host := rest, reusable_port := 0\<rparr>" by (auto simp: client_move_assign_def client_move_def)
  with close_reusable_effect [OF 1 assms(1)] show "\<not> has_reusable_connection b'"
    "closed_in (drop (length (sys_log s)) (sys_log s'))
        = (if has_reusable_connection a then [decode_socket_handle (reusable_socket_token a)] else [])"
    by (simp_all add: effect_def)
  from client_move_settled [OF run assms] show "a' = b" "client_wf b'" by blast+
qed

definition keeping_client :: client
where
  "keeping_client = mk_client\<lparr>reusable_socket_token := encode_socket_handle 3,
     has_reusable_connection := True, reusable_host := ''h'', reusable_port := 80\<rparr>"

theorem client_well_formed_witness:
  "client_wf keeping_client \<and> client_wf mk_client
   \<and> (\<exists>a' b' s'. client_move_assign demo_os [] keeping_client mk_client demo_start = (a', b', s')
        \<and> a' = mk_client \<and> closed_in (sys_log s') = [3])"
proof -
  have wf: "client_wf keeping_client"
    by (simp add: keeping_client_def client_wf_def token_roundtrip socket_valid_def kInvalidSocket_def)
  obtain a' b' s' where
    run: "client_move_assign demo_os [] keeping_client mk_client demo_start = (a', b', s')"
    by (metis prod_cases3)
  have "sys_log demo_start = []" by (simp add: demo_start_def demo_sys_def)
  moreover from client_well_formed [OF wf mk_client_wf(1)] run
  have "a' = mk_client \<and> closed_in (drop (length (sys_log demo_start)) (sys_log s'))
      = (if has_reusable_connection keeping_client
         then [decode_socket_handle (reusable_socket_token keeping_client)] else [])" by blast
  ultimately have "a' = mk_client" "closed_in (sys_log s') = [3]"
    by (simp_all add: keeping_client_def token_roundtrip)
  with wf mk_client_wf(1) run show ?thesis by blast
qed

section \<open>A limit of the program\<close>

definition interim_reply :: string
  where "interim_reply = ''HTTP/1.1 100 C'' @ crlf @ crlf"

text \<open>A peer that answers every read with an interim response.\<close>

definition flood_os :: "script os"
  where "flood_os = demo_os\<lparr>os_recv := \<lambda>h n w. (int (length (take n interim_reply)), 0, take n interim_reply, w)\<rparr>"

lemma flood_sane: "sane_io flood_os"
  by (auto simp: sane_io_def flood_os_def demo_os_def split: list.splits)

lemma flood_clock: "clock_advances flood_os (\<lambda>d w. nat (d - sc_clock w))"
proof -
  have "sc_clock w \<le> sc_clock w'" if "os_call flood_os w w'" for w w'
    using that by cases (auto simp: flood_os_def demo_os_def split: list.splits if_splits)
  moreover have "os_now flood_os w = (t, w') \<Longrightarrow> t = sc_clock w \<and> sc_clock w' = sc_clock w + 1000" for w t w'
    by (auto simp: flood_os_def demo_os_def)
  ultimately show ?thesis unfolding clock_advances_def by fastforce
qed

lemma length_interim: "length interim_reply = 18"
  by (simp add: interim_reply_def)

lemma flood_nonblocking: "set_socket_nonblocking flood_os h b s = (None, s\<lparr>world := world s\<rparr>)"
  by (simp add: set_socket_nonblocking_def flood_os_def demo_os_def Let_def)

lemma flood_now: "clock_now flood_os s = (sc_clock (world s), s\<lparr>world := (world s)\<lparr>sc_clock := sc_clock (world s) + 1000\<rparr>\<rparr>)"
  by (simp add: clock_now_def flood_os_def demo_os_def)

lemma flood_receive: "receive_some flood_os h read_buffer_size s
    = ((18, 0, interim_reply), log_event (Received h interim_reply) (world s) s)"
  by (simp add: receive_some_def flood_os_def length_interim bounded_io_size_def INT_MAX_def read_buffer_size_def)

lemma flood_read_loop:
  assumes "sc_clock (world s) < d"
  shows "\<exists>s'. read_loop flood_os read_buffer_size d h s = Some (Inr (18, interim_reply), h, s')"
proof -
  have "\<exists>s'. read_turn flood_os read_buffer_size d h s = Finished (Inr (18, interim_reply), h, s')"
    using assms by (simp add: read_turn_def flood_now flood_receive read_finish_def flood_nonblocking)
  then show ?thesis by (subst read_loop.simps) auto
qed

lemma flood_read:
  assumes "connected h"
  shows "\<exists>s'. read_some flood_os False read_buffer_size 30000 h s = Some (Inr (18, interim_reply), h, s')"
proof -
  have "0 < read_buffer_size" by (simp add: read_buffer_size_def)
  with assms flood_read_loop show ?thesis
    by (simp add: read_some_def flood_nonblocking flood_now from_ms_def)
qed

lemma interim_feed: "feed (mk_parser Get default_limits) interim_reply = (Inr ParseNeedMore, mk_parser Get default_limits)"
  by code_simp

lemma flood_never_ends:
  assumes "connected h"
  shows "read_response (read_some flood_os False read_buffer_size 30000) (mk_parser Get default_limits) h s = None"
proof -
  have False if "read_response (read_some flood_os False read_buffer_size 30000) (mk_parser Get default_limits) h s = Some r"
    for s r
  proof -
    have "do_read = read_some flood_os False read_buffer_size 30000 \<longrightarrow> p = mk_parser Get default_limits \<longrightarrow>
        connected h \<longrightarrow> False"
      if "read_response do_read p h s = Some r" for do_read p h and s :: "script sys" and r
    proof (induction rule: read_response.raw_induct [OF _ that])
      case (1 loop do_read p h s r)
      show ?case
      proof (intro impI)
        assume eq: "do_read = read_some flood_os False read_buffer_size 30000" "p = mk_parser Get default_limits"
          and h: "connected h"
        from flood_read [OF h, of s] obtain s' where
          "do_read h s = Some (Inr (18, interim_reply), h, s')" unfolding eq by blast
        moreover have "\<not> complete p" by (simp add: eq complete_def mk_parser_def)
        ultimately have "loop do_read p h s' = Some r"
          using 1(2) interim_feed by (simp add: eq length_interim)
        with 1(1) eq h show False by blast
      qed
    qed
    with that assms show False by blast
  qed
  then show ?thesis by (cases "read_response (read_some flood_os False read_buffer_size 30000)
      (mk_parser Get default_limits) h s") blast+
qed

lemma flood_start:
  "case serialize_request (os_inet_pton6 flood_os) (mk_request Get ''http://h/'') of
     Inl e \<Rightarrow> False
   | Inr ser \<Rightarrow>
       (case acquire_connection flood_os mk_client (ser_url ser) (demo_sys [] []) of
          (Inl e, c, s) \<Rightarrow> False
        | (Inr h, c, s) \<Rightarrow> read_timeout c = 30000 \<and> client_limits c = default_limits \<and>
            (case clock_now flood_os s of
               (now, s) \<Rightarrow>
                 (case send_request (remaining_timeout flood_os) (write_all flood_os)
                         (now + from_ms (write_timeout c)) (ser_head ser) (ser_body ser) h s of
                    None \<Rightarrow> False
                  | Some (Inl e, h, s) \<Rightarrow> False
                  | Some (Inr u, h, s) \<Rightarrow> connected h)))"
  by code_simp

text \<open>
  C40: Interim responses are not counted.  A peer that keeps sending them keeps \<open>Client::request\<close> from ever
  returning, although every single read returns within its timeout and no limit is exceeded.
\<close>

theorem interim_flood_never_returns:
  "client_request flood_os mk_client (mk_request Get ''http://h/'') (demo_sys [] []) = None
   \<and> sane_io flood_os \<and> clock_advances flood_os (\<lambda>d w. nat (d - sc_clock w))"
proof -
  let ?r = "mk_request Get ''http://h/''"
  have m: "req_method ?r = Get" by (simp add: mk_request_def)
  obtain ser where 1: "serialize_request (os_inet_pton6 flood_os) ?r = Inr ser"
    using flood_start by (auto split: sum.splits)
  obtain ra c s1 where 2: "acquire_connection flood_os mk_client (ser_url ser) (demo_sys [] []) = (ra, c, s1)"
    by (metis prod_cases3)
  obtain h where ra: "ra = Inr h" using flood_start by (cases ra) (simp_all add: 1 2)
  obtain now s2 where 3: "clock_now flood_os s1 = (now, s2)" by fastforce
  obtain rs h3 s3 where 4: "send_request (remaining_timeout flood_os) (write_all flood_os)
      (now + from_ms (write_timeout c)) (ser_head ser) (ser_body ser) h s2 = Some (rs, h3, s3)"
    using flood_start by (auto simp: 1 2 3 ra split: option.splits)
  obtain u where rs: "rs = Inr u" using flood_start by (cases rs) (simp_all add: 1 2 3 4 ra)
  have 5: "connected h3" "read_timeout c = 30000" "client_limits c = default_limits"
    using flood_start by (simp_all add: 1 2 3 4 ra rs)
  have "execute_once flood_os mk_client ?r (demo_sys [] []) = None"
    by (simp add: execute_once_def 1 2 3 4 5 ra rs m flood_never_ends)
  then show ?thesis using flood_sane flood_clock by (simp add: client_request_def request_with_def)
qed

end
