(* ===== verification/Client_Replies.thy ===== *)
theory Client_Replies
  imports Response_Replies Client_Properties
begin

text \<open>
  The client and a server: when the bytes that arrive are a reply of \<open>Response_Replies\<close>, the response
  \<open>Client::execute_once\<close> returns is that reply.
\<close>

lemma views_attempts [simp]: "received_in (attempts hs) = []"
  by (induction hs) simp_all

lemma received_acquire [simp]: "received_in (acquire_log c u hs) = []"
  by (simp add: acquire_log_def)

text \<open>The bytes a successful exchange reads.\<close>

lemma exchange_received:
  assumes "execute_once os c r s = Some (Inr resp, c', s')" and "client_wf c"
    and "sys_log s' = sys_log s @ evs"
  shows "response_of (req_method r) (client_limits c) (received_in evs) resp
    \<and> (has_reusable_connection c' \<longrightarrow>
        response_text (req_method r) (client_limits c) (received_in evs) resp False)"
proof -
  note done_effect = execute_once_effect [OF assms(1,2)]
  then obtain ser where ser: "serialize_request (os_inet_pton6 os) r = Inr ser" by (auto split: sum.splits)
  with done_effect obtain h hs evs' where lim: "client_limits c' = client_limits c"
    and log: "effect os s s' (acquire_log c (ser_url ser) hs @ (if reuses c (ser_url ser) then [] else [Opened h]) @ evs')"
    and ex: "exchange_log os c r h evs' resp c'" by auto
  from ex obtain out inp where
    evs': "evs' = map (Sent h) out @ map (Received h) inp @ (if has_reusable_connection c' then [] else [Closed h])"
    and "response_of (req_method r) (client_limits c) (concat inp) resp"
    and "has_reusable_connection c' \<longrightarrow> response_text (req_method r) (client_limits c') (concat inp) resp False"
    unfolding exchange_log_def keeps_def by blast
  moreover have "received_in evs = concat inp"
    using log assms(3) by (simp add: effect_def evs')
  ultimately show ?thesis by (simp add: lim)
qed

text \<open>
  C2: What the server sends is what the caller gets.  If the bytes that arrive during an exchange, followed by
  those still under way, begin with a server's reply, the response returned has its status, reason, fields
  and body, however the reads cut them; and if the connection is kept, exactly the reply has been read from it
  and the server did not ask for its end.
\<close>

theorem client_returns_reply:
  assumes "execute_once os c r s = Some (Inr resp, c', s')" and "client_wf c"
    and "sys_log s' = sys_log s @ evs" and "received_in evs @ later = reply_text (req_method r) rep @ rest"
    and "reply_ok (client_limits c) (req_method r) rep"
  shows "resp = reply_response (req_method r) rep
    \<and> (has_reusable_connection c' \<longrightarrow> received_in evs = reply_text (req_method r) rep \<and> \<not> asks_close (rep_fields rep))"
proof -
  note rep = reply_is_text [OF assms(5)] and recv = exchange_received [OF assms(1-3)]
  have "\<not> close_text (req_method r) (client_limits c) (received_in evs) resp"
    using no_close_reading [OF rep] assms(4) by metis
  with recv obtain t u close where
    t: "received_in evs = t @ u" "response_text (req_method r) (client_limits c) t resp close"
    unfolding response_of_def by blast
  with text_reading_unique [OF t(2) rep, of "u @ later" rest] assms(4) have "resp = reply_response (req_method r) rep" by simp
  moreover have "received_in evs = reply_text (req_method r) rep \<and> \<not> asks_close (rep_fields rep)"
    if "has_reusable_connection c'"
    using text_reading_unique [OF _ rep assms(4), of resp False] recv that by simp
  ultimately show ?thesis by blast
qed

definition demo_answer :: reply
where
  "demo_answer = \<lparr>rep_interims = [], rep_status = 200, rep_reason = ''OK'', rep_fields = [mk_field ''X'' ''1''],
     rep_body = Chunks [''hel'', ''lo'']\<rparr>"

text \<open>The reply arrives in two pieces, with the chunk framing cut in the middle.\<close>

definition answer_start :: "script sys"
  where "answer_start = demo_sys [] [take 50 (reply_text Get demo_answer), drop 50 (reply_text Get demo_answer)]"

lemma answer_run:
  "case execute_once demo_os mk_client (mk_request Get ''http://b/x'') answer_start of
     None \<Rightarrow> False
   | Some (res, c, s) \<Rightarrow> result_has_value res \<and> has_reusable_connection c
       \<and> received_in (sys_log s) = reply_text Get demo_answer"
  by code_simp

theorem client_returns_reply_witness:
  "\<exists>c' s'. execute_once demo_os mk_client (mk_request Get ''http://b/x'') answer_start
     = Some (Inr \<lparr>status_code = 200, reason = ''OK'',
         rs_headers = [mk_field ''X'' ''1'', mk_field ''Transfer-Encoding'' ''chunked''], body = ''hello''\<rparr>, c', s')"
proof -
  from answer_run obtain resp c' s' where
    run: "execute_once demo_os mk_client (mk_request Get ''http://b/x'') answer_start = Some (Inr resp, c', s')"
    and all: "received_in (sys_log s') = reply_text Get demo_answer"
    by (auto simp: result_has_value_def split: option.splits sum.splits)
  have log: "sys_log s' = sys_log answer_start @ sys_log s'" by (simp add: answer_start_def demo_sys_def)
  have ok: "reply_ok (client_limits mk_client) (req_method (mk_request Get ''http://b/x'')) demo_answer" by code_simp
  have "reply_response Get demo_answer = \<lparr>status_code = 200, reason = ''OK'',
         rs_headers = [mk_field ''X'' ''1'', mk_field ''Transfer-Encoding'' ''chunked''], body = ''hello''\<rparr>"
    by code_simp
  with client_returns_reply [OF run mk_client_wf(1) log _ ok, of "[]" "[]"] all run show ?thesis
    by (simp add: mk_request_def)
qed

end
