(* ===== verification/Client_Returns.thy ===== *)
theory Client_Returns
  imports Redirect_Chain Net_Properties
begin

text \<open>
  Total correctness of a call: \<open>Client::request\<close> returns when the clock advances (\<open>clock_advances\<close>) and the
  peers send finitely many bytes (\<open>finite_stream\<close>).  Client_Properties shows that the second assumption
  cannot be dropped.
\<close>

section \<open>A peer that sends finitely many bytes\<close>

text \<open>
  \<open>left w\<close> bounds how many more times \<open>recv\<close> can deliver bytes in the world \<open>w\<close>.
\<close>

definition finite_stream :: "'w os \<Rightarrow> ('w \<Rightarrow> nat) \<Rightarrow> bool"
where
  "finite_stream os left \<longleftrightarrow>
     (\<forall>w w'. os_call os w w' \<longrightarrow> left w' \<le> left w)
     \<and> (\<forall>h n w r e b w'. os_recv os h n w = (r, e, b, w') \<longrightarrow> 0 < r \<longrightarrow> left w' < left w)"

lemma effect_left:
  assumes "finite_stream os left" "effect os s s' evs"
  shows "left (world s') \<le> left (world s)"
proof -
  from assms(2) have "(os_call os)\<^sup>*\<^sup>* (world s) (world s')" by (simp add: effect_def)
  then show ?thesis
    using assms(1) unfolding finite_stream_def by induction (auto intro: order_trans)
qed

lemma receive_some_left:
  "finite_stream os left \<Longrightarrow> receive_some os h n s = ((r, c, b), s') \<Longrightarrow> 0 < r \<Longrightarrow>
     left (world s') < left (world s)"
  by (auto simp: receive_some_def finite_stream_def split: prod.splits if_splits)

lemma read_finish_Inr:
  "read_finish os h k b s = (Inr nb, h', s') \<Longrightarrow> effect os s s' []"
  by (auto simp: read_finish_def close_and_fail_def split: prod.splits option.splits
      dest: set_socket_nonblocking_effect)

lemma close_and_fail_Inr [simp]: "close_and_fail os e h s \<noteq> (Inr v, h', s')"
  by (simp add: close_and_fail_def split: prod.splits)

lemma read_turn_left:
  assumes fin: "finite_stream os left" and turn: "read_turn os c d h s = Finished (Inr nb, h', s')"
  shows "left (world s') < left (world s)"
proof -
  obtain t s1 where 1: "clock_now os s = (t, s1)" by fastforce
  obtain k nc b s2 where 2: "receive_some os h c s1 = ((k, nc, b), s2)" by (metis prod.collapse)
  have "\<not> d \<le> t" using turn by (auto simp: read_turn_def 1)
  have k: "0 < k"
    using turn by (auto simp: read_turn_def 1 2 split: if_splits prod.splits)
  with turn \<open>\<not> d \<le> t\<close> have "read_finish os h k b s2 = (Inr nb, h', s')"
    by (simp add: read_turn_def 1 2)
  from effect_left [OF fin read_finish_Inr [OF this]] receive_some_left [OF fin 2 k]
    effect_left [OF fin clock_now_effect [OF 1]] show ?thesis by linarith
qed

lemma read_loop_left:
  assumes fin: "finite_stream os left" and run: "read_loop os c d h s = Some (Inr nb, h', s')"
  shows "left (world s') < left (world s)"
proof -
  have "os = os0 \<longrightarrow> (\<forall>nb h' s'. r = (Inr nb, h', s') \<longrightarrow> left (world s') < left (world s))"
    if "read_loop os c d h s = Some r" and "finite_stream os0 left" for os os0 :: "'a os" and c d h s r
  proof (induction rule: read_loop.raw_induct [OF _ that(1)])
    case (1 loop os c d h s r)
    show ?case
    proof (intro impI allI)
      fix nb h' s'
      assume eq: "os = os0" and r: "r = (Inr nb, h', s')"
      show "left (world s') < left (world s)"
      proof (cases "read_turn os c d h s")
        case (Finished r')
        with 1(2) r have "read_turn os0 c d h s = Finished (Inr nb, h', s')" by (simp add: eq)
        from read_turn_left [OF that(2) this] show ?thesis .
      next
        case (Again s1)
        with 1(2) have "loop os c d h s1 = Some r" by simp
        with 1(1) eq r have "left (world s') < left (world s1)" by blast
        moreover from read_turn_clock [OF Again] obtain t s2 evs where
          "clock_now os s = (t, s2)" "effect os s2 s1 evs" by blast
        then have "left (world s1) \<le> left (world s)"
          using effect_left [OF that(2)] clock_now_effect eq by (metis order_trans)
        ultimately show ?thesis by linarith
      qed
    qed
  qed
  from this [OF run fin] show ?thesis by blast
qed

lemma read_some_left:
  assumes fin: "finite_stream os left" and c: "0 < c"
    and run: "read_some os False c tm h s = Some (Inr nb, h', s')"
  shows "left (world s') < left (world s)"
proof -
  obtain r1 s1 where 1: "set_socket_nonblocking os h True s = (r1, s1)" by fastforce
  obtain t s2 where 2: "clock_now os s1 = (t, s2)" by fastforce
  from run c have "read_loop os c (t + from_ms tm) h s2 = Some (Inr nb, h', s')"
    by (auto simp: read_some_def 1 2 split: if_splits option.splits)
  from read_loop_left [OF fin this] effect_left [OF fin set_socket_nonblocking_effect [OF 1]]
    effect_left [OF fin clock_now_effect [OF 2]] show ?thesis by linarith
qed

section \<open>Calls return\<close>

lemma read_response_returns:
  assumes clock: "clock_advances os rank" and fin: "finite_stream os left" and c: "0 < c"
  shows "read_response (read_some os False c tm) p h s \<noteq> None"
proof (induction "left (world s)" arbitrary: p h s rule: less_induct)
  case less
  obtain a where a: "read_some os False c tm h s = Some a"
    using read_some_returns [OF clock, of False c tm h s] by auto
  obtain ra h1 s1 where ra: "a = (ra, h1, s1)" by (metis prod_cases3)
  show ?case
  proof (cases ra)
    case (Inl e)
    with a ra show ?thesis
      by (subst read_response.simps) (simp del: not_None_eq split: prod.split sum.split)
  next
    case (Inr nb)
    with less [of s1] read_some_left [OF fin c, of tm h s nb h1 s1] a ra
    have "read_response (read_some os False c tm) p' h1 s1 \<noteq> None" for p' by simp
    with a ra Inr show ?thesis
      by (subst read_response.simps) (simp del: not_None_eq split: prod.split sum.split)
  qed
qed

lemma read_response_complete:
  assumes "read_response do_read p h s = Some (Inr q, h', s')"
  shows "complete q"
proof -
  have "\<forall>q h' s'. r = (Inr q, h', s') \<longrightarrow> complete q" if "read_response do_read p h s = Some r"
    for do_read :: "handle \<Rightarrow> 'a \<Rightarrow> ((nat \<times> string) result \<times> handle \<times> 'a) option" and p h s r
  proof (induction rule: read_response.raw_induct [OF _ that])
    case (1 loop do_read p h s r)
    show ?case
    proof (cases "complete p")
      case False
      obtain ra h1 s1 where a: "do_read h s = Some (ra, h1, s1)"
        using 1(2) False by (cases "do_read h s") auto
      show ?thesis
      proof (cases ra)
        case (Inl e)
        with 1(2) False a show ?thesis by (auto split: if_splits sum.splits prod.splits)
      next
        case (Inr nb)
        obtain n b where nb: "nb = (n, b)" by fastforce
        obtain rf p' where f: "feed p (take n b) = (rf, p')" by fastforce
        show ?thesis
        proof (cases rf)
          case (Inl e)
          with 1(2) False a Inr nb f show ?thesis by auto
        next
          case Inr': (Inr x)
          with 1(2) False a Inr nb f have "loop do_read p' h1 s1 = Some r" by simp
          with 1(1) show ?thesis by blast
        qed
      qed
    qed (use 1(2) in auto)
  qed
  from this [OF assms] show ?thesis by blast
qed

lemma send_request_returns:
  "clock_advances os rank \<Longrightarrow> send_request rem (write_all os) d hdt content h s \<noteq> None"
  using write_all_returns [of os rank]
  by (simp add: send_request_def del: not_None_eq split: prod.split option.split sum.split)

lemma execute_once_returns:
  assumes "clock_advances os rank" "finite_stream os left"
  shows "execute_once os c r s \<noteq> None"
proof -
  have "0 < read_buffer_size" by (simp add: read_buffer_size_def)
  note rd = read_response_returns [OF assms this]
  have fin: "finish_exchange os c r u q h s \<noteq> None" if "complete q" for c r u q h s
    using that by (simp add: finish_exchange_def take_response_def Let_def split: prod.split)
  show ?thesis
    using send_request_returns [OF assms(1)] rd fin read_response_complete
    unfolding execute_once_def
    by (fastforce simp del: not_None_eq split: sum.split prod.split option.split)
qed

lemma redirect_loop_returns:
  "(\<And>r x. execute r x \<noteq> None) \<Longrightarrow> redirect_loop execute inet n st resp x \<noteq> None"
proof (induction execute inet n st resp x rule: redirect_loop.induct)
  case (1 execute inet n st resp x)
  then show ?case
    by (subst redirect_loop.simps)
       (simp del: not_None_eq split: sum.split option.split prod.split)
qed

lemma request_with_returns:
  "(\<And>r x. execute r x \<noteq> None) \<Longrightarrow> request_with execute inet follow n r x \<noteq> None"
  by (simp add: request_with_def redirect_loop_returns del: not_None_eq split: option.split prod.split sum.split)

lemma demo_stream: "finite_stream demo_os (\<lambda>w. length (sc_reads w))"
proof -
  have "length (sc_reads w') \<le> length (sc_reads w)" if "os_call demo_os w w'" for w w'
    using that by cases (auto simp: demo_os_def split: list.splits if_splits)
  moreover have "length (sc_reads w') < length (sc_reads w)"
    if "os_recv demo_os h n w = (r, e, b, w')" "0 < r" for h n w r e b w'
    using that by (auto simp: demo_os_def split: list.splits)
  ultimately show ?thesis unfolding finite_stream_def by blast
qed

text \<open>
  C17: A call to \<open>Client::request\<close> returns, with a response or an error, when the clock advances and the
  peers send finitely many bytes: no combination of partial writes, interruptions, empty reads,
  redirects and malformed answers makes it wait for ever.
\<close>

theorem client_request_returns:
  assumes "clock_advances os rank" and "finite_stream os left"
  shows "\<exists>res c' s'. client_request os c r s = Some (res, c', s')"
proof -
  have "(\<lambda>r (c, s). execute_once os c r s) r x \<noteq> None" for r x
    using execute_once_returns [OF assms] by (simp del: not_None_eq split: prod.split)
  from request_with_returns [where execute = "\<lambda>r (c, s). execute_once os c r s", OF this] have "client_request os c r s \<noteq> None"
    unfolding client_request_def by blast
  then show ?thesis by auto
qed

theorem client_request_returns_witness:
  "\<exists>res c' s'. client_request demo_os mk_client (mk_request Get ''http://a/'')
     (demo_sys [0, - 1, 5] [''HTTP/1.1'', [], '' 200 OK'']) = Some (res, c', s')"
  by (rule client_request_returns [OF demo_clock demo_stream])

end
