(* ===== verification/Working_Network.thy ===== *)
theory Working_Network
  imports Client_Replies Client_Returns
begin

text \<open>
  A network that works, and what the client sees of it.

  At the other end stands a \<open>peer\<close>: it accepts a connection, hears bytes, owes bytes and tells them.  The
  state it is in is a function \<open>talk\<close> of the world.  \<open>healthy os P talk\<close> says what works: names resolve,
  connections are established (possibly after a wait), \<open>send\<close> takes bytes that \<open>P\<close> hears and \<open>recv\<close> delivers
  the next bytes \<open>P\<close> owes; either may be interrupted or find nothing to do any number of times, and a wait
  may end without an event.  The locale \<open>delivering_transport\<close> is what the client sees of it.
\<close>

section \<open>The other end\<close>

record 'g peer =
  peer_accept :: "'g \<Rightarrow> 'g"
  peer_hear :: "string \<Rightarrow> 'g \<Rightarrow> 'g"
  peer_owe :: "'g \<Rightarrow> string"
  peer_tell :: "string \<Rightarrow> 'g \<Rightarrow> 'g"

text \<open>It does not matter to a peer how the bytes are cut; what it told it no longer owes.\<close>

locale peer =
  fixes P :: "'g peer"
  assumes hear_Nil: "peer_hear P [] g = g"
    and hear_append: "peer_hear P b (peer_hear P a g) = peer_hear P (a @ b) g"
    and tell_Nil: "peer_tell P [] g = g"
    and tell_append: "peer_tell P b (peer_tell P a g) = peer_tell P (a @ b) g"
    and owe_tell: "peer_owe P g = b @ z \<Longrightarrow> peer_owe P (peer_tell P b g) = z"

text \<open>The bytes to come are fixed: a peer that talks whatever it hears.\<close>

definition inbox_peer :: "string peer"
where
  "inbox_peer = \<lparr>peer_accept = (\<lambda>g. g), peer_hear = (\<lambda>b g. g), peer_owe = (\<lambda>g. g),
                 peer_tell = (\<lambda>b. drop (length b))\<rparr>"

interpretation inbox: peer inbox_peer
  by unfold_locales (auto simp: inbox_peer_def add.commute)

section \<open>A network that works\<close>

definition transient :: "'w os \<Rightarrow> int \<Rightarrow> bool"
where
  "transient os e =
     (socket_error_is_interrupted os e
      \<or> socket_error_is_would_block os e \<and> \<not> socket_error_is_connection_closed os e)"

definition modes_work :: "'w os \<Rightarrow> ('w \<Rightarrow> 'g) \<Rightarrow> bool"
where
  "modes_work os talk \<longleftrightarrow>
     (\<forall>h w r e w'. os_getfl os h w = (r, e, w') \<longrightarrow> r \<noteq> - 1 \<and> talk w' = talk w)
     \<and> (\<forall>h n w r e w'. os_setfl os h n w = (r, e, w') \<longrightarrow> r = 0 \<and> talk w' = talk w)"

definition waits_work :: "'w os \<Rightarrow> ('w \<Rightarrow> 'g) \<Rightarrow> bool"
where
  "waits_work os talk \<longleftrightarrow>
     (\<forall>h ev t w r e w'. os_poll os h ev t w = (r, e, w') \<longrightarrow> 0 \<le> r \<and> talk w' = talk w)
     \<and> (\<forall>w t w'. os_now os w = (t, w') \<longrightarrow> talk w' = talk w)"

definition connects_work :: "'w os \<Rightarrow> 'g peer \<Rightarrow> ('w \<Rightarrow> 'g) \<Rightarrow> bool"
where
  "connects_work os P talk \<longleftrightarrow>
     (\<forall>f t p w h e w'. os_socket os f t p w = (h, e, w') \<longrightarrow> socket_valid h \<and> talk w' = talk w)
     \<and> (\<forall>h a n w r e w'. os_connect os h a n w = (r, e, w') \<longrightarrow>
          (r = 0 \<or> connect_in_progress os e) \<and> talk w' = peer_accept P (talk w))
     \<and> (\<forall>h w r v e w'. os_so_error os h w = (r, v, e, w') \<longrightarrow> r = 0 \<and> v = 0 \<and> talk w' = talk w)
     \<and> (\<forall>h w. talk (os_close os h w) = talk w)"

definition names_resolve :: "'w os \<Rightarrow> ('w \<Rightarrow> 'g) \<Rightarrow> bool"
where
  "names_resolve os talk \<longleftrightarrow>
     (\<forall>n p hi w r l w'. os_getaddrinfo os n p hi w = (r, l, w') \<longrightarrow>
        r = 0 \<and> filter (usable os) l \<noteq> [] \<and> talk w' = talk w)
     \<and> (\<forall>l w. talk (os_freeaddrinfo os l w) = talk w)"

definition bytes_flow :: "'w os \<Rightarrow> 'g peer \<Rightarrow> ('w \<Rightarrow> 'g) \<Rightarrow> bool"
where
  "bytes_flow os P talk \<longleftrightarrow>
     (\<forall>h b f w r e w'. os_send os h b f w = (r, e, w') \<longrightarrow> b \<noteq> [] \<longrightarrow>
        0 < r \<and> nat r \<le> length b \<and> talk w' = peer_hear P (take (nat r) b) (talk w)
        \<or> r < 0 \<and> transient os e \<and> talk w' = talk w)
     \<and> (\<forall>h n w r e b w'. os_recv os h n w = (r, e, b, w') \<longrightarrow> 0 < n \<longrightarrow> peer_owe P (talk w) \<noteq> [] \<longrightarrow>
          0 < r \<and> nat r \<le> length b \<and> (\<exists>z. peer_owe P (talk w) = take (nat r) b @ z) \<and> talk w' = peer_tell P (take (nat r) b) (talk w)
          \<or> r < 0 \<and> transient os e \<and> talk w' = talk w)"

definition healthy :: "'w os \<Rightarrow> 'g peer \<Rightarrow> ('w \<Rightarrow> 'g) \<Rightarrow> bool"
where
  "healthy os P talk \<longleftrightarrow>
     modes_work os talk \<and> waits_work os talk \<and> connects_work os P talk \<and> names_resolve os talk
     \<and> bytes_flow os P talk"

lemmas healthy_defs =
  healthy_def modes_work_def waits_work_def connects_work_def names_resolve_def bytes_flow_def

section \<open>The socket layer over it\<close>

lemma healthy_modesD:
  assumes "healthy os P talk"
  shows "os_getfl os h w = (r, e, w') \<Longrightarrow> r \<noteq> - 1 \<and> talk w' = talk w"
    and "os_setfl os h n w = (r, e, w') \<Longrightarrow> r = 0 \<and> talk w' = talk w"
proof -
  have *: "modes_work os talk" using assms by (simp add: healthy_def)
  show "r \<noteq> - 1 \<and> talk w' = talk w" if "os_getfl os h w = (r, e, w')"
    using * that unfolding modes_work_def by (elim conjE) metis
  show "r = 0 \<and> talk w' = talk w" if "os_setfl os h n w = (r, e, w')"
    using * that unfolding modes_work_def by (elim conjE) metis
qed

lemma healthy_waitsD:
  assumes "healthy os P talk"
  shows "os_poll os h ev t w = (r, e, w') \<Longrightarrow> 0 \<le> r \<and> talk w' = talk w"
    and "os_now os w = (t', w') \<Longrightarrow> talk w' = talk w"
proof -
  have *: "waits_work os talk" using assms by (simp add: healthy_def)
  show "0 \<le> r \<and> talk w' = talk w" if "os_poll os h ev t w = (r, e, w')"
    using * that unfolding waits_work_def by (elim conjE) metis
  show "talk w' = talk w" if "os_now os w = (t', w')"
    using * that unfolding waits_work_def by (elim conjE) metis
qed

lemma healthy_connectsD:
  assumes "healthy os P talk"
  shows "os_socket os f t p w = (h', e, w') \<Longrightarrow> socket_valid h' \<and> talk w' = talk w"
    and "os_connect os h a n w = (r, e, w') \<Longrightarrow> (r = 0 \<or> connect_in_progress os e) \<and> talk w' = peer_accept P (talk w)"
    and "os_so_error os h w = (r, v, e, w') \<Longrightarrow> r = 0 \<and> v = 0 \<and> talk w' = talk w"
    and "talk (os_close os h w) = talk w"
proof -
  have *: "connects_work os P talk" using assms by (simp add: healthy_def)
  show "socket_valid h' \<and> talk w' = talk w" if "os_socket os f t p w = (h', e, w')"
    using * that unfolding connects_work_def by (elim conjE) metis
  show "(r = 0 \<or> connect_in_progress os e) \<and> talk w' = peer_accept P (talk w)" if "os_connect os h a n w = (r, e, w')"
    using * that unfolding connects_work_def by (elim conjE) metis
  show "r = 0 \<and> v = 0 \<and> talk w' = talk w" if "os_so_error os h w = (r, v, e, w')"
    using * that unfolding connects_work_def by (elim conjE) metis
  show "talk (os_close os h w) = talk w"
    using * unfolding connects_work_def by (elim conjE) metis
qed

lemma healthy_namesD:
  assumes "healthy os P talk"
  shows "talk (os_freeaddrinfo os l w) = talk w"
    and "os_getaddrinfo os n p hi w = (r', l, w') \<Longrightarrow> r' = 0 \<and> filter (usable os) l \<noteq> [] \<and> talk w' = talk w"
proof -
  have *: "names_resolve os talk" using assms by (simp add: healthy_def)
  show "talk (os_freeaddrinfo os l w) = talk w"
    using * unfolding names_resolve_def by (elim conjE) metis
  show "r' = 0 \<and> filter (usable os) l \<noteq> [] \<and> talk w' = talk w" if "os_getaddrinfo os n p hi w = (r', l, w')"
    using * that unfolding names_resolve_def by (elim conjE) metis
qed

lemma healthy_flowD:
  assumes "healthy os P talk"
  shows "os_send os h b f w = (r, e, w') \<Longrightarrow> b \<noteq> [] \<Longrightarrow>
      0 < r \<and> nat r \<le> length b \<and> talk w' = peer_hear P (take (nat r) b) (talk w)
      \<or> r < 0 \<and> transient os e \<and> talk w' = talk w"
    and "os_recv os h n w = (r, e, b, w') \<Longrightarrow> 0 < n \<Longrightarrow> peer_owe P (talk w) \<noteq> [] \<Longrightarrow>
      0 < r \<and> nat r \<le> length b \<and> (\<exists>z. peer_owe P (talk w) = take (nat r) b @ z) \<and> talk w' = peer_tell P (take (nat r) b) (talk w)
      \<or> r < 0 \<and> transient os e \<and> talk w' = talk w"
proof -
  have *: "bytes_flow os P talk" using assms by (simp add: healthy_def)
  show "0 < r \<and> nat r \<le> length b \<and> talk w' = peer_hear P (take (nat r) b) (talk w)
      \<or> r < 0 \<and> transient os e \<and> talk w' = talk w" if "os_send os h b f w = (r, e, w')" "b \<noteq> []"
    using * that unfolding bytes_flow_def by (elim conjE) metis
  show "0 < r \<and> nat r \<le> length b \<and> (\<exists>z. peer_owe P (talk w) = take (nat r) b @ z) \<and> talk w' = peer_tell P (take (nat r) b) (talk w)
      \<or> r < 0 \<and> transient os e \<and> talk w' = talk w"
    if "os_recv os h n w = (r, e, b, w')" "0 < n" "peer_owe P (talk w) \<noteq> []"
    using * that unfolding bytes_flow_def by (elim conjE) metis
qed

lemmas healthyD = healthy_modesD healthy_waitsD healthy_connectsD(1-4) healthy_namesD healthy_flowD

lemma healthy_clock:
  "healthy os P talk \<Longrightarrow> clock_now os s = (t, s') \<Longrightarrow> talk (world s') = talk (world s)"
  by (auto simp: clock_now_def split: prod.splits dest: healthyD(4))

lemma healthy_remaining:
  "healthy os P talk \<Longrightarrow> remaining_timeout os d s = (t, s') \<Longrightarrow> talk (world s') = talk (world s)"
  by (auto simp: remaining_timeout_def split: prod.splits dest: healthy_clock)

lemma healthy_mode:
  assumes "healthy os P talk" "set_socket_nonblocking os h b s = (r, s')"
  shows "r = None \<and> talk (world s') = talk (world s)"
proof -
  obtain fl e w where 1: "os_getfl os h (world s) = (fl, e, w)" by (metis prod_cases3)
  have 2: "fl \<noteq> - 1" "talk w = talk (world s)" using healthyD(1) [OF assms(1) 1] by simp_all
  show ?thesis
    using assms(2) 2
    by (auto simp: set_socket_nonblocking_def Let_def 1 split: prod.splits dest: healthyD(2) [OF assms(1)])
qed

lemma healthy_wait:
  assumes "healthy os P talk" "wait_socket os h t wr s = ((st, c), s')"
  shows "st \<noteq> WaitFailed \<and> talk (world s') = talk (world s)"
  using assms(2) by (auto simp: wait_socket_def Let_def split: prod.splits if_splits dest: healthyD(3) [OF assms(1)])

lemma healthy_so_error:
  assumes "healthy os P talk" "socket_error_result os h s = ((st, c), s')"
  shows "st = Connected \<and> talk (world s') = talk (world s)"
  using assms(2) by (auto simp: socket_error_result_def split: prod.splits dest: healthyD(7) [OF assms(1)])

lemma healthy_close:
  assumes "healthy os P talk"
  shows "talk (world (snd (socket_close os h s))) = talk (world s)"
    and "talk (world (socket_destroy os h s)) = talk (world s)"
  by (simp_all add: healthyD(8) [OF assms] socket_destroy_def socket_close_def socket_reset_def
      close_native_socket_def)

lemma healthy_connect:
  assumes "healthy os P talk" "connect_with_timeout os h a n t s = ((st, c), s')"
  shows "st \<noteq> ConnectStatusFailed \<and> (st = Connected \<longrightarrow> talk (world s') = peer_accept P (talk (world s)))"
proof -
  obtain r1 s1 where 1: "set_socket_nonblocking os h True s = (r1, s1)" by fastforce
  obtain k e w where 2: "os_connect os h a n (world s1) = (k, e, w)" by (metis prod_cases3)
  let ?s2 = "s1\<lparr>world := w\<rparr>"
  obtain r3 s3 where 3: "set_socket_nonblocking os h False ?s2 = (r3, s3)" by fastforce
  obtain w4 nc s4 where 4: "wait_socket_writable os h t ?s2 = ((w4, nc), s4)" by (metis prod.collapse)
  obtain st5 c5 s5 where 5: "socket_error_result os h s4 = ((st5, c5), s5)" by (metis prod.collapse)
  obtain r6 s6 where 6: "set_socket_nonblocking os h False s5 = (r6, s6)" by fastforce
  have i2: "(k = 0 \<or> connect_in_progress os e) \<and> talk w = peer_accept P (talk (world s1))"
    using healthyD(6) [OF assms(1) 2] .
  note facts = healthy_mode [OF assms(1) 1] healthy_mode [OF assms(1) 3] healthy_so_error [OF assms(1) 5]
    healthy_mode [OF assms(1) 6] healthy_wait [OF assms(1) 4 [unfolded wait_socket_writable_def]]
  show ?thesis
    using assms(2) i2 facts unfolding connect_with_timeout_def Let_def
    by (cases w4) (auto simp: 1 2 3 4 5 6 split: if_splits option.splits)
qed

section \<open>Connecting\<close>

lemma healthy_create:
  assumes "healthy os P talk" "create_tcp_socket os f ty p s = ((h, c), s')"
  shows "socket_valid h \<and> talk (world s') = talk (world s)"
  using assms(2)
  by (auto simp: create_tcp_socket_def socket_valid_def split: prod.splits if_splits
      dest: healthyD(5) [OF assms(1)])

lemma healthy_try:
  assumes "healthy os P talk" "endpoint_valid e" "try_endpoint os d sc e s = (r, s')"
  shows "\<exists>v. r = Inl v \<and> (case v of Inl e \<Rightarrow> code e = ConnectTimeout
    | Inr h \<Rightarrow> talk (world s') = peer_accept P (talk (world s)))"
proof -
  obtain t s1 where 1: "clock_now os s = (t, s1)" by fastforce
  obtain h c s2 where 2: "create_tcp_socket os (endpoint_family os e) (ep_socket_type e) (ep_protocol e) s1 = ((h, c), s2)"
    by (metis prod.collapse)
  obtain tm s3 where 3: "remaining_timeout os d s2 = (tm, s3)" by fastforce
  obtain st c4 s4 where 4: "connect_with_timeout os h (ep_address e) (ep_address_size e) tm s3 = ((st, c4), s4)"
    by (metis prod.collapse)
  note facts = healthy_clock [OF assms(1) 1] healthy_create [OF assms(1) 2] healthy_remaining [OF assms(1) 3]
    healthy_connect [OF assms(1) 4] healthy_close(2) [OF assms(1)]
  show ?thesis
    using assms(2,3) facts
    by (cases st) (auto simp: try_endpoint_def Let_def 1 2 3 4 socket_release_def split: if_splits)
qed

lemma healthy_tcp_connect:
  assumes "healthy os P talk" "list_all endpoint_valid es" "es \<noteq> []" "tcp_connect os es tm s = (r, s')"
  shows "case r of Inl e \<Rightarrow> code e = ConnectTimeout
    | Inr h \<Rightarrow> talk (world s') = peer_accept P (talk (world s))"
proof (cases "tm \<le> 0")
  case True
  with assms(4) show ?thesis by (auto simp: tcp_connect_def)
next
  case False
  obtain e es' where es: "es = e # es'" using assms(3) by (cases es) auto
  obtain t s1 where 1: "clock_now os s = (t, s1)" by fastforce
  obtain r2 s2 where 2: "try_endpoint os (t + from_ms tm)
      \<lparr>created_socket = False, saw_valid_endpoint = False, last_native_error = 0\<rparr> e s1 = (r2, s2)" by fastforce
  have "endpoint_valid e" using assms(2) es by simp
  from healthy_try [OF assms(1) this 2] obtain v where v: "r2 = Inl v"
    "case v of Inl e \<Rightarrow> code e = ConnectTimeout | Inr h \<Rightarrow> talk (world s2) = peer_accept P (talk (world s1))" by blast
  with healthy_clock [OF assms(1) 1] assms(4) False show ?thesis
    by (auto simp: tcp_connect_def es 1 2 ensure_network_runtime_def split: sum.splits)
qed

lemma healthy_resolve:
  assumes "healthy os P talk" "host \<noteq> []" "CHR 0x00 \<notin> set host" "resolve os host port s = (r, s')"
  shows "(\<exists>es. r = Inr es \<and> es \<noteq> [] \<and> list_all endpoint_valid es) \<and> talk (world s') = talk (world s)"
proof -
  obtain st l w where 1: "os_getaddrinfo os host (to_decimal (unat port)) (resolver_hints os) (world s) = (st, l, w)"
    by (metis prod_cases3)
  have 2: "st = 0" "filter (usable os) l \<noteq> []" "talk w = talk (world s)" using healthyD(10) [OF assms(1) 1] by auto
  have "list_all endpoint_valid (map (to_endpoint os) (filter (usable os) l))"
    by (auto simp: list_all_iff usable_valid)
  then show ?thesis
    using assms(2-4) 1 2 service_length [of port]
    by (auto simp: resolve_def ensure_network_runtime_def Let_def collect_endpoints_eq resolver_hints_def
        release_addrinfo_def healthyD(9) [OF assms(1)] split: if_splits)
qed

lemma healthy_close_reusable:
  assumes "healthy os P talk" "close_reusable_connection os c s = (c', s')"
  shows "talk (world s') = talk (world s)"
proof -
  have "talk (world (case socket_close os h s of (k, s) \<Rightarrow> socket_destroy os k s)) = talk (world s)" for h
    using healthy_close [OF assms(1)] by (metis (no_types, lifting) case_prod_beta)
  with assms(2) show ?thesis by (auto simp: close_reusable_connection_def Let_def split: if_splits)
qed

text \<open>The peer of an exchange: the one at the other end of the kept connection, or of a new one.\<close>

definition peer_at :: "'g peer \<Rightarrow> client \<Rightarrow> url \<Rightarrow> 'g \<Rightarrow> 'g"
  where "peer_at P c u g = (if reuses c u then g else peer_accept P g)"

lemma healthy_acquire:
  assumes "healthy os P talk" "url_host u \<noteq> []" "CHR 0x00 \<notin> set (url_host u)"
    and "acquire_connection os c u s = (r, c', s')"
  shows "case r of Inl e \<Rightarrow> code e = ConnectTimeout
    | Inr h \<Rightarrow> talk (world s') = peer_at P c u (talk (world s))"
proof -
  obtain c1 s1 where 1: "close_reusable_connection os c s = (c1, s1)" by fastforce
  obtain r2 s2 where 2: "resolve os (url_host u) (url_port u) s1 = (r2, s2)" by fastforce
  obtain es where es: "r2 = Inr es" "es \<noteq> []" "list_all endpoint_valid es" "talk (world s2) = talk (world s1)"
    using healthy_resolve [OF assms(1-3) 2] by blast
  obtain r3 s3 where 3: "tcp_connect os es (connect_timeout c1) s2 = (r3, s3)" by fastforce
  from healthy_tcp_connect [OF assms(1) es(3,2) 3] healthy_close_reusable [OF assms(1) 1] es(4) assms(4)
  show ?thesis by (auto simp: acquire_connection_def peer_at_def reuses_def 1 2 3 es(1) split: if_splits sum.splits)
qed

section \<open>Writing and reading\<close>

lemma healthy_fail:
  "fst (close_and_fail os e h s) = Inl e"
  "healthy os P talk \<Longrightarrow> talk (world (snd (snd (close_and_fail os e h s)))) = talk (world s)"
  using healthy_close(1) [of os P talk h s] by (simp_all add: close_and_fail_def tcp_close_def split: prod.split)

lemma healthy_failD:
  "healthy os P talk \<Longrightarrow> close_and_fail os e h s = (r, h', s') \<Longrightarrow> r = Inl e \<and> talk (world s') = talk (world s)"
  using healthy_close(1) [of os P talk h s] by (auto simp: close_and_fail_def tcp_close_def split: prod.splits)

lemma healthy_send:
  assumes "healthy os P talk" "data \<noteq> []" "send_some os h data s = ((k, c), s')"
  shows "0 < k \<and> nat k \<le> length data \<and> talk (world s') = peer_hear P (take (nat k) data) (talk (world s))
    \<or> k < 0 \<and> transient os c \<and> talk (world s') = talk (world s)"
proof -
  have "take (bounded_io_size (length data)) data \<noteq> []" using assms(2) by (simp add: bounded_io_size_def INT_MAX_def)
  with assms(3) show ?thesis
    by (auto simp: send_some_def Let_def split: prod.splits if_splits dest!: healthyD(11) [OF assms(1)])
qed

lemma healthy_recv:
  assumes "healthy os P talk" "0 < n" "peer_owe P (talk (world s)) \<noteq> []" "receive_some os h n s = ((k, c, b), s')"
  shows "0 < k \<and> nat k \<le> length b \<and> (\<exists>z. peer_owe P (talk (world s)) = take (nat k) b @ z)
      \<and> talk (world s') = peer_tell P (take (nat k) b) (talk (world s))
    \<or> k < 0 \<and> transient os c \<and> talk (world s') = talk (world s)"
proof -
  have "0 < bounded_io_size n" using assms(2) by (simp add: bounded_io_size_def INT_MAX_def)
  from healthyD(12) [OF assms(1) _ this assms(3)] assms(4) show ?thesis
    by (fastforce simp: receive_some_def split: prod.splits if_splits)
qed

lemma healthy_write_turn:
  assumes "healthy os P talk" "n < length data"
  shows "case write_turn os data d h n s of
      Finished x \<Rightarrow> \<exists>e. fst x = Inl e \<and> code e = WriteTimeout
    | Again k \<Rightarrow> \<exists>b. drop n data = b @ drop (fst k) data \<and> fst k \<le> length data
        \<and> (b = [] \<and> talk (world (snd k)) = talk (world s) \<or> talk (world (snd k)) = peer_hear P b (talk (world s)))"
proof -
  obtain t s1 where 1: "clock_now os s = (t, s1)" by fastforce
  obtain j nc s2 where 2: "send_some os h (drop n data) s1 = ((j, nc), s2)" by (metis prod.collapse)
  obtain tm s3 where 3: "remaining_timeout os d s2 = (tm, s3)" by fastforce
  obtain st wc s4 where 4: "wait_socket_writable os h tm s3 = ((st, wc), s4)" by (metis prod.collapse)
  have "drop n data \<noteq> []" using assms(2) by simp
  note facts = healthy_clock [OF assms(1) 1] healthy_send [OF assms(1) this 2] healthy_remaining [OF assms(1) 3]
    healthy_wait [OF assms(1) 4 [unfolded wait_socket_writable_def]]
  show ?thesis
  proof (cases "0 < j")
    case True
    have "drop n data = take (nat j) (drop n data) @ drop (n + nat j) data"
      by (metis add.commute append_take_drop_id drop_drop)
    with True facts show ?thesis
      unfolding write_turn_def 1 prod.case 2 by (auto simp: healthy_fail)
  next
    case False
    with facts assms show ?thesis
      unfolding write_turn_def 1 prod.case 2 3 4 transient_def
      by (cases st; simp add: healthy_fail split: if_split; auto)
  qed
qed

lemma healthy_write_loop:
  assumes "write_loop os data d h n s = Some (r, h', s')" "healthy os P talk" "peer P" "n \<le> length data"
  shows "case r of Inl e \<Rightarrow> code e = WriteTimeout | Inr k \<Rightarrow> talk (world s') = peer_hear P (drop n data) (talk (world s))"
proof -
  have "\<forall>r h' s'. res = (r, h', s') \<longrightarrow> (case r of Inl e \<Rightarrow> code e = WriteTimeout
      | Inr k \<Rightarrow> talk (world s') = peer_hear P (drop n data) (talk (world s)))"
    if "write_loop os data d h n s = Some res" for res
    using assms(2-)
  proof (induction rule: write_loop.raw_induct [OF _ that])
    case (1 loop os data d h n s res)
    show ?case
    proof (cases "n < length data")
      case False
      obtain r s1 where m: "set_socket_nonblocking os h False s = (r, s1)" by fastforce
      from healthy_mode [OF 1(3) m] 1(2,5) False peer.hear_Nil [OF 1(4)] show ?thesis
        by (auto simp: write_finish_def m)
    next
      case True
      note turn = healthy_write_turn [OF 1(3) True, where d = d and h = h and s = s]
      show ?thesis
      proof (cases "write_turn os data d h n s")
        case (Finished x)
        with turn 1(2) True show ?thesis by auto
      next
        case (Again k)
        with turn obtain b where b: "drop n data = b @ drop (fst k) data" "fst k \<le> length data"
          "b = [] \<and> talk (world (snd k)) = talk (world s) \<or> talk (world (snd k)) = peer_hear P b (talk (world s))"
          by auto
        have heard: "peer_hear P (drop (fst k) data) (talk (world (snd k))) = peer_hear P (drop n data) (talk (world s))"
          using b(1,3) peer.hear_append [OF 1(4)] by auto
        from Again 1(2) True have "loop os data d h (fst k) (snd k) = Some res" by simp
        from 1(1) [OF this 1(3,4) b(2)] show ?thesis unfolding heard .
      qed
    qed
  qed
  with assms(1) show ?thesis by blast
qed

lemma healthy_write_all:
  assumes "healthy os P talk" "peer P" "write_all os data tm h s = Some (r, h', s')" "socket_valid h"
  shows "case r of Inl e \<Rightarrow> code e = WriteTimeout | Inr k \<Rightarrow> talk (world s') = peer_hear P data (talk (world s))"
proof -
  obtain r1 s1 where 1: "set_socket_nonblocking os h True s = (r1, s1)" by fastforce
  obtain t s2 where 2: "clock_now os s1 = (t, s2)" by fastforce
  have m: "r1 = None" "talk (world s2) = talk (world s)"
    using healthy_mode [OF assms(1) 1] healthy_clock [OF assms(1) 2] by auto
  show ?thesis
  proof (cases "data = [] \<or> tm \<le> 0")
    case True
    with assms(3,4) peer.hear_Nil [OF assms(2)] show ?thesis
      by (auto simp: write_all_def connected_def dest: healthy_failD [OF assms(1)] split: if_splits)
  next
    case False
    with assms(3,4) m 1 2 have "write_loop os data (t + from_ms tm) h 0 s2 = Some (r, h', s')"
      by (simp add: write_all_def connected_def)
    from healthy_write_loop [OF this assms(1,2)] m show ?thesis by (cases r) simp_all
  qed
qed

text \<open>What a read has to do: the next bytes the peer owes, or a timeout.\<close>

definition delivered :: "'g peer \<Rightarrow> 'g \<Rightarrow> (nat \<times> string) result \<Rightarrow> 'g \<Rightarrow> bool"
where
  "delivered P g r g' =
     (case r of
        Inl e \<Rightarrow> code e = ReadTimeout
      | Inr (n, buffer) \<Rightarrow> n \<le> length buffer \<and> (\<exists>z. peer_owe P g = take n buffer @ z) \<and> g' = peer_tell P (take n buffer) g)"

lemma healthy_read_finish:
  assumes "healthy os P talk" "read_finish os h k b s = (r, h', s')"
  shows "r = Inr (nat k, b) \<and> talk (world s') = talk (world s)"
proof -
  obtain r1 s1 where 1: "set_socket_nonblocking os h False s = (r1, s1)" by fastforce
  from healthy_mode [OF assms(1) 1] assms(2) show ?thesis by (auto simp: read_finish_def 1)
qed

lemma healthy_read_turn:
  assumes "healthy os P talk" "0 < c" "peer_owe P (talk (world s)) \<noteq> []"
  shows "case read_turn os c d h s of
      Finished x \<Rightarrow> delivered P (talk (world s)) (fst x) (talk (world (snd (snd x))))
    | Again s' \<Rightarrow> talk (world s') = talk (world s)"
proof -
  obtain t s1 where 1: "clock_now os s = (t, s1)" by fastforce
  note e1 = healthy_clock [OF assms(1) 1]
  obtain j nc b s2 where 2: "receive_some os h c s1 = ((j, nc, b), s2)" by (metis prod.collapse)
  obtain tm s3 where 3: "remaining_timeout os d s2 = (tm, s3)" by fastforce
  obtain st wc s4 where 4: "wait_socket_readable os h tm s3 = ((st, wc), s4)" by (metis prod.collapse)
  have fin: "fst (read_finish os h j b s2) = Inr (nat j, b)"
      "talk (world (snd (snd (read_finish os h j b s2)))) = talk (world s2)"
    using healthy_read_finish [OF assms(1)] by (metis prod.collapse)+
  have "peer_owe P (talk (world s1)) \<noteq> []" using assms(3) e1 by simp
  note facts = e1 healthy_recv [OF assms(1,2) this 2] healthy_remaining [OF assms(1) 3]
    healthy_wait [OF assms(1) 4 [unfolded wait_socket_readable_def]]
  show ?thesis
    using facts assms(1) fin unfolding read_turn_def 1 prod.case 2 3 4 transient_def
    by (cases st; simp add: delivered_def healthy_fail split: if_split; auto)
qed

lemma healthy_read_loop:
  assumes "read_loop os c d h s = Some (r, h', s')" "healthy os P talk" "0 < c" "peer_owe P (talk (world s)) \<noteq> []"
  shows "delivered P (talk (world s)) r (talk (world s'))"
proof -
  have "\<forall>r h' s'. res = (r, h', s') \<longrightarrow> delivered P (talk (world s)) r (talk (world s'))"
    if "read_loop os c d h s = Some res" for res
    using assms(2-)
  proof (induction rule: read_loop.raw_induct [OF _ that])
    case (1 loop os c d h s res)
    note turn = healthy_read_turn [OF 1(3-5), where d = d and h = h]
    show ?case
    proof (cases "read_turn os c d h s")
      case (Finished x)
      with turn 1(2) show ?thesis by auto
    next
      case (Again s1)
      with 1(2) turn have "loop os c d h s1 = Some res" "talk (world s1) = talk (world s)" by simp_all
      from 1(1) [OF this(1) 1(3,4)] this(2) 1(5) show ?thesis by simp
    qed
  qed
  with assms(1) show ?thesis by blast
qed

lemma healthy_read_some:
  assumes "healthy os P talk" "read_some os False c tm h s = Some (r, h', s')" "socket_valid h" "0 < c"
    and "peer_owe P (talk (world s)) \<noteq> []"
  shows "delivered P (talk (world s)) r (talk (world s'))"
proof -
  obtain r1 s1 where 1: "set_socket_nonblocking os h True s = (r1, s1)" by fastforce
  obtain t s2 where 2: "clock_now os s1 = (t, s2)" by fastforce
  have m: "r1 = None" "talk (world s2) = talk (world s)"
    using healthy_mode [OF assms(1) 1] healthy_clock [OF assms(1) 2] by auto
  show ?thesis
  proof (cases "tm \<le> 0")
    case True
    with assms(2-4) show ?thesis
      by (auto simp: read_some_def connected_def delivered_def dest: healthy_failD [OF assms(1)])
  next
    case False
    with assms(2-4) m 1 2 have "read_loop os c (t + from_ms tm) h s2 = Some (r, h', s')"
      by (simp add: read_some_def connected_def)
    from healthy_read_loop [OF this assms(1,4)] m assms(5) show ?thesis by simp
  qed
qed

section \<open>A transport that delivers\<close>

text \<open>
  The contract the client needs to get its reply: while bytes are under way a read brings the next of them, and
  reading and writing fail by a timeout only.  \<open>works\<close> is what the provider needs of the system for it.
\<close>

locale delivering_transport = timed_transport does writes reads sound remaining + peer P
  for does :: "'s \<Rightarrow> 's \<Rightarrow> io_event list \<Rightarrow> bool"
    and writes :: "string \<Rightarrow> int \<Rightarrow> handle \<Rightarrow> 's \<Rightarrow> (nat result \<times> handle \<times> 's) option"
    and reads :: "nat \<Rightarrow> int \<Rightarrow> handle \<Rightarrow> 's \<Rightarrow> ((nat \<times> string) result \<times> handle \<times> 's) option"
    and sound :: bool
    and remaining :: "int \<Rightarrow> 's \<Rightarrow> int \<times> 's"
    and P :: "'g peer" +
  fixes talk :: "'s \<Rightarrow> 'g"
    and works :: bool
  assumes works_write: "works \<Longrightarrow> writes d t h s = Some (r, h', s') \<Longrightarrow> socket_valid h \<Longrightarrow>
      (case r of Inl e \<Rightarrow> code e = WriteTimeout | Inr n \<Rightarrow> talk s' = peer_hear P d (talk s))"
    and works_read: "works \<Longrightarrow> reads c t h s = Some (got, h', s') \<Longrightarrow> socket_valid h \<Longrightarrow> 0 < c \<Longrightarrow>
      peer_owe P (talk s) \<noteq> [] \<Longrightarrow> delivered P (talk s) got (talk s')"
    and works_remaining: "works \<Longrightarrow> remaining deadline s = (t, s') \<Longrightarrow> talk s' = talk s"
begin

lemma send_works:
  assumes "works" "send_request remaining writes d hdt content h s = Some (r, h', s')" "socket_valid h"
  shows "case r of Inl e \<Rightarrow> code e = WriteTimeout
    | Inr u \<Rightarrow> h' = h \<and> talk s' = peer_hear P (hdt @ content) (talk s)"
proof -
  obtain t s1 where 1: "remaining d s = (t, s1)" by fastforce
  from assms(2) obtain r2 h2 s2 where 2: "writes hdt t h s1 = Some (r2, h2, s2)"
    by (auto simp: send_request_def 1 split: option.splits)
  note w2 = works_write [OF assms(1) 2 assms(3)] works_remaining [OF assms(1) 1]
  show ?thesis
  proof (cases r2)
    case (Inl e)
    with assms(2) w2 show ?thesis by (auto simp: send_request_def 1 2)
  next
    case (Inr n)
    from write_sent [OF 2 [unfolded Inr] assms(3)] have "h2 = h" by blast
    show ?thesis
    proof (cases "content = []")
      case True
      with assms(2) w2 \<open>h2 = h\<close> show ?thesis by (auto simp: send_request_def 1 2 Inr)
    next
      case False
      obtain t3 s3 where 3: "remaining d s2 = (t3, s3)" by fastforce
      from assms(2) False obtain r4 h4 s4 where 4: "writes content t3 h s3 = Some (r4, h4, s4)"
        by (auto simp: send_request_def 1 2 3 Inr \<open>h2 = h\<close> split: option.splits)
      have "r4 = Inr k \<Longrightarrow> h4 = h" for k using write_sent [of content t3 h s3 k h4 s4] 4 assms(3) by blast
      with works_write [OF assms(1) 4 assms(3)] works_remaining [OF assms(1) 3] w2 assms(2) False show ?thesis
        by (auto simp: send_request_def 1 2 3 4 Inr \<open>h2 = h\<close> hear_append split: sum.splits)
    qed
  qed
qed

end

lemma working_transport:
  assumes "peer P"
  shows "delivering_transport (effect os) (write_all os) (read_some os False) (sane_io os)
    (remaining_timeout os) P (\<lambda>s. talk (world s)) (healthy os P talk)"
proof (intro delivering_transport.intro delivering_transport_axioms.intro assms tcp.timed_transport_axioms)
  fix d t h s r h' s'
  assume "healthy os P talk" "write_all os d t h s = Some (r, h', s')" "socket_valid h"
  then show "case r of Inl e \<Rightarrow> code e = WriteTimeout | Inr n \<Rightarrow> talk (world s') = peer_hear P d (talk (world s))"
    using healthy_write_all assms by blast
next
  fix c t h s got h' s'
  assume "healthy os P talk" "read_some os False c t h s = Some (got, h', s')" "socket_valid h" "0 < c"
    "peer_owe P (talk (world s)) \<noteq> []"
  then show "delivered P (talk (world s)) got (talk (world s'))" by (rule healthy_read_some)
qed (rule healthy_remaining)

interpretation working: delivering_transport "effect os" "write_all os" "read_some os False" "sane_io os"
  "remaining_timeout os" inbox_peer "\<lambda>s. talk (world s)" "healthy os inbox_peer talk" for os talk
  by (rule working_transport [OF inbox.peer_axioms])

end
