(* ===== verification/Client_Succeeds.thy ===== *)
theory Client_Succeeds
  imports Working_Network
begin

text \<open>
  An exchange over a network that works: nothing but a timeout keeps the reply from the caller
  (\<open>healthy_execute\<close>), and reading it ends because the reply does.
\<close>

section \<open>Reading the reply\<close>

lemma feed_next:
  assumes "feed p0 x = (Inr ParseNeedMore, p)" and "feed p0 (x @ y) = (Inr q, p2)"
  shows "feed p y = (Inr q, p2)"
  using parser.feed_append [OF assms(1), of y] assms(2)
  by (auto simp: parser_seen_def split: prod.splits sum.splits)

lemma reply_feed_next:
  assumes "reply_ok lim m rep" "line_room lim m rep"
    and "feed (mk_parser m lim) x = (Inr ParseNeedMore, p)" and "(x @ y) @ u = reply_text m rep @ rest"
  shows "(\<exists>p2. feed p y = (Inr ParseNeedMore, p2) \<and> feed (mk_parser m lim) (x @ y) = (Inr ParseNeedMore, p2))
    \<or> (\<exists>p2. feed p y = (Inr ParseComplete, p2) \<and> complete p2 \<and> take_response p2 = Some (reply_response m rep)
        \<and> (\<exists>z. x @ y = reply_text m rep @ z))"
  using beginning_cases [OF assms(4)]
proof (elim disjE exE conjE)
  fix v assume v: "v \<noteq> []" "reply_text m rep = (x @ y) @ v"
  obtain p2 where "feed (mk_parser m lim) (x @ y) = (Inr ParseNeedMore, p2)"
    using reply_beginning [OF assms(1,2) v(2) [symmetric] v(1)] by (metis prod.collapse)
  with feed_next [OF assms(3)] show ?thesis by blast
next
  fix z assume z: "x @ y = reply_text m rep @ z"
  from response_text_complete [OF reply_is_text [OF assms(1)], of z] obtain p2 where
    "feed (mk_parser m lim) (x @ y) = (Inr ParseComplete, p2)" "complete p2" "take_response p2 = Some (reply_response m rep)"
    unfolding z by (auto simp: feed_start done_with_def take_response_def)
  with feed_next [OF assms(3)] z show ?thesis by blast
qed

lemma reply_incomplete:
  assumes "reply_ok lim m rep" "feed (mk_parser m lim) x = (Inr ParseNeedMore, p)"
    and "x @ u = reply_text m rep @ rest"
  shows "u \<noteq> [] \<and> \<not> complete p"
proof
  show "u \<noteq> []"
  proof
    assume "u = []"
    with assms(3) have "x = reply_text m rep @ rest" by simp
    with response_text_complete [OF reply_is_text [OF assms(1)], of rest] assms(2) show False
      by (auto simp: feed_start)
  qed
  show "\<not> complete p" using feed_budget [OF assms(2) mk_parser_budget(1)] by simp
qed

text \<open>The parser and the peer in the course of reading: \<open>y\<close> is what the peer has told since it was in \<open>g\<close>.\<close>

definition reading ::
  "'g peer \<Rightarrow> response_limits \<Rightarrow> http_method \<Rightarrow> reply \<Rightarrow> 'g \<Rightarrow> string \<Rightarrow> response_parser \<Rightarrow> 'g \<Rightarrow> bool"
where
  "reading P lim m rep g y p g' \<longleftrightarrow>
     g' = peer_tell P y g \<and> peer_owe P g = y @ peer_owe P g'
     \<and> (if complete p then take_response p = Some (reply_response m rep) \<and> (\<exists>z. y = reply_text m rep @ z)
        else feed (mk_parser m lim) y = (Inr ParseNeedMore, p))"

context delivering_transport
begin

lemma reading_start:
  "reading P lim m rep g [] (mk_parser m lim) g"
  using feed_budget [OF feed_nothing mk_parser_budget(1)] by (simp add: reading_def feed_nothing tell_Nil)

lemma reading_step:
  assumes "reply_ok lim m rep" "line_room lim m rep"
    and "reading P lim m rep g y p (talk s)" and "\<not> complete p" and "peer_owe P g = reply_text m rep @ rest"
    and "works" "reads c t h s = Some (ra, h1, s1)" "socket_valid h" "0 < c"
  shows "case ra of Inl e \<Rightarrow> code e = ReadTimeout
    | Inr nb \<Rightarrow> h1 = h \<and> length (peer_owe P (talk s1)) < length (peer_owe P (talk s))
        \<and> (\<exists>x p2. feed p (take (fst nb) (snd nb)) = (Inr x, p2)
            \<and> reading P lim m rep g (y @ take (fst nb) (snd nb)) p2 (talk s1))"
proof -
  have y: "talk s = peer_tell P y g" "peer_owe P g = y @ peer_owe P (talk s)"
      "feed (mk_parser m lim) y = (Inr ParseNeedMore, p)"
    using assms(3,4) by (auto simp: reading_def)
  have "y @ peer_owe P (talk s) = reply_text m rep @ rest" using y(2) assms(5) by simp
  from reply_incomplete [OF assms(1) y(3) this] have "peer_owe P (talk s) \<noteq> []" by simp
  from works_read [OF assms(6-9) this] have got: "delivered P (talk s) ra (talk s1)" .
  show ?thesis
  proof (cases ra)
    case (Inl e)
    with got show ?thesis by (simp add: delivered_def)
  next
    case (Inr nb)
    obtain n b where nb: "nb = (n, b)" by fastforce
    from got Inr nb obtain z where z: "peer_owe P (talk s) = take n b @ z" "talk s1 = peer_tell P (take n b) (talk s)"
      and b: "n \<le> length b"
      by (auto simp: delivered_def)
    from owe_tell [OF z(1)] z(2) have owe: "peer_owe P (talk s1) = z" by simp
    from read_got [OF assms(7) [unfolded Inr nb] assms(8,9)] have n: "h1 = h" "0 < n" by auto
    with b z owe have shorter: "length (peer_owe P (talk s1)) < length (peer_owe P (talk s))" by simp
    have told: "talk s1 = peer_tell P (y @ take n b) g" "peer_owe P g = (y @ take n b) @ peer_owe P (talk s1)"
      using y z owe by (simp_all add: tell_append)
    then have "(y @ take n b) @ peer_owe P (talk s1) = reply_text m rep @ rest" using assms(5) by simp
    from reply_feed_next [OF assms(1,2) y(3) this]
    show ?thesis
    proof (elim disjE exE conjE)
      fix p2
      assume f: "feed p (take n b) = (Inr ParseNeedMore, p2)"
        and p2: "feed (mk_parser m lim) (y @ take n b) = (Inr ParseNeedMore, p2)"
      have "\<not> complete p2" using feed_budget [OF p2 mk_parser_budget(1)] by simp
      with f p2 told n shorter show ?thesis by (simp add: Inr nb reading_def)
    next
      fix p2 z
      assume f: "feed p (take n b) = (Inr ParseComplete, p2)"
        and p2: "complete p2" "take_response p2 = Some (reply_response m rep)" "y @ take n b = reply_text m rep @ z"
      with told n shorter show ?thesis by (auto simp: Inr nb reading_def)
    qed
  qed
qed

lemma read_works:
  assumes "read_response (reads c t) p h s = Some (r, h', s')"
    and "reply_ok lim m rep" "line_room lim m rep" "peer_owe P g = reply_text m rep @ rest"
    and "works" "socket_valid h" "0 < c" and "reading P lim m rep g y p (talk s)"
  shows "case r of Inl e \<Rightarrow> code e = ReadTimeout
    | Inr q \<Rightarrow> take_response q = Some (reply_response m rep) \<and> h' = h
        \<and> (\<exists>z. peer_owe P g = reply_text m rep @ z @ peer_owe P (talk s') \<and> talk s' = peer_tell P (reply_text m rep @ z) g)"
  using assms(1,6,8)
proof (induction "length (peer_owe P (talk s))" arbitrary: p h s y rule: less_induct)
  case less
  show ?case
  proof (cases "complete p")
    case True
    with less.prems(1) have "r = Inr p" "h' = h" "s' = s" by (simp_all add: read_response.simps)
    with less.prems(3) True show ?thesis by (auto simp: reading_def)
  next
    case False
    then obtain ra h1 s1 where a: "reads c t h s = Some (ra, h1, s1)"
      using less.prems(1) by (subst (asm) read_response.simps) (cases "reads c t h s", auto)
    note turn = reading_step [OF assms(2,3) less.prems(3) False assms(4,5) a less.prems(2) assms(7)]
    show ?thesis
    proof (cases ra)
      case (Inl e)
      with less.prems(1) turn a False show ?thesis by (subst (asm) read_response.simps) auto
    next
      case (Inr nb)
      with turn obtain x p2 where f: "feed p (take (fst nb) (snd nb)) = (Inr x, p2)" "h1 = h"
        "length (peer_owe P (talk s1)) < length (peer_owe P (talk s))"
        "reading P lim m rep g (y @ take (fst nb) (snd nb)) p2 (talk s1)" by auto
      from less.prems(1) a Inr f(1,2) False have "read_response (reads c t) p2 h s1 = Some (r, h', s')"
        by (subst (asm) read_response.simps) (cases nb, simp)
      from less.hyps [OF f(3) this less.prems(2) f(4)] show ?thesis .
    qed
  qed
qed

lemma read_returns:
  assumes "\<And>h s. reads c t h s \<noteq> None"
    and "reply_ok lim m rep" "line_room lim m rep" "peer_owe P g = reply_text m rep @ rest"
    and "works" "socket_valid h" "0 < c" and "reading P lim m rep g y p (talk s)"
  shows "read_response (reads c t) p h s \<noteq> None"
  using assms(6,8)
proof (induction "length (peer_owe P (talk s))" arbitrary: p h s y rule: less_induct)
  case less
  show ?case
  proof (cases "complete p")
    case True
    then show ?thesis by (simp add: read_response.simps)
  next
    case False
    obtain ra h1 s1 where a: "reads c t h s = Some (ra, h1, s1)" using assms(1) by (metis not_None_eq prod_cases3)
    note turn = reading_step [OF assms(2,3) less.prems(2) False assms(4,5) a less.prems(1) assms(7)]
    show ?thesis
    proof (cases ra)
      case (Inl e)
      with turn a False show ?thesis by (subst read_response.simps) auto
    next
      case (Inr nb)
      with turn obtain x p2 where f: "feed p (take (fst nb) (snd nb)) = (Inr x, p2)" "h1 = h"
        "length (peer_owe P (talk s1)) < length (peer_owe P (talk s))"
        "reading P lim m rep g (y @ take (fst nb) (snd nb)) p2 (talk s1)" by auto
      from less.hyps [OF f(3) less.prems(1) f(4)] a Inr f(1,2) False show ?thesis
        by (subst read_response.simps) (cases nb, simp del: not_None_eq)
    qed
  qed
qed

end

section \<open>An exchange and a call\<close>

lemma parsed_host:
  assumes "Url_parse inet t = Inr u"
  shows "url_host u \<noteq> [] \<and> CHR 0x00 \<notin> set (url_host u)"
proof -
  from assms obtain p where p: "wf_parts inet p" "u = mk_url p" by (rule Url_parse_parts)
  have "\<not> forbidden_url_byte c" if "c \<in> set (up_host p)" for c
    using wf_parts_bytes [OF p(1)] that by blast
  moreover have "forbidden_url_byte (CHR 0x00)" by code_simp
  ultimately have "CHR 0x00 \<notin> set (up_host p)" by blast
  with p render_authority_ne show ?thesis by (auto simp: wf_parts_def)
qed

definition timeouts :: "error_code list"
  where "timeouts = [ConnectTimeout, WriteTimeout, ReadTimeout]"

definition told_reply :: "'g peer \<Rightarrow> string \<Rightarrow> 'g \<Rightarrow> 'g \<Rightarrow> bool"
where
  "told_reply P t g g' \<longleftrightarrow>
     (\<exists>z. peer_owe P g = t @ z @ peer_owe P g' \<and> g' = peer_tell P (t @ z) g)"

lemma healthy_execute:
  assumes clock: "clock_advances os rank" and P: "peer P" and healthy: "healthy os P talk" and wf: "client_wf c"
    and ser: "serialize_request (os_inet_pton6 os) r = Inr ser"
    and rep: "reply_ok (client_limits c) (req_method r) rep" "line_room (client_limits c) (req_method r) rep"
    and g: "g = peer_hear P (ser_head ser @ ser_body ser) (peer_at P c (ser_url ser) (talk (world s)))"
    and owed: "peer_owe P g = reply_text (req_method r) rep @ rest"
  shows "\<exists>res c' s'. execute_once os c r s = Some (res, c', s')
    \<and> (case res of Inl e \<Rightarrow> code e \<in> set timeouts \<and> \<not> has_reusable_connection c'
       | Inr resp \<Rightarrow> resp = reply_response (req_method r) rep \<and> told_reply P (reply_text (req_method r) rep) g (talk (world s')))"
proof -
  from ser have "Url_parse (os_inet_pton6 os) (req_url r) = Inr (ser_url ser)" by (simp add: serialize_request_Inr)
  note host = parsed_host [OF this]
  obtain r1 c1 s1 where 1: "acquire_connection os c (ser_url ser) s = (r1, c1, s1)" by (metis prod_cases3)
  have forgotten: "\<not> has_reusable_connection c1"
    using 1 by (auto simp: acquire_connection_def close_reusable_connection_def forget_connection_def Let_def
        split: if_splits prod.splits sum.splits)
  from healthy_acquire [OF healthy _ _ 1] host
  have a: "case r1 of Inl e \<Rightarrow> code e = ConnectTimeout
    | Inr h \<Rightarrow> talk (world s1) = peer_at P c (ser_url ser) (talk (world s))" by simp
  show ?thesis
  proof (cases r1)
    case (Inl e)
    with ser 1 a forgotten show ?thesis by (simp add: execute_once_def timeouts_def)
  next
    case (Inr h)
    from acquire_connection_effect [OF 1 wf] Inr have h: "socket_valid h" and c1: "client_limits c1 = client_limits c"
      by auto
    obtain t s2 where 2: "clock_now os s1 = (t, s2)" by fastforce
    obtain r3 h3 s3 where
      3: "send_request (remaining_timeout os) (write_all os) (t + from_ms (write_timeout c1)) (ser_head ser)
        (ser_body ser) h s2 = Some (r3, h3, s3)"
      using send_request_returns [OF clock] by (metis not_None_eq prod_cases3)
    note w = delivering_transport.send_works [OF working_transport [OF P] healthy 3 h]
    show ?thesis
    proof (cases r3)
      case (Inl e)
      with ser 1 Inr 2 3 w forgotten show ?thesis by (simp add: execute_once_def timeouts_def)
    next
      case r3: (Inr u)
      with w a Inr healthy_clock [OF healthy 2] g have g3: "talk (world s3) = g" and h3: "h3 = h" by auto
      have buffer: "0 < read_buffer_size" by (simp add: read_buffer_size_def)
      have start: "reading P (client_limits c) (req_method r) rep g []
          (mk_parser (req_method r) (client_limits c)) (talk (world s3))"
        unfolding g3 by (rule delivering_transport.reading_start [OF working_transport [OF P]])
      note rd = delivering_transport.read_returns [OF working_transport [OF P, where talk = talk] _ rep owed healthy h buffer start]
        delivering_transport.read_works [OF working_transport [OF P, where talk = talk] _ rep owed healthy h buffer start]
      obtain r4 h4 s4 where
        4: "read_response (read_some os False read_buffer_size (read_timeout c1))
          (mk_parser (req_method r) (client_limits c)) h s3 = Some (r4, h4, s4)"
        using rd(1) [OF read_some_returns [OF clock]] by (metis not_None_eq prod_cases3)
      note run = ser 1 Inr 2 3 r3 c1 h3 4 and got = rd(2) [OF 4]
      show ?thesis
      proof (cases r4)
        case (Inl e)
        with run got forgotten show ?thesis by (simp add: execute_once_def timeouts_def)
      next
        case r4: (Inr q)
        with got have q: "take_response q = Some (reply_response (req_method r) rep)" "told_reply P (reply_text (req_method r) rep) g (talk (world s4))"
          by (auto simp: told_reply_def)
        with run r4 show ?thesis
          by (simp add: execute_once_def finish_exchange_def Let_def healthy_close(2) [OF healthy] split: prod.split)
      qed
    qed
  qed
qed

section \<open>A system to run on\<close>

text \<open>
  Like \<open>demo_os\<close>, but \<open>recv\<close> delivers at most ten bytes of the stream at a time, and \<open>send\<close> is refused with
  \<open>EAGAIN\<close> where the script has no positive number.
\<close>

definition steady_os :: "script os"
where
  "steady_os = demo_os
     \<lparr>os_socket := (\<lambda>f t p w. (3, 0, w)),
      os_send := (\<lambda>h b f w. case sc_sends w of
                     [] \<Rightarrow> (int (length b), 0, w)
                   | n # ns \<Rightarrow> if n \<le> 0 then (- 1, 11, w\<lparr>sc_sends := ns\<rparr>)
                              else (min n (int (length b)), 0, w\<lparr>sc_sends := ns\<rparr>)),
      os_recv := (\<lambda>h n w. let stream = concat (sc_reads w); b = take (min n 10) stream
                    in (int (length b), 0, b, if b = [] then w else w\<lparr>sc_reads := [drop (length b) stream]\<rparr>))\<rparr>"

definition steady_inbox :: "script \<Rightarrow> string"
  where "steady_inbox w = concat (sc_reads w)"

lemma steady_calls:
  assumes "os_call steady_os w w'"
  shows "sc_clock w \<le> sc_clock w' \<and> length (steady_inbox w') \<le> length (steady_inbox w)"
  using assms
  by cases (auto simp: steady_os_def demo_os_def steady_inbox_def Let_def split: list.splits if_splits)

lemma steady_healthy: "healthy steady_os inbox_peer steady_inbox"
proof -
  have "modes_work steady_os steady_inbox" "waits_work steady_os steady_inbox"
    by (auto simp: modes_work_def waits_work_def steady_os_def demo_os_def steady_inbox_def)
  moreover have "connects_work steady_os inbox_peer steady_inbox"
    by (auto simp: connects_work_def inbox_peer_def steady_os_def demo_os_def steady_inbox_def socket_valid_def kInvalidSocket_def)
  moreover have "names_resolve steady_os steady_inbox"
    by (auto simp: names_resolve_def steady_os_def demo_os_def steady_inbox_def usable_def)
  moreover have "bytes_flow steady_os inbox_peer steady_inbox"
    unfolding bytes_flow_def
    using take_rest
    by (auto simp: inbox_peer_def steady_os_def demo_os_def steady_inbox_def Let_def take_upto transient_def socket_error_is_would_block_def
        socket_error_is_connection_closed_def split: list.splits if_splits)
  ultimately show ?thesis by (simp add: healthy_def)
qed

lemma steady_clock: "clock_advances steady_os (\<lambda>d w. nat (d - sc_clock w))"
proof -
  have "os_now steady_os w = (t, w') \<Longrightarrow> t = sc_clock w \<and> sc_clock w' = sc_clock w + 1000" for w t w'
    by (auto simp: steady_os_def demo_os_def)
  then show ?thesis using steady_calls unfolding clock_advances_def by fastforce
qed

section \<open>A call that ends with its first reply\<close>

text \<open>
  Whatever the request is, when the bytes under way are a reply that does not redirect, \<open>Client::request\<close>
  returns, and nothing but a timeout keeps that reply from the caller.
\<close>

lemma call_is_answered:
  assumes "healthy os inbox_peer inbox" and "clock_advances os rank" and "client_wf c"
    and "serialize_request (os_inet_pton6 os) r = Inr ser"
    and "reply_ok (client_limits c) (req_method r) rep" and "line_room (client_limits c) (req_method r) rep"
    and "\<not> is_redirect_status (int (rep_status rep))" and "inbox (world s) = reply_text (req_method r) rep @ rest"
  shows "\<exists>res c' s'. client_request os c r s = Some (res, c', s')
    \<and> (case res of
         Inr resp \<Rightarrow> resp = reply_response (req_method r) rep
       | Inl e \<Rightarrow> code e \<in> {ConnectTimeout, WriteTimeout, ReadTimeout})"
proof -
  have "peer_owe inbox_peer (inbox (world s)) = reply_text (req_method r) rep @ rest"
      "inbox (world s) = peer_hear inbox_peer (ser_head ser @ ser_body ser)
         (peer_at inbox_peer c (ser_url ser) (inbox (world s)))"
    using assms(8) by (simp_all add: inbox_peer_def peer_at_def)
  from healthy_execute [OF assms(2) inbox.peer_axioms assms(1,3,4,5,6) this(2,1)] obtain res c' s' where
    run: "execute_once os c r s = Some (res, c', s')"
    and "case res of Inl e \<Rightarrow> code e \<in> set timeouts \<and> \<not> has_reusable_connection c'
      | Inr resp \<Rightarrow> resp = reply_response (req_method r) rep \<and> told_reply inbox_peer (reply_text (req_method r) rep) (inbox (world s)) (inbox (world s'))"
    by blast
  then have res: "case res of Inl e \<Rightarrow> code e \<in> set timeouts | Inr resp \<Rightarrow> resp = reply_response (req_method r) rep"
    by (cases res) simp_all
  have "client_request os c r s = Some (res, c', s')"
    using run res assms(7) by (auto simp: client_request_def request_with_def reply_response_def split: sum.split)
  with res show ?thesis by (auto simp: timeouts_def split: sum.split)
qed

lemma call_is_answered_witness:
  "\<exists>c' s'. client_request steady_os mk_client (mk_request Get ''http://b/x'')
      (demo_sys [0, 5] [reply_text Get demo_answer]) = Some (Inr (reply_response Get demo_answer), c', s')"
proof -
  let ?r = "mk_request Get ''http://b/x''" and ?s = "demo_sys [0, 5] [reply_text Get demo_answer]"
  have ok: "reply_ok (client_limits mk_client) (req_method ?r) demo_answer"
    "line_room (client_limits mk_client) (req_method ?r) demo_answer" "\<not> is_redirect_status (int (rep_status demo_answer))"
    by code_simp+
  have "result_has_value (serialize_request (os_inet_pton6 steady_os) ?r)" by code_simp
  then obtain ser where ser: "serialize_request (os_inet_pton6 steady_os) ?r = Inr ser"
    by (auto simp: result_has_value_def split: sum.splits)
  have inbox: "steady_inbox (world ?s) = reply_text (req_method ?r) demo_answer @ []"
    by (simp add: steady_inbox_def demo_sys_def mk_request_def)
  from call_is_answered [OF steady_healthy steady_clock mk_client_wf(1) ser ok inbox]
  obtain res c' s' where run: "client_request steady_os mk_client ?r ?s = Some (res, c', s')"
    and res: "case res of Inr resp \<Rightarrow> resp = reply_response (req_method ?r) demo_answer
       | Inl e \<Rightarrow> code e \<in> {ConnectTimeout, WriteTimeout, ReadTimeout}" by blast
  have "case client_request steady_os mk_client ?r ?s of None \<Rightarrow> False | Some (res, c, s) \<Rightarrow> result_has_value res"
    by code_simp
  with run have "result_has_value res" by simp
  with res run show ?thesis by (auto simp: result_has_value_def mk_request_def split: sum.splits)
qed

end
