(* ===== verification/Http_Server.thy ===== *)
theory Http_Server
  imports Response_Replies
begin

text \<open>
  A reference server.  \<open>answers serve heard\<close> is all it sends on a connection on which it heard \<open>heard\<close>: it cuts
  requests off the stream by their heads and lengths, and answers each with the reply \<open>serve\<close> gives for its lines and
  its body.  The lemmas show that it reads what \<open>serialize_request\<close> writes, whatever follows on the connection.
\<close>

section \<open>Reading requests\<close>

definition line_field :: "string \<Rightarrow> field"
where
  "line_field l =
     mk_field (takeWhile (\<lambda>c. c \<noteq> CHR '':'') l) (trim_ows (drop 1 (dropWhile (\<lambda>c. c \<noteq> CHR '':'') l)))"

definition announced_length :: "string list \<Rightarrow> nat"
where
  "announced_length ls =
     (case values_of (map line_field (tl ls)) ''Content-Length'' of
        [] \<Rightarrow> 0
      | v # vs \<Rightarrow> digits_value 10 0 v)"

text \<open>The first request of a stream, its lines and its body, and what follows it.\<close>

definition read_request :: "string \<Rightarrow> ((string list \<times> string) \<times> string) option"
where
  "read_request h =
     (case read_head h of
        None \<Rightarrow> None
      | Some (ls, rest) \<Rightarrow>
          if length rest < announced_length ls then None
          else Some ((ls, take (announced_length ls) rest), drop (announced_length ls) rest))"

lemma read_head_shorter: "read_head h = Some (ls, rest) \<Longrightarrow> length rest < length h"
proof (induction h arbitrary: ls rest rule: read_head.induct)
  case (1 s)
  from "1.prems" obtain e where e: "find_str crlf s = Some e"
    by (subst (asm) read_head.simps) (auto split: option.splits)
  from find_str_Some_le [OF e] have le: "e + 2 \<le> length s" by simp
  show ?case
  proof (cases "e = 0")
    case True
    with "1.prems" e le show ?thesis by (subst (asm) read_head.simps) auto
  next
    case False
    with "1.prems" e obtain ls' where "read_head (drop (e + 2) s) = Some (ls', rest)"
      by (subst (asm) read_head.simps) auto
    from "1.IH" [OF e False this] le show ?thesis by simp
  qed
qed

lemma read_request_shorter: "read_request h = Some (q, rest) \<Longrightarrow> length rest < length h"
  by (auto simp: read_request_def dest!: read_head_shorter split: option.splits if_splits)

section \<open>The server\<close>

text \<open>The method a request line begins with.\<close>

definition read_method :: "string \<Rightarrow> http_method"
where
  "read_method l =
     (case find (\<lambda>m. method_token m = takeWhile (\<lambda>c. c \<noteq> CHR '' '') l) enum_class.enum of
        None \<Rightarrow> Get
      | Some m \<Rightarrow> m)"

lemma read_method_line: "read_method (request_line r u) = req_method r"
  by (cases "req_method r")
    (simp_all add: read_method_def request_line_def enum_http_method_def)

function answers :: "(string list \<Rightarrow> string \<Rightarrow> reply) \<Rightarrow> string \<Rightarrow> string"
where
  "answers serve heard =
     (case read_request heard of
        None \<Rightarrow> []
      | Some ((ls, b), rest) \<Rightarrow> reply_text (read_method (hd ls)) (serve ls b) @ answers serve rest)"
  by pat_completeness auto
termination
  by (relation "measure (\<lambda>(serve, heard). length heard)") (auto dest: read_request_shorter)

declare answers.simps [simp del]

lemma answers_Nil [simp]: "answers serve [] = []"
proof -
  have "read_head [] = None" by (subst read_head.simps) simp
  then show ?thesis by (subst answers.simps) (simp add: read_request_def)
qed

lemma line_field_line:
  assumes "valid_field_name (field_name f)"
  shows "line_field (field_line f) = mk_field (field_name f) (trim_ows (field_value f))"
proof -
  have "\<forall>c \<in> set (field_name f). c \<noteq> CHR '':''" using valid_field_name_no_crlf [OF assms] by auto
  then have "takeWhile (\<lambda>c. c \<noteq> CHR '':'') (field_line f) = field_name f"
      "dropWhile (\<lambda>c. c \<noteq> CHR '':'') (field_line f) = '': '' @ field_value f"
    by (simp_all add: field_line_def)
  then show ?thesis by (simp add: line_field_def is_ows_def)
qed

lemma trim_ows_digits: "\<forall>c \<in> set v. is_digit 10 c \<Longrightarrow> trim_ows v = v"
proof (rule trim_ows_id)
  have *: "\<not> is_ows c" if "is_digit 10 c" for c using that by (auto simp: is_ows_def is_digit_def digit_val_def)
  assume "\<forall>c \<in> set v. is_digit 10 c"
  with * show "v = [] \<or> \<not> is_ows (hd v) \<and> \<not> is_ows (last v)" by (cases "v = []") auto
qed

lemma values_line_field:
  assumes "\<forall>f \<in> set fs. valid_field_name (field_name f)"
  shows "values_of (map line_field (map field_line fs)) n = map trim_ows (values_of fs n)"
  using assms by (induction fs) (simp_all add: values_of_def line_field_line mk_field_def)

lemma digits_to_decimal: "(\<forall>c \<in> set (to_decimal n). is_digit 10 c) \<and> digits_value 10 0 (to_decimal n) = n"
  unfolding to_decimal_def using to_digits_digits [of 10 n] to_digits_value [of 10 n] by simp

lemma serialized_announces:
  assumes "serialize_request inet r = Inr s"
  shows "announced_length (request_line r (ser_url s) # map field_line (sent_fields r (ser_url s))) = length (ser_body s)"
proof -
  let ?fs = "sent_fields r (ser_url s)"
  from assms have u: "Url_parse inet (req_url r) = Inr (ser_url s)" and wf: "well_framed r"
    and b: "ser_body s = req_body r"
    unfolding serialize_request_Inr by (auto dest: arg_cong [where f = ser_body])
  have "\<forall>f \<in> set ?fs. valid_field_name (field_name f)"
    using sent_fields_valid [OF u] wf by (auto simp: well_framed_def)
  note vals = values_line_field [OF this, of "''Content-Length''"]
  show ?thesis
  proof (cases "values_of (req_headers r) ''Content-Length''")
    case Nil
    then show ?thesis
      using vals digits_to_decimal trim_ows_digits
      by (auto simp: announced_length_def b sent_fields_def values_of_append values_of_single wire_names needs_length_def)
  next
    case (Cons v vs)
    with wf have "vs = []" and v: "from_chars_all 10 64 v = Some (length (req_body r))"
      by (auto simp: well_framed_def split: list.splits)
    with Cons vals trim_ows_digits show ?thesis
      by (auto simp: announced_length_def b sent_fields_def values_of_append values_of_single wire_names needs_length_def
          from_chars_all_Some)
  qed
qed

text \<open>A server hears what the client meant: the request stands at the front of the stream, whatever follows.\<close>

definition heard_request :: "request \<Rightarrow> serialized_request \<Rightarrow> string list \<times> string"
where
  "heard_request r s = (request_line r (ser_url s) # map field_line (sent_fields r (ser_url s)), ser_body s)"

lemma serialized_read_request:
  assumes "serialize_request inet r = Inr s"
  shows "read_request (ser_head s @ ser_body s @ x) = Some (heard_request r s, x)"
  using serialized_read_head [OF assms, of "ser_body s @ x"] serialized_announces [OF assms]
  by (simp add: read_request_def heard_request_def)

lemma answers_serialized:
  assumes "serialize_request inet r = Inr s"
  shows "answers serve (ser_head s @ ser_body s @ x)
    = reply_text (req_method r) (case_prod serve (heard_request r s)) @ answers serve x"
  by (subst answers.simps) (simp add: serialized_read_request [OF assms] heard_request_def read_method_line)

end
