(* ===== verification/Redirect_Outcome.thy ===== *)
theory Redirect_Outcome
  imports Redirect_Chain
begin

text \<open>
  What a call comes to when every request is answered: \<open>browse\<close> follows the answers from request to
  request, with no client, no connection and no loop variables.  \<open>Client::request\<close> refines it over any exchange that
  answers (the locale \<open>answering_exchange\<close>).
\<close>

section \<open>The next request\<close>

definition next_request :: "(string \<Rightarrow> bool) \<Rightarrow> request \<Rightarrow> response \<Rightarrow> request result"
where
  "next_request inet r resp =
     (case values_of (rs_headers resp) ''Location'' of
        [] \<Rightarrow> fail MissingRedirectLocation
      | location # _ \<Rightarrow>
          if location = [] then fail MissingRedirectLocation
          else
            (case Url_parse inet (effective_request_url r) of
               Inl e \<Rightarrow> Inl e
             | Inr base \<Rightarrow>
                 (case resolve_redirect_location inet base location of
                    Inl e \<Rightarrow> Inl e
                  | Inr target \<Rightarrow>
                      (case Url_parse inet target of
                         Inl e \<Rightarrow> fail UnsupportedRedirectScheme
                       | Inr u \<Rightarrow>
                           let behavior = redirect_behavior (status_code resp) (req_method r) in
                           Inr \<lparr>req_method = rb_method behavior, req_url = target,
                                req_headers =
                                  filter (\<lambda>f. (same_origin base u \<or> \<not> is_cross_origin_sensitive_header (field_name f))
                                     \<and> (preserve_body behavior \<or> \<not> is_entity_header_removed_with_body (field_name f)))
                                    (req_headers r),
                                req_body = (if preserve_body behavior then req_body r else []),
                                req_params = []\<rparr>))))"

fun browse :: "(string \<Rightarrow> bool) \<Rightarrow> (request \<Rightarrow> response result) \<Rightarrow> nat \<Rightarrow> request \<Rightarrow> response result"
where
  "browse inet answer n r =
     (case answer r of
        Inl e \<Rightarrow> Inl e
      | Inr resp \<Rightarrow>
          if \<not> is_redirect_status (status_code resp) then Inr resp
          else
            (case n of
               0 \<Rightarrow> fail RedirectLimitExceeded
             | Suc m \<Rightarrow>
                 (case next_request inet r resp of
                    Inl e \<Rightarrow> Inl e
                  | Inr r' \<Rightarrow> browse inet answer m r')))"

declare browse.simps [simp del]

text \<open>The loop variables stand for a request.\<close>

definition stands_for :: "redirect_state \<Rightarrow> request \<Rightarrow> bool"
where
  "stands_for st r \<longleftrightarrow>
     current_url st = effective_request_url r \<and> current_method st = req_method r
     \<and> current_headers st = req_headers r \<and> current_body st = req_body r"

lemma start_stands_for: "stands_for (start_redirects r) r"
  by (simp add: stands_for_def start_redirects_def)

lemma resolved_parses:
  assumes "resolve_redirect_location inet base location = Inr target"
  shows "\<exists>u. Url_parse inet target = Inr u"
proof -
  have "\<exists>t. validate_redirect_url inet t = Inr target"
    using assms by (auto simp: resolve_redirect_location_def Let_def split: if_splits option.splits)
  then show ?thesis by (auto simp: validate_redirect_url_Inr)
qed

text \<open>A hop is the next request, where the limit allows one.\<close>

definition loop_state :: "request \<Rightarrow> nat \<Rightarrow> redirect_state"
where
  "loop_state r n =
     \<lparr>current_url = req_url r, current_method = req_method r, current_headers = req_headers r,
      current_body = req_body r, redirects_followed = n\<rparr>"

lemma follow_next:
  assumes "stands_for st r"
  shows "follow_redirect inet n st resp =
    (if n \<le> redirects_followed st then fail RedirectLimitExceeded
     else map_sum id (\<lambda>r'. loop_state r' (redirects_followed st + 1)) (next_request inet r resp))"
proof (cases "values_of (rs_headers resp) ''Location''")
  case Nil
  then have "\<not> headers_contains (rs_headers resp) ''Location''" by (simp add: hdr.has_vals)
  with Nil show ?thesis by (simp add: follow_redirect_def next_request_def)
next
  case (Cons location ls)
  then have "headers_contains (rs_headers resp) ''Location''" "headers_get (rs_headers resp) ''Location'' = location"
    by (simp_all add: hdr.has_vals hdr.get_vals)
  with Cons assms show ?thesis
    by (auto simp: follow_redirect_def next_request_def stands_for_def Let_def loop_state_def
        redirected_headers_filter id_def dest: resolved_parses intro!: filter_cong split: sum.split)
qed

lemma next_request_params: "next_request inet r resp = Inr r' \<Longrightarrow> req_params r' = [] \<and> CHR ''#'' \<notin> set (req_url r')"
  by (auto simp: next_request_def Let_def dest: resolve_no_fragment split: list.splits if_splits sum.splits)

lemma loop_state_request:
  assumes "next_request inet r resp = Inr r'"
  shows "redirected_request (loop_state r' n) = r' \<and> stands_for (loop_state r' n) r'"
proof -
  note params = next_request_params [OF assms]
  have r: "redirected_request (loop_state r' n) = r'"
    using params by (cases r') (simp add: redirected_request_def loop_state_def mk_request_def set_body_def)
  have "effective_request_url r' = req_url r'"
    using redirected_request_url [of "loop_state r' n"] params r by (simp add: loop_state_def)
  with r show ?thesis by (simp add: stands_for_def loop_state_def)
qed

section \<open>The loop follows it\<close>

text \<open>A run returns in a \<open>ready\<close> state with the outcome, unless one of the errors of \<open>breaks\<close> came in between.\<close>

definition agrees :: "('x \<Rightarrow> bool) \<Rightarrow> error_code set \<Rightarrow> (response result \<times> 'x) option \<Rightarrow> response result \<Rightarrow> bool"
where
  "agrees ready breaks run outcome \<longleftrightarrow>
     (\<exists>res x. run = Some (res, x) \<and> ready x \<and> (res = outcome \<or> (\<exists>e. res = Inl e \<and> code e \<in> breaks)))"

text \<open>
  An exchange that answers: in a state \<open>ready\<close> for it, a request gets its answer or one of the
  errors of \<open>breaks\<close>, and the state is ready again.  \<open>works\<close> is what the provider needs for it.
\<close>

locale answering_exchange =
  fixes execute :: "request \<Rightarrow> 'x \<Rightarrow> (response result \<times> 'x) option"
    and answer :: "request \<Rightarrow> response result"
    and ready :: "'x \<Rightarrow> bool"
    and breaks :: "error_code set"
    and works :: bool
  assumes answers: "works \<Longrightarrow> ready x \<Longrightarrow> agrees ready breaks (execute r x) (answer r)"
begin

lemma loop_browses:
  assumes "works" "ready x" "stands_for st r" "answer r = Inr resp"
    and "redirects_followed st + k = n"
  shows "agrees ready breaks (redirect_loop execute inet n st resp x) (browse inet answer k r)"
  using assms(2-)
proof (induction k arbitrary: st r resp x)
  case 0
  then show ?case
    by (subst redirect_loop.simps, subst browse.simps)
      (auto simp: agrees_def follow_next)
next
  case (Suc k)
  show ?case
  proof (cases "is_redirect_status (status_code resp)")
    case False
    with Suc.prems show ?thesis by (subst redirect_loop.simps, subst browse.simps) (simp add: agrees_def)
  next
    case True
    have room: "\<not> n \<le> redirects_followed st" using Suc.prems(4) by simp
    show ?thesis
    proof (cases "next_request inet r resp")
      case (Inl e)
      with True room Suc.prems show ?thesis
        by (subst redirect_loop.simps, subst browse.simps) (simp add: agrees_def follow_next)
    next
      case (Inr r')
      let ?st = "loop_state r' (redirects_followed st + 1)"
      note st = loop_state_request [OF Inr, of "redirects_followed st + 1"]
      from answers [OF assms(1) Suc.prems(1), of r'] obtain res x' where
        run: "execute r' x = Some (res, x')" "ready x'" "res = answer r' \<or> (\<exists>e. res = Inl e \<and> code e \<in> breaks)" unfolding agrees_def by blast
      have loop: "redirect_loop execute inet n st resp x =
          (case res of Inl e \<Rightarrow> Some (Inl e, x') | Inr resp' \<Rightarrow> redirect_loop execute inet n ?st resp' x')"
        using True room Suc.prems(2) Inr st run(1) by (subst redirect_loop.simps) (simp add: follow_next split: sum.split)
      have spec: "browse inet answer (Suc k) r = browse inet answer k r'"
        using True Suc.prems(3) Inr by (subst browse.simps) simp
      show ?thesis
      proof (cases res)
        case (Inl e)
        with run loop spec show ?thesis
          by (cases "answer r'"; subst (asm) browse.simps) (auto simp: agrees_def)
      next
        case res: (Inr resp')
        with run(3) have "answer r' = Inr resp'" by auto
        moreover have "redirects_followed ?st + k = n" using Suc.prems(4) by (simp add: loop_state_def)
        ultimately have "agrees ready breaks (redirect_loop execute inet n ?st resp' x') (browse inet answer k r')"
          using Suc.IH [OF run(2)] st by blast
        with loop spec res show ?thesis by simp
      qed
    qed
  qed
qed

lemma request_browses:
  assumes "works" "ready x"
  shows "agrees ready breaks (request_with execute inet follow n r x) (if follow then browse inet answer n r else answer r)"
proof -
  from answers [OF assms, of r] obtain res x' where
    run: "execute r x = Some (res, x')" "ready x'" "res = answer r \<or> (\<exists>e. res = Inl e \<and> code e \<in> breaks)" unfolding agrees_def by blast
  show ?thesis
  proof (cases res)
    case (Inl e)
    with run show ?thesis
      by (cases "answer r") (auto simp: request_with_def agrees_def browse.simps [of inet answer n r])
  next
    case (Inr resp)
    with run(3) have a: "answer r = Inr resp" by auto
    have "redirects_followed (start_redirects r) + n = n" by (simp add: start_redirects_def)
    from loop_browses [OF assms(1) run(2) start_stands_for a this, of inet] a Inr run show ?thesis
      by (auto simp: request_with_def agrees_def browse.simps [of inet answer n r])
  qed
qed

end

end
