(* ===== verification/Client_Served.thy ===== *)
theory Client_Served
  imports Client_Succeeds Http_Server Redirect_Outcome
begin

text \<open>
  The client and the reference server, redirects and kept connections included: over a network that works, a call
  comes to what \<open>browse\<close> makes of the server's answers (\<open>ask\<close>), or to a timeout, and leaves client and server in step
  for the next call.
\<close>

section \<open>A server at the other end\<close>

text \<open>Its state is what it heard and what it told since the connection was made.\<close>

definition server_peer :: "(string list \<Rightarrow> string \<Rightarrow> reply) \<Rightarrow> (string \<times> string) peer"
where
  "server_peer serve =
     \<lparr>peer_accept = (\<lambda>g. ([], [])),
      peer_hear = (\<lambda>b (heard, told). (heard @ b, told)),
      peer_owe = (\<lambda>(heard, told). drop (length told) (answers serve heard)),
      peer_tell = (\<lambda>b (heard, told). (heard, told @ b))\<rparr>"

lemma drop_told: "drop n xs = b @ z \<Longrightarrow> drop (n + length b) xs = z"
  by (metis add.commute append_eq_conv_conj drop_drop)

interpretation server: peer "server_peer serve" for serve
  by unfold_locales (auto simp: server_peer_def drop_told split: prod.splits)

text \<open>What the server's answer to a request is; a request that cannot be written gets the error instead.\<close>

definition ask :: "(string \<Rightarrow> bool) \<Rightarrow> (string list \<Rightarrow> string \<Rightarrow> reply) \<Rightarrow> request \<Rightarrow> response result"
where
  "ask inet serve r =
     (case serialize_request inet r of
        Inl e \<Rightarrow> Inl e
      | Inr s \<Rightarrow> Inr (reply_response (req_method r) (case_prod serve (heard_request r s))))"

text \<open>Everything heard is answered, and the next byte begins a request.\<close>

definition up_to_date :: "(string list \<Rightarrow> string \<Rightarrow> reply) \<Rightarrow> string \<times> string \<Rightarrow> bool"
where
  "up_to_date serve g \<longleftrightarrow>
     snd g = answers serve (fst g) \<and> (\<forall>x. answers serve (fst g @ x) = answers serve (fst g) @ answers serve x)"

definition in_step :: "(string list \<Rightarrow> string \<Rightarrow> reply) \<Rightarrow> client \<Rightarrow> string \<times> string \<Rightarrow> bool"
  where "in_step serve c g \<longleftrightarrow> (has_reusable_connection c \<longrightarrow> up_to_date serve g)"

lemma accepted_up_to_date: "up_to_date serve (peer_accept (server_peer serve) g)"
  by (simp add: up_to_date_def server_peer_def)

lemma in_step_peer: "in_step serve c g \<Longrightarrow> up_to_date serve (peer_at (server_peer serve) c u g)"
  using accepted_up_to_date by (auto simp: in_step_def peer_at_def reuses_def)

lemma owes_answer:
  assumes "up_to_date serve g" and "serialize_request inet r = Inr s"
  shows "peer_owe (server_peer serve) (peer_hear (server_peer serve) (ser_head s @ ser_body s) g)
    = reply_text (req_method r) (case_prod serve (heard_request r s))"
  using assms(1) answers_serialized [OF assms(2), of serve "[]"]
  by (auto simp: up_to_date_def server_peer_def split: prod.splits)

lemma told_up_to_date:
  assumes "up_to_date serve g" and "serialize_request inet r = Inr s"
    and "told_reply (server_peer serve) (reply_text (req_method r) (case_prod serve (heard_request r s)))
      (peer_hear (server_peer serve) (ser_head s @ ser_body s) g) g'"
  shows "up_to_date serve g'"
proof -
  let ?w = "ser_head s @ ser_body s" and ?t = "reply_text (req_method r) (case_prod serve (heard_request r s))"
  obtain h t where g: "g = (h, t)" by fastforce
  note w = answers_serialized [OF assms(2), of serve]
  from assms(3) owes_answer [OF assms(1,2)] have "g' = (h @ ?w, t @ ?t)"
    by (auto simp: told_reply_def server_peer_def g)
  moreover have "answers serve (h @ x) = t @ answers serve x" "t = answers serve h" for x
    using assms(1) by (auto simp: up_to_date_def g)
  ultimately show ?thesis using w w [of "[]"] by (simp add: up_to_date_def)
qed

interpretation serving: delivering_transport "effect os" "write_all os" "read_some os False" "sane_io os"
  "remaining_timeout os" "server_peer serve" "\<lambda>s. talk (world s)" "healthy os (server_peer serve) talk" for os serve talk
  by (rule working_transport [OF server.peer_axioms])

section \<open>Exchanges with it\<close>

text \<open>Whatever it hears, the server sends a reply that is well formed and within the client's limits.\<close>

definition replies_within :: "response_limits \<Rightarrow> (string list \<Rightarrow> string \<Rightarrow> reply) \<Rightarrow> bool"
  where "replies_within lim serve \<longleftrightarrow> 
    (\<forall>ls b. reply_ok lim (read_method (hd ls)) (serve ls b) \<and> line_room lim (read_method (hd ls)) (serve ls b))"

definition serving ::
  "'w os \<Rightarrow> (string list \<Rightarrow> string \<Rightarrow> reply) \<Rightarrow> ('w \<Rightarrow> string \<times> string) \<Rightarrow> (int \<Rightarrow> 'w \<Rightarrow> nat) \<Rightarrow> bool"
where
  "serving os serve talk rank \<longleftrightarrow> healthy os (server_peer serve) talk \<and> clock_advances os rank"

definition prepared ::
  "(string list \<Rightarrow> string \<Rightarrow> reply) \<Rightarrow> ('w \<Rightarrow> string \<times> string) \<Rightarrow> client \<times> 'w sys \<Rightarrow> bool"
where
  "prepared serve talk x \<longleftrightarrow>
     client_wf (fst x) \<and> replies_within (client_limits (fst x)) serve \<and> in_step serve (fst x) (talk (world (snd x)))"

lemma served_execute:
  assumes "serving os serve talk rank" and "prepared serve talk (c, s)"
  shows "agrees (prepared serve talk) (set timeouts) (execute_once os c r s) (ask (os_inet_pton6 os) serve r)"
proof (cases "serialize_request (os_inet_pton6 os) r")
  case (Inl e)
  with assms(2) show ?thesis by (simp add: execute_once_def agrees_def ask_def)
next
  case (Inr ser)
  let ?rep = "case_prod serve (heard_request r ser)" and ?P = "server_peer serve"
  let ?g0 = "peer_at ?P c (ser_url ser) (talk (world s))"
  from assms(1) have sv: "clock_advances os rank" "healthy os ?P talk" by (simp_all add: serving_def)
  from assms(2) have c: "client_wf c" "replies_within (client_limits c) serve" "in_step serve c (talk (world s))"
    by (simp_all add: prepared_def)
  have "reply_ok (client_limits c) (read_method (hd ls)) (serve ls b)
      \<and> line_room (client_limits c) (read_method (hd ls)) (serve ls b)" for ls b
    using c(2) unfolding replies_within_def by blast
  from this [of "fst (heard_request r ser)" "snd (heard_request r ser)"]
  have rep: "reply_ok (client_limits c) (req_method r) ?rep" "line_room (client_limits c) (req_method r) ?rep"
    by (simp_all add: heard_request_def read_method_line)
  note fresh = in_step_peer [OF c(3), of "ser_url ser"]
  have owed: "peer_owe ?P (peer_hear ?P (ser_head ser @ ser_body ser) ?g0) = reply_text (req_method r) ?rep @ []"
    using owes_answer [OF fresh Inr] by simp
  from healthy_execute [OF sv(1) server.peer_axioms sv(2) c(1) Inr rep refl owed]
  obtain res c' s' where run: "execute_once os c r s = Some (res, c', s')"
    and res: "case res of Inl e \<Rightarrow> code e \<in> set timeouts \<and> \<not> has_reusable_connection c'
      | Inr resp \<Rightarrow> resp = reply_response (req_method r) ?rep
          \<and> told_reply ?P (reply_text (req_method r) ?rep) (peer_hear ?P (ser_head ser @ ser_body ser) ?g0) (talk (world s'))" by blast
  have "in_step serve c' (talk (world s'))"
    using res told_up_to_date [OF fresh Inr] by (auto simp: in_step_def split: sum.splits)
  with run res execute_once_effect [OF run c(1)] c(2) Inr show ?thesis
    by (auto simp: agrees_def prepared_def ask_def split: sum.splits)
qed

interpretation served: answering_exchange "\<lambda>r (c, s). execute_once os c r s" "ask (os_inet_pton6 os) serve"
  "prepared serve talk" "set timeouts" "serving os serve talk rank"
  for os serve talk rank
proof unfold_locales
  fix x and r :: request
  assume "serving os serve talk rank" "prepared serve talk x"
  then show "agrees (prepared serve talk) (set timeouts) (case x of (c, s) \<Rightarrow> execute_once os c r s)
      (ask (os_inet_pton6 os) serve r)"
    using served_execute by (cases x) simp
qed

section \<open>A system to run on\<close>

text \<open>
  Like \<open>demo_os\<close>, but at the other end of every connection is the server \<open>serve\<close>: the script holds what it heard
  and what it told.  \<open>send\<close> takes at most 40 bytes and \<open>recv\<close> delivers at most 50.
\<close>

definition served_talk :: "script \<Rightarrow> string \<times> string"
  where "served_talk w = (case sc_reads w of [heard, told] \<Rightarrow> (heard, told) | _ \<Rightarrow> ([], []))"

definition served_os :: "(string list \<Rightarrow> string \<Rightarrow> reply) \<Rightarrow> script os"
where
  "served_os serve = demo_os
     \<lparr>os_socket := (\<lambda>f t p w. (3, 0, w)),
      os_connect := (\<lambda>h a n w. (0, 0, w\<lparr>sc_reads := [[], []]\<rparr>)),
      os_send := (\<lambda>h b f w. case served_talk w of (heard, told) \<Rightarrow>
                     (int (length (take 40 b)), 0, w\<lparr>sc_reads := [heard @ take 40 b, told]\<rparr>)),
      os_recv := (\<lambda>h n w. case served_talk w of (heard, told) \<Rightarrow>
                     let b = take (min n 50) (drop (length told) (answers serve heard))
                     in (int (length b), 0, b, w\<lparr>sc_reads := [heard, told @ b]\<rparr>))\<rparr>"

lemma served_healthy: "healthy (served_os serve) (server_peer serve) served_talk"
proof -
  have "modes_work (served_os serve) served_talk" "waits_work (served_os serve) served_talk"
    by (auto simp: modes_work_def waits_work_def served_os_def demo_os_def served_talk_def)
  moreover have "connects_work (served_os serve) (server_peer serve) served_talk"
    by (auto simp: connects_work_def served_os_def demo_os_def served_talk_def server_peer_def socket_valid_def kInvalidSocket_def)
  moreover have "names_resolve (served_os serve) served_talk"
    by (auto simp: names_resolve_def served_os_def demo_os_def served_talk_def usable_def)
  moreover have "bytes_flow (served_os serve) (server_peer serve) served_talk"
    using take_rest
    unfolding bytes_flow_def
    by (auto simp: served_os_def demo_os_def served_talk_def server_peer_def Let_def take_upto
        take_upto [of "drop k x" for k and x :: string, simplified] split: prod.splits)
  ultimately show ?thesis by (simp add: healthy_def)
qed

lemma served_clock: "clock_advances (served_os serve) (\<lambda>d w. nat (d - sc_clock w))"
proof -
  have "sc_clock w \<le> sc_clock w'" if "os_call (served_os serve) w w'" for w w'
    using that by cases (auto simp: served_os_def demo_os_def Let_def split: prod.splits)
  moreover have "os_now (served_os serve) w = (t, w') \<Longrightarrow> t = sc_clock w \<and> sc_clock w' = sc_clock w + 1000" for w t w'
    by (auto simp: served_os_def demo_os_def)
  ultimately show ?thesis unfolding clock_advances_def by fastforce
qed

definition moved :: reply
where
  "moved = \<lparr>rep_interims = [], rep_status = 302, rep_reason = ''Found'',
     rep_fields = [mk_field ''Location'' ''new?q''], rep_body = Sized ''gone''\<rparr>"

definition today :: reply
where
  "today = \<lparr>rep_interims = [\<lparr>int_status = 103, int_reason = ''Early Hints'', int_fields = []\<rparr>], rep_status = 200,
     rep_reason = ''OK'', rep_fields = [], rep_body = Chunks [''to'', ''day'']\<rparr>"

definition moving_server :: "string list \<Rightarrow> string \<Rightarrow> reply"
  where "moving_server ls b = (if hd ls = ''POST /old HTTP/1.1'' then moved else today)"

section \<open>Properties\<close>

text \<open>
  C3: Over a network that works a call comes to what the server's answers make of it, or to a timeout.  With an HTTP
  server behind every connection, \<open>Client::request\<close> returns, whatever interruptions, partial transfers and
  refusals it has to wait out and whichever connections it keeps; the result is that of following the server's answers
  from request to request (\<open>browse\<close>), limits and invalid locations included, and nothing but a timeout keeps it from
  the caller.  The client is left in step with the server, so this holds of one call after the other.
\<close>

theorem calls_are_answered:
  assumes "healthy os (server_peer serve) talk" and "clock_advances os rank"
    and "client_wf c" and "in_step serve c (talk (world s))"
    and "replies_within (client_limits c) serve"
  shows "\<exists>res c' s'. client_request os c r s = Some (res, c', s') \<and> in_step serve c' (talk (world s'))
    \<and> (res = (if follow_redirects c
                then browse (os_inet_pton6 os) (ask (os_inet_pton6 os) serve) (max_redirects c) r
                else ask (os_inet_pton6 os) serve r)
       \<or> (\<exists>e. res = Inl e \<and> code e \<in> {ConnectTimeout, WriteTimeout, ReadTimeout}))"
proof -
  have "serving os serve talk rank" "prepared serve talk (c, s)" using assms by (simp_all add: serving_def prepared_def)
  from served.request_browses [OF this, where r = r and follow = "follow_redirects c" and n = "max_redirects c"
      and inet = "os_inet_pton6 os"]
  show ?thesis by (auto simp: client_request_def agrees_def prepared_def timeouts_def)
qed

theorem calls_are_answered_witness:
  "\<exists>c' s'. client_request (served_os moving_server) mk_client (make_request Post ''http://b/old'' ''x'') (demo_sys [] []) =
     Some (Inr \<lparr>status_code = 200, reason = ''OK'', rs_headers = [mk_field ''Transfer-Encoding'' ''chunked''],
       body = ''today''\<rparr>, c', s')"
proof -
  let ?os = "served_os moving_server" and ?r = "make_request Post ''http://b/old'' ''x''" and ?s = "demo_sys [] []"
  have "\<forall>m. reply_ok (client_limits mk_client) m moved \<and> line_room (client_limits mk_client) m moved"
      "\<forall>m. reply_ok (client_limits mk_client) m today \<and> line_room (client_limits mk_client) m today"
    by code_simp+
  then have w: "replies_within (client_limits mk_client) moving_server"
    by (simp add: replies_within_def moving_server_def)
  have i: "in_step moving_server mk_client (served_talk (world ?s))" by (simp add: in_step_def mk_client_def)
  from calls_are_answered [OF served_healthy served_clock mk_client_wf(1) i w]
  obtain res c' s' where run: "client_request ?os mk_client ?r ?s = Some (res, c', s')"
    and res: "res = (if follow_redirects mk_client
        then browse (os_inet_pton6 ?os) (ask (os_inet_pton6 ?os) moving_server) (max_redirects mk_client) ?r
        else ask (os_inet_pton6 ?os) moving_server ?r)
      \<or> (\<exists>e. res = Inl e \<and> code e \<in> {ConnectTimeout, WriteTimeout, ReadTimeout})" by blast
  have "case client_request ?os mk_client ?r ?s of None \<Rightarrow> False | Some (res, c, s) \<Rightarrow> result_has_value res"
    by code_simp
  with run have "result_has_value res" by simp
  moreover have "(if follow_redirects mk_client
        then browse (os_inet_pton6 ?os) (ask (os_inet_pton6 ?os) moving_server) (max_redirects mk_client) ?r
        else ask (os_inet_pton6 ?os) moving_server ?r) =
     Inr \<lparr>status_code = 200, reason = ''OK'', rs_headers = [mk_field ''Transfer-Encoding'' ''chunked''], body = ''today''\<rparr>"
    by code_simp
  ultimately show ?thesis using run res by (auto simp: result_has_value_def)
qed

end
