(* ===== verification/Client_Resets.thy ===== *)
theory Client_Resets
  imports Client_Properties
begin

text \<open>
  A connection that is reset.  \<open>resetting os\<close> is the system \<open>os\<close>, but wherever \<open>recv\<close> would report the end of the stream
  it fails with \<open>ECONNRESET\<close>.  The two runs of \<open>Client::execute_once\<close> are compared step by step: they make the same
  calls up to that point, and end with the same response.
\<close>

section \<open>A system that resets\<close>

definition resetting :: "'w os \<Rightarrow> 'w os"
where
  "resetting os = os\<lparr>os_recv := (\<lambda>h n w.
     case os_recv os h n w of (r, e, b, w') \<Rightarrow> if r = 0 then (- 1, ECONNRESET os, b, w') else (r, e, b, w'))\<rparr>"

text \<open>Nothing but \<open>receive_some\<close> asks \<open>recv\<close>.\<close>

named_theorems other_calls

lemma resetting_sel [other_calls]:
  "os_socket (resetting os) = os_socket os" "os_close (resetting os) = os_close os" "os_getfl (resetting os) = os_getfl os"
  "os_setfl (resetting os) = os_setfl os" "os_poll (resetting os) = os_poll os" "os_send (resetting os) = os_send os"
  "os_connect (resetting os) = os_connect os" "os_so_error (resetting os) = os_so_error os" "os_now (resetting os) = os_now os"
  "os_getaddrinfo (resetting os) = os_getaddrinfo os" "os_freeaddrinfo (resetting os) = os_freeaddrinfo os"
  "os_inet_pton6 (resetting os) = os_inet_pton6 os" "EINTR (resetting os) = EINTR os" "EAGAIN (resetting os) = EAGAIN os"
  "EWOULDBLOCK (resetting os) = EWOULDBLOCK os" "EPIPE (resetting os) = EPIPE os" "ECONNRESET (resetting os) = ECONNRESET os"
  "ENOTCONN (resetting os) = ENOTCONN os" "ESHUTDOWN (resetting os) = ESHUTDOWN os"
  "EINPROGRESS (resetting os) = EINPROGRESS os" "EALREADY (resetting os) = EALREADY os"
  "O_NONBLOCK (resetting os) = O_NONBLOCK os" "POLLIN (resetting os) = POLLIN os" "POLLOUT (resetting os) = POLLOUT os"
  "MSG_NOSIGNAL (resetting os) = MSG_NOSIGNAL os" "AF_UNSPEC (resetting os) = AF_UNSPEC os"
  "AF_INET (resetting os) = AF_INET os" "AF_INET6 (resetting os) = AF_INET6 os" "SOCK_STREAM (resetting os) = SOCK_STREAM os"
  "IPPROTO_TCP (resetting os) = IPPROTO_TCP os" "AI_NUMERICSERV (resetting os) = AI_NUMERICSERV os"
  "sizeof_sockaddr_storage (resetting os) = sizeof_sockaddr_storage os" "ss_family (resetting os) = ss_family os"
  by (simp_all add: resetting_def)

lemma resetting_socket [other_calls]:
  "clock_now (resetting os) = clock_now os"
  "close_native_socket (resetting os) = close_native_socket os"
  "set_socket_nonblocking (resetting os) = set_socket_nonblocking os"
  "wait_socket (resetting os) = wait_socket os"
  "send_some (resetting os) = send_some os"
  "socket_error_is_would_block (resetting os) = socket_error_is_would_block os"
  "socket_error_is_interrupted (resetting os) = socket_error_is_interrupted os"
  "socket_error_is_connection_closed (resetting os) = socket_error_is_connection_closed os"
  "connect_in_progress (resetting os) = connect_in_progress os"
  "socket_error_result (resetting os) = socket_error_result os"
  "create_tcp_socket (resetting os) = create_tcp_socket os"
  unfolding clock_now_def close_native_socket_def set_socket_nonblocking_def wait_socket_def send_some_def
    socket_error_is_would_block_def socket_error_is_interrupted_def socket_error_is_connection_closed_def
    connect_in_progress_def socket_error_result_def create_tcp_socket_def other_calls
  by (rule refl)+

lemma resetting_close [other_calls]:
  "socket_reset (resetting os) = socket_reset os" "socket_close (resetting os) = socket_close os"
  "socket_destroy (resetting os) = socket_destroy os" "tcp_close (resetting os) = tcp_close os"
  "(close_and_fail (resetting os) :: error \<Rightarrow> handle \<Rightarrow> 'w sys \<Rightarrow> 'a result \<times> handle \<times> 'w sys) = close_and_fail os"
  "wait_socket_readable (resetting os) = wait_socket_readable os"
  "wait_socket_writable (resetting os) = wait_socket_writable os"
  "remaining_timeout (resetting os) = remaining_timeout os"
  unfolding socket_reset_def [abs_def] socket_close_def [abs_def] socket_destroy_def [abs_def] tcp_close_def [abs_def]
    close_and_fail_def [abs_def] wait_socket_readable_def [abs_def] wait_socket_writable_def [abs_def]
    remaining_timeout_def [abs_def] socket_reset_def other_calls
  by (rule refl)+

lemma resetting_connect [other_calls]: "connect_with_timeout (resetting os) = connect_with_timeout os"
  unfolding connect_with_timeout_def other_calls by (rule refl)

lemma resetting_endpoint [other_calls]:
  "mk_endpoint (resetting os) = mk_endpoint os" "endpoint_family (resetting os) = endpoint_family os"
  "release_addrinfo (resetting os) = release_addrinfo os"
  unfolding mk_endpoint_def endpoint_family_def release_addrinfo_def other_calls by (rule refl)+

lemma resetting_collect [other_calls]: "collect_endpoints (resetting os) = collect_endpoints os"
proof (intro ext)
  show "collect_endpoints (resetting os) es l = collect_endpoints os es l" for es l
    by (induction l arbitrary: es) (simp_all add: other_calls Let_def)
qed

lemma resetting_try [other_calls]: "try_endpoint (resetting os) = try_endpoint os"
  unfolding try_endpoint_def other_calls by (rule refl)

lemma resetting_loop [other_calls]: "connect_loop (resetting os) = connect_loop os"
proof (intro ext)
  show "connect_loop (resetting os) d sc es s = connect_loop os d sc es s" for d sc es s
    by (induction es arbitrary: sc s) (auto simp: other_calls split: prod.split sum.split)
qed

lemma resetting_acquire [other_calls]:
  "resolve (resetting os) = resolve os" "tcp_connect (resetting os) = tcp_connect os"
  "close_reusable_connection (resetting os) = close_reusable_connection os"
  "acquire_connection (resetting os) = acquire_connection os"
proof -
  show r: "resolve (resetting os) = resolve os" "tcp_connect (resetting os) = tcp_connect os"
    "close_reusable_connection (resetting os) = close_reusable_connection os"
    unfolding resolve_def tcp_connect_def close_reusable_connection_def other_calls by (rule refl)+
  show "acquire_connection (resetting os) = acquire_connection os"
    unfolding acquire_connection_def r by (rule refl)
qed

lemma resetting_turn [other_calls]:
  "write_turn (resetting os) = write_turn os" "write_finish (resetting os) = write_finish os"
  "read_finish (resetting os) = read_finish os"
  unfolding write_turn_def write_finish_def read_finish_def other_calls by (rule refl)+

lemma resetting_write_loop: "write_loop os d dl h n s = Some r \<Longrightarrow> write_loop (resetting os) d dl h n s = Some r"
proof -
  assume "write_loop os d dl h n s = Some r"
  then show ?thesis
  proof (rule write_loop.raw_induct [rotated])
    fix loop :: "'a os \<Rightarrow> string \<Rightarrow> int \<Rightarrow> handle \<Rightarrow> nat \<Rightarrow> 'a sys \<Rightarrow> (nat result \<times> handle \<times> 'a sys) option"
      and os d dl h n s r
    assume IH: "\<And>os d dl h n s r. loop os d dl h n s = Some r \<Longrightarrow> write_loop (resetting os) d dl h n s = Some r"
      and "(if n < length d then
          (case write_turn os d dl h n s of Finished r \<Rightarrow> Some r | Again k \<Rightarrow> loop os d dl h (fst k) (snd k))
        else Some (write_finish os h n s)) = Some r"
    then show "write_loop (resetting os) d dl h n s = Some r"
      by (subst write_loop.simps) (cases "write_turn os d dl h n s"; auto simp: other_calls split: if_splits)
  qed
qed

lemma resetting_write:
  "write_all os d t h s = Some r \<Longrightarrow> write_all (resetting os) d t h s = Some r"
  unfolding write_all_def
  by (auto simp: other_calls split: if_splits prod.splits option.splits intro: resetting_write_loop)

lemma resetting_send:
  assumes "send_request rem (write_all os) dl head c h s = Some r"
  shows "send_request rem (write_all (resetting os)) dl head c h s = Some r"
proof -
  obtain tm s1 where 1: "rem dl s = (tm, s1)" by fastforce
  obtain w1 h1 s2 where 2: "write_all os head tm h s1 = Some (w1, h1, s2)"
    using assms by (cases "write_all os head tm h s1") (auto simp: send_request_def 1)
  obtain tm2 s3 where 3: "rem dl s2 = (tm2, s3)" by fastforce
  note again = resetting_write [OF 2]
  show ?thesis
  proof (cases "(\<exists>e. w1 = Inl e) \<or> c = []")
    case True
    with assms show ?thesis by (auto simp: send_request_def 1 2 again split: sum.splits)
  next
    case False
    then obtain n where n: "w1 = Inr n" by (cases w1) auto
    obtain r2 where 4: "write_all os c tm2 h1 s3 = Some r2"
      using assms False n by (cases "write_all os c tm2 h1 s3") (auto simp: send_request_def 1 2 3)
    from assms False n resetting_write [OF 4] show ?thesis by (simp add: send_request_def 1 2 again 3 4)
  qed
qed

section \<open>Reading\<close>

text \<open>
  Two outcomes of a read that a caller who looks at error codes only cannot tell apart: the same, or the connection
  closed with \<open>ConnectionClosed\<close> under two native codes, in the same world.
\<close>

definition same_reading :: "'r result \<times> handle \<times> 'w sys \<Rightarrow> 'r result \<times> handle \<times> 'w sys \<Rightarrow> bool"
where
  "same_reading x y \<longleftrightarrow>
     x = y \<or> (\<exists>e e' s s'. x = (Inl e, kInvalidSocket, s) \<and> y = (Inl e', kInvalidSocket, s')
       \<and> code e = ConnectionClosed \<and> code e' = ConnectionClosed \<and> world s = world s')"

lemma same_reading_refl [simp]: "same_reading x x"
  by (simp add: same_reading_def)

lemma close_same_reading:
  assumes "code e = ConnectionClosed" "code e' = ConnectionClosed" "world s = world s'"
  shows "same_reading (close_and_fail os e h s) (close_and_fail os e' h s')"
  using assms
  by (auto simp: same_reading_def close_and_fail_def tcp_close_def socket_close_def socket_reset_def
      close_native_socket_def)

lemma reset_turn:
  assumes "ECONNRESET os \<noteq> EINTR os"
  shows "read_turn (resetting os) c d h s = read_turn os c d h s
    \<or> (\<exists>x y. read_turn os c d h s = Finished x \<and> read_turn (resetting os) c d h s = Finished y \<and> same_reading x y)"
proof -
  obtain now s1 where 1: "clock_now os s = (now, s1)" by fastforce
  obtain r e b w where 2: "os_recv os h (bounded_io_size c) (world s1) = (r, e, b, w)" by (metis prod_cases4)
  show ?thesis
  proof (cases "r = 0 \<and> now < d")
    case True
    then have rs: "receive_some os h c s1 = ((0, 0, b), log_event (Received h []) w s1)"
      "receive_some (resetting os) h c s1 = ((- 1, ECONNRESET os, []), s1\<lparr>world := w\<rparr>)"
      using 2 by (simp_all add: receive_some_def resetting_def)
    have "socket_error_is_connection_closed os (ECONNRESET os)" "\<not> socket_error_is_interrupted os (ECONNRESET os)"
      using assms by (simp_all add: socket_error_is_connection_closed_def socket_error_is_interrupted_def)
    then have "read_turn (resetting os) c d h s
        = Finished (close_and_fail os \<lparr>code = ConnectionClosed, native_code = ECONNRESET os\<rparr> h (s1\<lparr>world := w\<rparr>))"
      using True by (simp add: read_turn_def other_calls 1 rs)
    moreover have "read_turn os c d h s
        = Finished (close_and_fail os (mk_error ConnectionClosed) h (log_event (Received h []) w s1))"
      using True by (simp add: read_turn_def 1 rs)
    ultimately show ?thesis by (auto intro!: close_same_reading)
  next
    case False
    show ?thesis
    proof (cases "now < d")
      case True
      with False 2 have "receive_some (resetting os) h c s1 = receive_some os h c s1"
        by (simp add: receive_some_def resetting_def)
      then have "read_turn (resetting os) c d h s = read_turn os c d h s"
        unfolding read_turn_def other_calls 1 by simp
      then show ?thesis ..
    next
      case False
      then show ?thesis unfolding read_turn_def other_calls 1 by simp
    qed
  qed
qed

lemma reset_loop:
  assumes "read_loop os c d h s = Some x" and "ECONNRESET os \<noteq> EINTR os"
  shows "\<exists>y. read_loop (resetting os) c d h s = Some y \<and> same_reading x y"
  using assms(2)
proof (induction rule: read_loop.raw_induct [OF _ assms(1)])
  case (1 loop os c d h s x)
  note IH = 1(1) and run = 1(2) and ne = 1(3)
  show ?case
  proof (cases "read_turn os c d h s")
    case (Finished x')
    with run have "x' = x" by simp
    with reset_turn [OF ne, of c d h s] Finished obtain y where
      "read_turn (resetting os) c d h s = Finished y" "same_reading x y"
      by (metis io_turn.inject(1) same_reading_refl)
    then show ?thesis by (subst read_loop.simps) simp
  next
    case (Again s')
    with reset_turn [OF ne, of c d h s] have "read_turn (resetting os) c d h s = Again s'" by auto
    moreover from Again run have "loop os c d h s' = Some x" by simp
    from IH [OF this ne] obtain y where
      "read_loop (resetting os) c d h s' = Some y" "same_reading x y" by blast
    ultimately show ?thesis by (subst read_loop.simps) simp
  qed
qed

lemma reset_read:
  assumes "read_some os nb c t h s = Some x" and "ECONNRESET os \<noteq> EINTR os"
  shows "\<exists>y. read_some (resetting os) nb c t h s = Some y \<and> same_reading x y"
proof -
  obtain nc s1 where 1: "set_socket_nonblocking os h True s = (nc, s1)" by fastforce
  obtain now s2 where 2: "clock_now os s1 = (now, s2)" by fastforce
  show ?thesis
  proof (cases "connected h \<and> c \<noteq> 0 \<and> \<not> nb \<and> 0 < t \<and> nc = None")
    case True
    then have "read_some os' nb c t h s = read_loop os' c (now + from_ms t) h s2"
      if "set_socket_nonblocking os' = set_socket_nonblocking os" "clock_now os' = clock_now os" for os'
      using that by (simp add: read_some_def 1 2)
    from this [of os] this [of "resetting os"] reset_loop [OF _ assms(2)] assms(1) show ?thesis
      by (simp add: other_calls)
  next
    case False
    then have "read_some (resetting os) nb c t h s = read_some os nb c t h s"
      unfolding read_some_def other_calls by (auto simp: 1)
    with assms(1) show ?thesis by (metis same_reading_refl)
  qed
qed

text \<open>The response of a call, and what is left when it was read from a connection that is closed.\<close>

definition same_message :: "response_parser result \<times> handle \<times> 'w sys \<Rightarrow> response_parser result \<times> handle \<times> 'w sys \<Rightarrow> bool"
where
  "same_message x y \<longleftrightarrow>
     x = y \<or> (\<exists>r r' s s'. x = (r, kInvalidSocket, s) \<and> y = (r', kInvalidSocket, s') \<and> world s = world s'
       \<and> (r' = r \<or> (\<exists>e e'. r = Inl e \<and> r' = Inl e' \<and> code e' = code e)))"

lemma same_message_refl [simp]: "same_message x x"
  by (simp add: same_message_def)

lemma reset_response:
  assumes "read_response (read_some os nb c t) p h s = Some x" and "ECONNRESET os \<noteq> EINTR os"
  shows "\<exists>y. read_response (read_some (resetting os) nb c t) p h s = Some y \<and> same_message x y"
proof -
  have "do_read = read_some os nb c t \<longrightarrow> (\<exists>y. read_response (read_some (resetting os) nb c t) p h s = Some y \<and> same_message x y)"
    if "read_response do_read p h s = Some x" for do_read p h s and x :: "response_parser result \<times> handle \<times> 'a sys"
  proof (induction rule: read_response.raw_induct [OF _ that])
    case (1 loop do_read p h s x)
    note IH = 1(1) and run = 1(2)
    show ?case
    proof (intro impI)
      assume rd: "do_read = read_some os nb c t"
      show "\<exists>y. read_response (read_some (resetting os) nb c t) p h s = Some y \<and> same_message x y"
      proof (cases "complete p")
        case True
        with run show ?thesis by (subst read_response.simps) simp
      next
        case False
        then obtain a where a: "read_some os nb c t h s = Some a" using run rd by (cases "do_read h s") auto
        from reset_read [OF a assms(2)] obtain b where
          b: "read_some (resetting os) nb c t h s = Some b" "same_reading a b" by blast
        from b(2) consider "b = a" | e e' s1 s2 where "a = (Inl e, kInvalidSocket, s1)" "b = (Inl e', kInvalidSocket, s2)"
            "code e = ConnectionClosed" "code e' = ConnectionClosed" "world s1 = world s2"
          unfolding same_reading_def by blast
        then show ?thesis
        proof cases
          case 1
          note next_read = this
          show ?thesis
          proof (cases "fst a")
            case (Inl e)
            with run False rd a next_read b(1) show ?thesis
              by (cases a) (subst read_response.simps, simp split: prod.splits sum.splits)
          next
            case (Inr nb')
            obtain n buf h1 s1 where abc: "a = (Inr (n, buf), h1, s1)" using Inr by (cases a; cases nb') auto
            obtain rf p1 where f: "feed p (take n buf) = (rf, p1)" by fastforce
            show ?thesis
            proof (cases rf)
              case (Inl e)
              with run False rd a abc f next_read b(1) show ?thesis by (subst read_response.simps) simp
            next
              case (Inr q)
              with run False rd a abc f have "loop do_read p1 h1 s1 = Some x" by simp
              with IH rd obtain y where
                "read_response (read_some (resetting os) nb c t) p1 h1 s1 = Some y" "same_message x y" by blast
              with False abc f Inr next_read b(1) show ?thesis by (subst read_response.simps) simp
            qed
          qed
        next
          case (2 e e' s1 s2)
          obtain re q where q: "finish_eof p = (re, q)" by fastforce
          show ?thesis
          proof (cases re)
            case (Inl e0)
            with run False rd a 2 q b(1) show ?thesis
              by (subst read_response.simps) (auto simp: same_message_def)
          next
            case (Inr g)
            with run False rd a 2 q b(1) show ?thesis
              by (subst read_response.simps) (auto simp: same_message_def split: if_splits)
          qed
        qed
      qed
    qed
  qed
  with assms(1) show ?thesis by blast
qed

section \<open>Properties\<close>

lemma finish_exchange_closed:
  assumes "finish_exchange os c r u q kInvalidSocket s = Some (res, c', s')"
  shows "c' = c \<and> world s' = world s
    \<and> (world s2 = world s \<longrightarrow> (\<exists>s2'. finish_exchange os c r u q kInvalidSocket s2 = Some (res, c', s2') \<and> world s2' = world s'))"
  using assms
  by (auto simp: finish_exchange_def connected_def socket_valid_def socket_destroy_def socket_close_def socket_reset_def
      Let_def split: option.splits)

text \<open>What an exchange makes of the message it has read: the end of \<open>execute_once\<close>.\<close>

definition delivered ::
  "'w os \<Rightarrow> client \<Rightarrow> request \<Rightarrow> url \<Rightarrow> response_parser result \<times> handle \<times> 'w sys
    \<Rightarrow> (response result \<times> client \<times> 'w sys) option"
where
  "delivered os c r u x =
     (case x of
        (Inl e, h, s) \<Rightarrow> Some (Inl e, c, socket_destroy os h s)
      | (Inr q, h, s) \<Rightarrow> finish_exchange os c r u q h s)"

lemma same_message_delivered:
  assumes "delivered os c r u x = Some (res, c', s')" and "same_message x y"
  shows "\<exists>res' s''. delivered (resetting os) c r u y = Some (res', c', s'') \<and> world s'' = world s'
    \<and> (res' = res \<or> (\<exists>e e'. res = Inl e \<and> res' = Inl e' \<and> code e' = code e))"
proof -
  have fin: "finish_exchange (resetting os) = finish_exchange os"
    unfolding finish_exchange_def other_calls by (rule refl)
  have same: "delivered (resetting os) c r u y = delivered os c r u y"
    unfolding delivered_def fin other_calls by (rule refl)
  from assms(2) consider "y = x" | rx ry sx sy where "x = (rx, kInvalidSocket, sx)" "y = (ry, kInvalidSocket, sy)"
      "world sx = world sy" "ry = rx \<or> (\<exists>e e'. rx = Inl e \<and> ry = Inl e' \<and> code e' = code e)"
    unfolding same_message_def by blast
  then show ?thesis
  proof cases
    case 1
    with assms(1) same show ?thesis by auto
  next
    case 2
    show ?thesis
    proof (cases rx)
      case (Inl e)
      with 2 assms(1) same show ?thesis
        by (auto simp: delivered_def socket_destroy_def socket_close_def socket_reset_def)
    next
      case (Inr q)
      with 2(4) have "ry = Inr q" by auto
      with 2 Inr assms(1) same finish_exchange_closed [of os c r u q sx res c' s' sy] show ?thesis
        by (auto simp: delivered_def)
    qed
  qed
qed

text \<open>
  C39: A reset of the connection counts as its end.  Where the peer's system resets the connection instead of ending the
  stream, \<open>Client::execute_once\<close> comes to the same response, the same client and the same state of the system: a
  body without a length that the reset has cut is delivered as a complete one, and an error differs in its native
  code only.
\<close>

theorem reset_ends_the_body:
  assumes "execute_once os c r s = Some (res, c', s')" and "ECONNRESET os \<noteq> EINTR os"
  shows "\<exists>res' s''. execute_once (resetting os) c r s = Some (res', c', s'') \<and> world s'' = world s'
    \<and> (res' = res \<or> (\<exists>e e'. res = Inl e \<and> res' = Inl e' \<and> code e' = code e))"
proof (cases "serialize_request (os_inet_pton6 os) r")
  case (Inl e)
  with assms(1) show ?thesis by (simp add: execute_once_def other_calls)
next
  case ser: (Inr ser)
  obtain ra ca sa where 1: "acquire_connection os c (ser_url ser) s = (ra, ca, sa)" by (metis prod_cases3)
  show ?thesis
  proof (cases ra)
    case (Inl e)
    with assms(1) ser 1 show ?thesis by (simp add: execute_once_def other_calls)
  next
    case h: (Inr h)
    obtain now sb where 2: "clock_now os sa = (now, sb)" by fastforce
    let ?send = "\<lambda>os. send_request (remaining_timeout os) (write_all os) (now + from_ms (write_timeout ca))
        (ser_head ser) (ser_body ser) h sb"
    obtain rs hs ss where 3: "?send os = Some (rs, hs, ss)"
      using assms(1) ser 1 h 2 by (cases "?send os") (auto simp: execute_once_def)
    then have again: "?send (resetting os) = Some (rs, hs, ss)" unfolding other_calls by (rule resetting_send)
    show ?thesis
    proof (cases rs)
      case (Inl e)
      with assms(1) ser 1 h 2 3 again show ?thesis by (simp add: execute_once_def other_calls)
    next
      case (Inr u)
      let ?read = "\<lambda>os. read_response (read_some os False read_buffer_size (read_timeout ca))
          (mk_parser (req_method r) (client_limits ca)) hs ss"
      have run: "execute_once os' c r s = (case ?read os' of None \<Rightarrow> None | Some x \<Rightarrow> delivered os' ca r (ser_url ser) x)"
        if "os' = os \<or> os' = resetting os" for os'
        using that ser 1 h 2 3 again Inr
        by (elim disjE) (simp_all add: execute_once_def delivered_def other_calls split: option.split prod.split sum.split)
      obtain x where x: "?read os = Some x" using assms(1) run [of os] by (cases "?read os") auto
      from reset_response [OF x assms(2)] obtain y where "?read (resetting os) = Some y" "same_message x y" by blast
      with run x assms(1) same_message_delivered [of os ca r "ser_url ser" x res c' s' y] show ?thesis by simp
    qed
  qed
qed

text \<open>A body without a length that is cut short.\<close>

definition cut_reply :: string
  where "cut_reply = ''HTTP/1.1 200 OK'' @ crlf @ crlf @ ''half a bo''"

lemma demo_cut:
  "case execute_once demo_os mk_client (mk_request Get ''http://b/x'') (demo_sys [] [cut_reply]) of
     None \<Rightarrow> False
   | Some (res, c, s) \<Rightarrow> (case res of Inl e \<Rightarrow> False | Inr resp \<Rightarrow> body resp = ''half a bo'')"
  by code_simp

theorem reset_ends_the_body_witness:
  "\<exists>resp c' s'. execute_once (resetting demo_os) mk_client (mk_request Get ''http://b/x'') (demo_sys [] [cut_reply])
     = Some (Inr resp, c', s') \<and> body resp = ''half a bo''"
proof -
  from demo_cut obtain resp c' s' where
    run: "execute_once demo_os mk_client (mk_request Get ''http://b/x'') (demo_sys [] [cut_reply]) = Some (Inr resp, c', s')"
    and b: "body resp = ''half a bo''" by (auto split: option.splits sum.splits)
  have "ECONNRESET demo_os \<noteq> EINTR demo_os" by (simp add: demo_os_def)
  from reset_ends_the_body [OF run this] b show ?thesis by auto
qed

end
