(* ===== verification/Platform_Ports.thy ===== *)
theory Platform_Ports
  imports Socket_Platform
begin

text \<open>
  The branches of \<open>src/platform/\<close> for the other systems: Windows (Winsock), and systems that have
  \<open>SO_NOSIGPIPE\<close> in place of \<open>MSG_NOSIGNAL\<close>.

  As for POSIX, the system is a parameter: the record \<open>winsock\<close> of the calls of Winsock and its
  constants, over a world of any type.  A call returns its C result and what \<open>WSAGetLastError\<close> returns
  behind it.  The target is x64, where a \<open>SOCKET\<close> has 64 bits and a \<open>long\<close> 32.

  \<open>as_posix\<close> presents Winsock as a system with POSIX calls.  Each operation of the Windows branch does
  what the operation of the same name of the POSIX branch does on that system, so what the other theories
  show of the client for any \<open>os\<close> is also said of the client over Winsock.
\<close>

section \<open>Windows\<close>

type_synonym winsocket = "64 word"

definition INVALID_SOCKET :: winsocket
  where "INVALID_SOCKET = - 1"

definition SOCKET_ERROR :: int
  where "SOCKET_ERROR = - 1"

definition LONG_MAX :: int
  where "LONG_MAX = 2 ^ 31 - 1"

record timeval =
  tv_sec :: int
  tv_usec :: int

text \<open>The three sets of \<open>select\<close> are lists of sockets, or a null pointer.\<close>

record 'w winsock =
  ws_startup :: "uint16 \<Rightarrow> 'w \<Rightarrow> int \<times> uint16 \<times> 'w"
  ws_cleanup :: "'w \<Rightarrow> 'w"
  ws_socket :: "int \<Rightarrow> int \<Rightarrow> int \<Rightarrow> 'w \<Rightarrow> winsocket \<times> int \<times> 'w"
  ws_closesocket :: "winsocket \<Rightarrow> 'w \<Rightarrow> 'w"
  ws_ioctlsocket :: "winsocket \<Rightarrow> int \<Rightarrow> 32 word \<Rightarrow> 'w \<Rightarrow> int \<times> int \<times> 'w"
  ws_select :: "winsocket list option \<Rightarrow> winsocket list option \<Rightarrow> winsocket list option \<Rightarrow> timeval \<Rightarrow>
    'w \<Rightarrow> int \<times> int \<times> 'w"
  ws_send :: "winsocket \<Rightarrow> string \<Rightarrow> int \<Rightarrow> 'w \<Rightarrow> int \<times> int \<times> 'w"
  ws_recv :: "winsocket \<Rightarrow> nat \<Rightarrow> int \<Rightarrow> 'w \<Rightarrow> int \<times> int \<times> string \<times> 'w"
  ws_connect :: "winsocket \<Rightarrow> sockaddr \<Rightarrow> nat \<Rightarrow> 'w \<Rightarrow> int \<times> int \<times> 'w"
  ws_so_error :: "winsocket \<Rightarrow> 'w \<Rightarrow> int \<times> int \<times> int \<times> 'w"
  FIONBIO :: int
  WSAEINTR :: int
  WSAEWOULDBLOCK :: int
  WSAEINPROGRESS :: int
  WSAEALREADY :: int
  WSAECONNRESET :: int
  WSAECONNABORTED :: int
  WSAENOTCONN :: int
  WSAESHUTDOWN :: int
  WSAVERNOTSUPPORTED :: int

subsection \<open>Sockets and their mode\<close>

definition win_close_native_socket :: "'w winsock \<Rightarrow> winsocket \<Rightarrow> 'w \<Rightarrow> 'w"
  where "win_close_native_socket W h w = ws_closesocket W h w"

text \<open>The result is the native code of a failure, or \<open>None\<close> for success.\<close>

definition win_set_socket_nonblocking :: "'w winsock \<Rightarrow> winsocket \<Rightarrow> bool \<Rightarrow> 'w \<Rightarrow> int option \<times> 'w"
where
  "win_set_socket_nonblocking W h enabled w =
     (let mode = (if enabled then 1 else 0)
      in case ws_ioctlsocket W h (FIONBIO W) mode w of
           (r, err, w) \<Rightarrow> if r = 0 then (None, w) else (Some err, w))"

subsection \<open>Waiting and one attempt of input or output\<close>

definition win_wait_socket :: "'w winsock \<Rightarrow> winsocket \<Rightarrow> int \<Rightarrow> bool \<Rightarrow> 'w \<Rightarrow> (wait_status \<times> int) \<times> 'w"
where
  "win_wait_socket W h timeout writable w =
     (if timeout \<le> 0 then ((WaitTimedOut, 0), w)
      else
        let ready_set = Some [h]; except_set = Some [h];
            total_ms = max 1 timeout;
            seconds = min (total_ms div 1000) LONG_MAX;
            tv = \<lparr>tv_sec = seconds, tv_usec = (if seconds = LONG_MAX then 0 else total_ms mod 1000 * 1000)\<rparr>
        in (case (if writable then ws_select W None ready_set except_set tv w
                  else ws_select W ready_set None except_set tv w) of
              (wait_result, err, w) \<Rightarrow>
                if wait_result = 0 then ((WaitTimedOut, 0), w)
                else if wait_result = SOCKET_ERROR then ((WaitFailed, err), w)
                else ((WaitReady, 0), w)))"

definition win_send_some :: "'w winsock \<Rightarrow> winsocket \<Rightarrow> string \<Rightarrow> 'w \<Rightarrow> (int \<times> int) \<times> 'w"
where
  "win_send_some W h data w =
     (case ws_send W h (take (bounded_io_size (length data)) data) 0 w of
        (r, err, w) \<Rightarrow> if r = SOCKET_ERROR then ((- 1, err), w) else ((r, 0), w))"

definition win_receive_some :: "'w winsock \<Rightarrow> winsocket \<Rightarrow> nat \<Rightarrow> 'w \<Rightarrow> (int \<times> int \<times> string) \<times> 'w"
where
  "win_receive_some W h capacity w =
     (case ws_recv W h (bounded_io_size capacity) 0 w of
        (r, err, bytes, w) \<Rightarrow>
          if r = SOCKET_ERROR then ((- 1, err, []), w) else ((r, 0, bytes), w))"

definition win_socket_error_is_would_block :: "'w winsock \<Rightarrow> int \<Rightarrow> bool"
  where "win_socket_error_is_would_block W c = (c = WSAEWOULDBLOCK W)"

definition win_socket_error_is_interrupted :: "'w winsock \<Rightarrow> int \<Rightarrow> bool"
  where "win_socket_error_is_interrupted W c = (c = WSAEINTR W)"

definition win_socket_error_is_connection_closed :: "'w winsock \<Rightarrow> int \<Rightarrow> bool"
where
  "win_socket_error_is_connection_closed W c =
     (c = WSAECONNRESET W \<or> c = WSAECONNABORTED W \<or> c = WSAENOTCONN W \<or> c = WSAESHUTDOWN W)"

subsection \<open>Connecting\<close>

definition win_connect_in_progress :: "'w winsock \<Rightarrow> int \<Rightarrow> bool"
  where "win_connect_in_progress W c = (c = WSAEWOULDBLOCK W \<or> c = WSAEINPROGRESS W \<or> c = WSAEALREADY W)"

definition win_socket_error_result :: "'w winsock \<Rightarrow> winsocket \<Rightarrow> 'w \<Rightarrow> (connect_status \<times> int) \<times> 'w"
where
  "win_socket_error_result W h w =
     (case ws_so_error W h w of
        (r, e, err, w) \<Rightarrow>
          if r \<noteq> 0 then ((ConnectStatusFailed, err), w)
          else if e = 0 then ((Connected, 0), w) else ((ConnectStatusFailed, e), w))"

definition win_create_tcp_socket :: "'w winsock \<Rightarrow> int \<Rightarrow> int \<Rightarrow> int \<Rightarrow> 'w \<Rightarrow> (winsocket \<times> int) \<times> 'w"
where
  "win_create_tcp_socket W family socket_type protocol w =
     (case ws_socket W family socket_type protocol w of
        (h, err, w) \<Rightarrow> if h = INVALID_SOCKET then ((INVALID_SOCKET, err), w) else ((h, 0), w))"

definition win_connect_with_timeout ::
  "'w winsock \<Rightarrow> winsocket \<Rightarrow> sockaddr \<Rightarrow> nat \<Rightarrow> int \<Rightarrow> 'w \<Rightarrow> (connect_status \<times> int) \<times> 'w"
where
  "win_connect_with_timeout W h address address_size timeout w =
     (if timeout \<le> 0 then ((ConnectTimedOut, 0), w)
      else
        (case win_set_socket_nonblocking W h True w of
           (Some nc, w) \<Rightarrow> ((ConnectStatusFailed, nc), w)
         | (None, w) \<Rightarrow>
             (case ws_connect W h address address_size w of
                (connect_result, err, w) \<Rightarrow>
                  if connect_result = 0 then
                    (case win_set_socket_nonblocking W h False w of
                       (Some nc, w) \<Rightarrow> ((ConnectStatusFailed, nc), w)
                     | (None, w) \<Rightarrow> ((Connected, 0), w))
                  else if \<not> win_connect_in_progress W err then ((ConnectStatusFailed, err), w)
                  else
                    (case win_wait_socket W h timeout True w of
                       ((WaitTimedOut, nc), w) \<Rightarrow> ((ConnectTimedOut, nc), w)
                     | ((WaitFailed, nc), w) \<Rightarrow> ((ConnectStatusFailed, nc), w)
                     | ((WaitReady, nc), w) \<Rightarrow>
                         (case win_socket_error_result W h w of
                            ((Connected, c), w) \<Rightarrow>
                              (case win_set_socket_nonblocking W h False w of
                                 (Some nc, w) \<Rightarrow> ((ConnectStatusFailed, nc), w)
                               | (None, w) \<Rightarrow> ((Connected, c), w))
                          | (result, w) \<Rightarrow> (result, w))))))"

subsection \<open>Winsock as a system with POSIX calls\<close>

text \<open>
  The calls and constants the two branches share (the resolver, the clock, the address families) are
  those of \<open>os\<close>.  A handle of 32 bits stands for the socket it extends to with its sign.
\<close>

definition as_posix :: "'w winsock \<Rightarrow> 'w os \<Rightarrow> 'w os"
where
  "as_posix W os = os\<lparr>
     os_socket := (\<lambda>f t p w. case ws_socket W f t p w of (h, err, w) \<Rightarrow> (ucast h, err, w)),
     os_close := (\<lambda>h w. ws_closesocket W (scast h) w),
     os_getfl := (\<lambda>h w. (0, 0, w)),
     os_setfl := (\<lambda>h n w. ws_ioctlsocket W (scast h) (FIONBIO W) (word_of_int n) w),
     os_poll := (\<lambda>h ev ms w.
       let sock = Some [scast h]; tv = \<lparr>tv_sec = ms div 1000, tv_usec = ms mod 1000 * 1000\<rparr>
       in case (if ev = 4 then ws_select W None sock sock tv w else ws_select W sock None sock tv w) of
            (r, err, w) \<Rightarrow> (if r = SOCKET_ERROR then - 1 else if r = 0 then 0 else 1, err, w)),
     os_send := (\<lambda>h b f w. ws_send W (scast h) b 0 w),
     os_recv := (\<lambda>h n w. ws_recv W (scast h) n 0 w),
     os_connect := (\<lambda>h a n w. ws_connect W (scast h) a n w),
     os_so_error := (\<lambda>h w. ws_so_error W (scast h) w),
     EINTR := WSAEINTR W, EAGAIN := WSAEWOULDBLOCK W, EWOULDBLOCK := WSAEWOULDBLOCK W,
     EPIPE := WSAECONNABORTED W, ECONNRESET := WSAECONNRESET W, ENOTCONN := WSAENOTCONN W,
     ESHUTDOWN := WSAESHUTDOWN W, EINPROGRESS := WSAEINPROGRESS W, EALREADY := WSAEALREADY W,
     O_NONBLOCK := 1, POLLIN := 1, POLLOUT := 4\<rparr>"

text \<open>
  What Winsock documents: \<open>send\<close> and \<open>recv\<close> return a count or \<open>SOCKET_ERROR\<close>, and only the lower
  32 bits of a handle are significant.
\<close>

definition sane_winsock :: "'w winsock \<Rightarrow> bool"
where
  "sane_winsock W \<longleftrightarrow>
     (\<forall>h b f w. - 1 \<le> fst (ws_send W h b f w)) \<and> (\<forall>h n f w. - 1 \<le> fst (ws_recv W h n f w))
     \<and> (\<forall>f t p w. scast (ucast (fst (ws_socket W f t p w)) :: handle) = fst (ws_socket W f t p w))"

text \<open>A run of the POSIX branch without its log.\<close>

definition on_world :: "('w sys \<Rightarrow> 'a \<times> 'w sys) \<Rightarrow> 'w sys \<Rightarrow> 'a \<times> 'w"
  where "on_world f s = map_prod id world (f s)"

named_theorems winsock

lemma nonblocking_windows [winsock]:
  "on_world (set_socket_nonblocking (as_posix W os) h b) s
     = win_set_socket_nonblocking W (scast h) b (world s)"
  by (simp add: on_world_def set_socket_nonblocking_def win_set_socket_nonblocking_def as_posix_def
      Let_def split: prod.split)

lemma wait_windows [winsock]:
  assumes "timeout \<le> INT_MAX"
  shows "on_world (wait_socket (as_posix W os) h timeout b) s
    = win_wait_socket W (scast h) timeout b (world s)"
proof (cases "timeout \<le> 0")
  case False
  then have "max 1 timeout = timeout" "min timeout INT_MAX = timeout"
    "min (timeout div 1000) LONG_MAX = timeout div 1000" "timeout div 1000 \<noteq> LONG_MAX"
    using assms by (auto simp: INT_MAX_def LONG_MAX_def)
  with False show ?thesis
    by (simp add: on_world_def wait_socket_def win_wait_socket_def as_posix_def Let_def SOCKET_ERROR_def
        split: prod.split)
qed (simp add: on_world_def wait_socket_def win_wait_socket_def)

lemma send_windows [winsock]:
  assumes "sane_winsock W"
  shows "on_world (send_some (as_posix W os) h data) s = win_send_some W (scast h) data (world s)"
proof -
  have "- 1 \<le> fst (ws_send W (scast h) (take (bounded_io_size (length data)) data) 0 (world s))"
    using assms by (simp add: sane_winsock_def)
  then show ?thesis
    by (auto simp: on_world_def send_some_def win_send_some_def as_posix_def Let_def SOCKET_ERROR_def
        split: prod.split)
qed

lemma receive_windows [winsock]:
  assumes "sane_winsock W"
  shows "on_world (receive_some (as_posix W os) h n) s = win_receive_some W (scast h) n (world s)"
proof -
  have "- 1 \<le> fst (ws_recv W (scast h) (bounded_io_size n) 0 (world s))"
    using assms by (simp add: sane_winsock_def)
  then show ?thesis
    by (auto simp: on_world_def receive_some_def win_receive_some_def as_posix_def SOCKET_ERROR_def
        split: prod.split)
qed

lemma socket_error_windows [winsock]:
  "on_world (socket_error_result (as_posix W os) h) s = win_socket_error_result W (scast h) (world s)"
  by (simp add: on_world_def socket_error_result_def win_socket_error_result_def as_posix_def split: prod.split)

lemma error_codes_windows [winsock]:
  "socket_error_is_would_block (as_posix W os) = win_socket_error_is_would_block W"
  "socket_error_is_interrupted (as_posix W os) = win_socket_error_is_interrupted W"
  "socket_error_is_connection_closed (as_posix W os) = win_socket_error_is_connection_closed W"
  "connect_in_progress (as_posix W os) = win_connect_in_progress W"
  by (auto simp: fun_eq_iff as_posix_def socket_error_is_would_block_def socket_error_is_interrupted_def
      socket_error_is_connection_closed_def connect_in_progress_def win_socket_error_is_would_block_def
      win_socket_error_is_interrupted_def win_socket_error_is_connection_closed_def win_connect_in_progress_def)

lemma close_windows [winsock]:
  "world (close_native_socket (as_posix W os) h s) = win_close_native_socket W (scast h) (world s)"
  by (simp add: close_native_socket_def win_close_native_socket_def as_posix_def)

lemma minus_one_casts: "ucast (- 1 :: winsocket) = (- 1 :: handle)" "scast (- 1 :: handle) = (- 1 :: winsocket)"
  by (rule bit_word_eqI, simp add: bit_simps)+

lemma create_windows [winsock]:
  assumes "sane_winsock W"
  shows "(case on_world (create_tcp_socket (as_posix W os) f t p) s of ((h, c), w) \<Rightarrow> ((scast h, c), w))
    = win_create_tcp_socket W f t p (world s)"
proof -
  obtain h e w where r: "ws_socket W f t p (world s) = (h, e, w)" by (metis prod_cases3)
  have n: "scast (ucast h :: handle) = h" using assms r by (metis fst_conv sane_winsock_def)
  have "(ucast h :: handle) = kInvalidSocket \<longleftrightarrow> h = INVALID_SOCKET"
    using n minus_one_casts unfolding kInvalidSocket_def INVALID_SOCKET_def by metis
  with r n show ?thesis
    by (simp add: on_world_def create_tcp_socket_def win_create_tcp_socket_def as_posix_def
        kInvalidSocket_def INVALID_SOCKET_def minus_one_casts)
qed

text \<open>A composition on the two sides.\<close>

lemma on_world_D: "on_world f s = (r, w) \<Longrightarrow> \<exists>s'. f s = (r, s') \<and> world s' = w"
  by (cases "f s") (auto simp: on_world_def)

lemma connect_windows [winsock]:
  assumes "timeout \<le> INT_MAX"
  shows "on_world (connect_with_timeout (as_posix W os) h a n timeout) s
    = win_connect_with_timeout W (scast h) a n timeout (world s)"
proof -
  let ?P = "as_posix W os" and ?h = "scast h"
  obtain r1 s1 where 1: "set_socket_nonblocking ?P h True s = (r1, s1)" by fastforce
  obtain c e w where 2: "ws_connect W ?h a n (world s1) = (c, e, w)" by (metis prod_cases3)
  let ?s2 = "s1\<lparr>world := w\<rparr>"
  obtain r3 s3 where 3: "set_socket_nonblocking ?P h False ?s2 = (r3, s3)" by fastforce
  obtain st nc s4 where 4: "wait_socket ?P h timeout True ?s2 = ((st, nc), s4)" by (metis prod.collapse)
  obtain st2 c2 s5 where 5: "socket_error_result ?P h s4 = ((st2, c2), s5)" by (metis prod.collapse)
  obtain r6 s6 where 6: "set_socket_nonblocking ?P h False s5 = (r6, s6)" by fastforce
  have posix: "os_connect ?P h a n (world s1) = (c, e, w)" using 2 by (simp add: as_posix_def)
  have win: "win_set_socket_nonblocking W ?h True (world s) = (r1, world s1)"
    "win_set_socket_nonblocking W ?h False w = (r3, world s3)"
    "win_wait_socket W ?h timeout True w = ((st, nc), world s4)"
    "win_socket_error_result W ?h (world s4) = ((st2, c2), world s5)"
    "win_set_socket_nonblocking W ?h False (world s5) = (r6, world s6)"
    using nonblocking_windows [of W os h True s] nonblocking_windows [of W os h False ?s2]
      wait_windows [OF assms, of W os h True ?s2] socket_error_windows [of W os h s4]
      nonblocking_windows [of W os h False s5]
    by (simp_all add: on_world_def 1 3 4 5 6)
  show ?thesis
    by (simp add: on_world_def connect_with_timeout_def win_connect_with_timeout_def wait_socket_writable_def
        Let_def 1 2 3 4 5 6 posix win error_codes_windows
        split: option.split wait_status.split connect_status.split)
qed

subsection \<open>\<open>WinsockRuntime\<close>\<close>

record winsock_runtime =
  runtime_code :: int
  runtime_initialized :: bool

text \<open>The constructor asks for version 2.2, and gives up what it got when that is another one.\<close>

definition mk_winsock_runtime :: "'w winsock \<Rightarrow> 'w \<Rightarrow> winsock_runtime \<times> 'w"
where
  "mk_winsock_runtime W w =
     (case ws_startup W 0x0202 w of
        (status, version, w) \<Rightarrow>
          if status \<noteq> 0 then (\<lparr>runtime_code = status, runtime_initialized = False\<rparr>, w)
          else if version AND 0xFF \<noteq> 2 \<or> drop_bit 8 version \<noteq> 2
          then (\<lparr>runtime_code = WSAVERNOTSUPPORTED W, runtime_initialized = False\<rparr>, ws_cleanup W w)
          else (\<lparr>runtime_code = 0, runtime_initialized = True\<rparr>, w))"

definition winsock_runtime_destroy :: "'w winsock \<Rightarrow> winsock_runtime \<Rightarrow> 'w \<Rightarrow> 'w"
  where "winsock_runtime_destroy W r w = (if runtime_initialized r then ws_cleanup W w else w)"

text \<open>\<open>NetworkRuntimeStatus\<close> is \<open>(ok, native_code)\<close>.\<close>

definition winsock_runtime_status :: "winsock_runtime \<Rightarrow> bool \<times> int"
  where "winsock_runtime_status r = (runtime_initialized r, if runtime_initialized r then 0 else runtime_code r)"

text \<open>The runtime is a static local: constructed by the first call, kept by the later ones.\<close>

definition win_ensure_network_runtime ::
  "'w winsock \<Rightarrow> winsock_runtime option \<Rightarrow> 'w \<Rightarrow> (bool \<times> int) \<times> winsock_runtime option \<times> 'w"
where
  "win_ensure_network_runtime W runtime w =
     (case runtime of
        Some r \<Rightarrow> (winsock_runtime_status r, Some r, w)
      | None \<Rightarrow> (case mk_winsock_runtime W w of (r, w) \<Rightarrow> (winsock_runtime_status r, Some r, w)))"

text \<open>A run of the program: its calls, one after the other, and its end.\<close>

fun ensures_in_turn ::
  "'w winsock \<Rightarrow> nat \<Rightarrow> winsock_runtime option \<Rightarrow> 'w \<Rightarrow> (bool \<times> int) list \<times> winsock_runtime option \<times> 'w"
where
  "ensures_in_turn W 0 runtime w = ([], runtime, w)"
| "ensures_in_turn W (Suc n) runtime w =
     (case win_ensure_network_runtime W runtime w of
        (st, runtime, w) \<Rightarrow>
          (case ensures_in_turn W n runtime w of (sts, runtime, w) \<Rightarrow> (st # sts, runtime, w)))"

definition program_exit :: "'w winsock \<Rightarrow> winsock_runtime option \<Rightarrow> 'w \<Rightarrow> 'w"
where
  "program_exit W runtime w =
     (case runtime of None \<Rightarrow> w | Some r \<Rightarrow> winsock_runtime_destroy W r w)"

lemma ensures_kept: "ensures_in_turn W n (Some r) w = (replicate n (winsock_runtime_status r), Some r, w)"
  by (induction n) (simp_all add: win_ensure_network_runtime_def)

lemma ensures_first:
  "ensures_in_turn W (Suc n) None w =
     (case mk_winsock_runtime W w of (r, w) \<Rightarrow> (replicate (Suc n) (winsock_runtime_status r), Some r, w))"
  by (simp add: win_ensure_network_runtime_def ensures_kept split: prod.split)

text \<open>What Winsock documents of its count of users.\<close>

definition counts_users :: "'w winsock \<Rightarrow> ('w \<Rightarrow> int) \<Rightarrow> bool"
where
  "counts_users W users \<longleftrightarrow>
     (\<forall>v w st ver w'. ws_startup W v w = (st, ver, w') \<longrightarrow> users w' = users w + (if st = 0 then 1 else 0))
     \<and> (\<forall>w. users (ws_cleanup W w) = users w - 1)"

lemma mk_winsock_runtime_users:
  assumes "counts_users W users" and "mk_winsock_runtime W w = (r, w')"
  shows "users w' = users w + (if runtime_initialized r then 1 else 0)"
  using assms unfolding mk_winsock_runtime_def counts_users_def by (force split: prod.splits if_splits)

section \<open>Systems with \<open>SO_NOSIGPIPE\<close>\<close>

text \<open>
  \<open>create_tcp_socket\<close> where \<open>MSG_NOSIGNAL\<close> is not defined and \<open>SO_NOSIGPIPE\<close> is; \<open>setsockopt\<close> of that option
  is a parameter.  A socket that does not take it is destroyed.
\<close>

definition nosigpipe_create_tcp_socket ::
  "'w os \<Rightarrow> (handle \<Rightarrow> 'w \<Rightarrow> int \<times> int \<times> 'w) \<Rightarrow> int \<Rightarrow> int \<Rightarrow> int \<Rightarrow> 'w sys \<Rightarrow> (handle \<times> int) \<times> 'w sys"
where
  "nosigpipe_create_tcp_socket os set_nosigpipe family socket_type protocol s =
     (case os_socket os family socket_type protocol (world s) of
        (h, err, w) \<Rightarrow>
          if h = kInvalidSocket then ((kInvalidSocket, err), s\<lparr>world := w\<rparr>)
          else
            (case set_nosigpipe h w of
               (r, err, w') \<Rightarrow>
                 let s = log_event (Opened h) w' s
                 in if r \<noteq> 0 then ((kInvalidSocket, err), socket_destroy os h s) else ((h, 0), s)))"

lemma nosigpipe_create_log:
  assumes "nosigpipe_create_tcp_socket os set_nosigpipe f t p s = ((h, c), s')"
  shows "sys_log s' = sys_log s @ (if socket_valid h then [Opened h] else [])
    \<or> (\<not> socket_valid h \<and> (\<exists>k. sys_log s' = sys_log s @ [Opened k, Closed k]))"
  using assms
  by (auto simp: nosigpipe_create_tcp_socket_def socket_destroy_def socket_close_def socket_reset_def socket_valid_def
      close_native_socket_def Let_def split: prod.splits if_splits)

section \<open>Properties\<close>

text \<open>
  C12: The Windows branch of the socket layer refines the POSIX branch: on the system \<open>as_posix\<close> makes of
  Winsock, each operation of the POSIX branch gives the result and the world that the operation of the
  Windows branch gives over Winsock itself, waits of up to \<open>INT_MAX\<close> milliseconds included.
\<close>

theorem windows_refines_posix:
  assumes "sane_winsock W" and "timeout \<le> INT_MAX"
  shows "on_world (set_socket_nonblocking (as_posix W os) h b) s
      = win_set_socket_nonblocking W (scast h) b (world s)
    \<and> on_world (wait_socket (as_posix W os) h timeout b) s = win_wait_socket W (scast h) timeout b (world s)
    \<and> on_world (send_some (as_posix W os) h data) s = win_send_some W (scast h) data (world s)
    \<and> on_world (receive_some (as_posix W os) h n) s = win_receive_some W (scast h) n (world s)
    \<and> on_world (connect_with_timeout (as_posix W os) h a n timeout) s
      = win_connect_with_timeout W (scast h) a n timeout (world s)
    \<and> (case on_world (create_tcp_socket (as_posix W os) f t p) s of ((h, c), w) \<Rightarrow> ((scast h, c), w))
      = win_create_tcp_socket W f t p (world s)
    \<and> world (close_native_socket (as_posix W os) h s) = win_close_native_socket W (scast h) (world s)
    \<and> socket_error_is_would_block (as_posix W os) = win_socket_error_is_would_block W
    \<and> socket_error_is_interrupted (as_posix W os) = win_socket_error_is_interrupted W
    \<and> socket_error_is_connection_closed (as_posix W os) = win_socket_error_is_connection_closed W"
  by (intro conjI winsock assms)

text \<open>A Winsock to run on: its world counts the users; a socket is connected only after a wait.\<close>

definition demo_winsock :: "uint16 \<Rightarrow> int winsock"
where
  "demo_winsock version =
     \<lparr>ws_startup = (\<lambda>v w. (0, version, w + 1)), ws_cleanup = (\<lambda>w. w - 1),
      ws_socket = (\<lambda>f t p w. (260, 0, w)), ws_closesocket = (\<lambda>h w. w),
      ws_ioctlsocket = (\<lambda>h c m w. (0, 0, w)), ws_select = (\<lambda>r wr e tv w. (1, 0, w)),
      ws_send = (\<lambda>h b f w. (int (length b), 0, w)), ws_recv = (\<lambda>h n f w. (- 1, 10054, [], w)),
      ws_connect = (\<lambda>h a n w. (- 1, 10035, w)), ws_so_error = (\<lambda>h w. (0, 0, 0, w)),
      FIONBIO = - 2147195266, WSAEINTR = 10004, WSAEWOULDBLOCK = 10035, WSAEINPROGRESS = 10036,
      WSAEALREADY = 10037, WSAECONNRESET = 10054, WSAECONNABORTED = 10053, WSAENOTCONN = 10057,
      WSAESHUTDOWN = 10058, WSAVERNOTSUPPORTED = 10092\<rparr>"

lemma demo_winsock_sane: "sane_winsock (demo_winsock v)"
  by (simp add: sane_winsock_def demo_winsock_def)

lemma demo_winsock_counts: "counts_users (demo_winsock v) (\<lambda>w. w)"
  by (simp add: counts_users_def demo_winsock_def)

theorem windows_refines_posix_witness:
  "\<exists>os :: int os. \<exists>s. world s = 0
     \<and> on_world (connect_with_timeout (as_posix (demo_winsock 0x0202) os) 260 ''addr'' 4 5000) s = ((Connected, 0), 0)
     \<and> on_world (receive_some (as_posix (demo_winsock 0x0202) os) 260 100) s = ((- 1, 10054, []), 0)"
proof -
  define s :: "int sys" where "s = \<lparr>world = 0, sys_log = []\<rparr>"
  have w: "win_connect_with_timeout (demo_winsock 0x0202) 260 ''addr'' 4 5000 0 = ((Connected, 0), 0)"
    "win_receive_some (demo_winsock 0x0202) 260 100 0 = ((- 1, 10054, []), 0)" by code_simp+
  have c: "scast (260 :: handle) = (260 :: winsocket)" by code_simp
  have "(5000 :: int) \<le> INT_MAX" by (simp add: INT_MAX_def)
  note on = windows_refines_posix [OF demo_winsock_sane this, where s = s and h = 260]
  show ?thesis
    using w c on [where a = "''addr''" and n = 4] on [where n = 100]
    by (intro exI [of _ undefined] exI [of _ s]) (simp add: s_def)
qed

text \<open>
  C33: Winsock is started by the first call that needs it and only then: however often the network layer asks,
  all calls get the same answer, one user is registered exactly when that answer is that the runtime is up,
  and when the program ends none is left.
\<close>

theorem winsock_started_once:
  assumes "counts_users W users" and "ensures_in_turn W n None w = (answers, runtime, w')"
  shows "\<exists>st. answers = replicate n st \<and> users w' = users w + (if 0 < n \<and> fst st then 1 else 0)
    \<and> users (program_exit W runtime w') = users w"
proof (cases n)
  case 0
  with assms(2) show ?thesis by (simp add: program_exit_def)
next
  case (Suc m)
  obtain r w1 where r: "mk_winsock_runtime W w = (r, w1)" by fastforce
  with Suc assms(2) have run: "answers = replicate n (winsock_runtime_status r)" "runtime = Some r" "w' = w1"
    by (auto simp: ensures_first simp del: ensures_in_turn.simps)
  have "users w1 = users w + (if runtime_initialized r then 1 else 0)" using assms(1) r by (rule mk_winsock_runtime_users)
  moreover have "users (ws_cleanup W w1) = users w1 - 1" using assms(1) by (simp add: counts_users_def)
  ultimately show ?thesis
    using Suc run
    by (intro exI [of _ "winsock_runtime_status r"])
      (simp add: winsock_runtime_status_def program_exit_def winsock_runtime_destroy_def)
qed

theorem winsock_started_once_witness:
  "(\<exists>rt w. ensures_in_turn (demo_winsock 0x0202) 3 None 0 = ([(True, 0), (True, 0), (True, 0)], rt, w) \<and> w = 1
      \<and> program_exit (demo_winsock 0x0202) rt w = 0)
   \<and> (\<exists>rt w. ensures_in_turn (demo_winsock 0x0102) 1 None 0 = ([(False, 10092)], rt, w) \<and> w = 0)"
proof -
  obtain a rt w where run: "ensures_in_turn (demo_winsock 0x0202) 3 None 0 = (a, rt, w)" by (metis prod_cases3)
  have "fst (ensures_in_turn (demo_winsock 0x0202) 3 None 0) = [(True, 0), (True, 0), (True, 0)]" by code_simp
  with run have a: "a = [(True, 0), (True, 0), (True, 0)]" by simp
  with winsock_started_once [OF demo_winsock_counts run]
  have "w = 1 \<and> program_exit (demo_winsock 0x0202) rt w = 0" by (auto simp: numeral_3_eq_3)
  moreover
  obtain a2 rt2 w2 where run2: "ensures_in_turn (demo_winsock 0x0102) 1 None 0 = (a2, rt2, w2)" by (metis prod_cases3)
  have "fst (ensures_in_turn (demo_winsock 0x0102) 1 None 0) = [(False, 10092)]" by code_simp
  with run2 have a2: "a2 = [(False, 10092)]" by simp
  with winsock_started_once [OF demo_winsock_counts run2] have "w2 = 0" by auto
  ultimately show ?thesis using run run2 a a2 by blast
qed

end
