(* ===== verification/Local_Helpers.thy ===== *)
theory Local_Helpers
  imports Tcp_Connection Ascii Limits
begin

text \<open>
  Seven source files define the same small text helpers again, each in its unnamed namespace.  The
  component theories use one model of each (\<open>Ascii\<close>, \<open>Limits\<close>, \<open>remaining_timeout\<close>).  Here every other copy
  is translated on its own, with its loops by index and by \<open>remove_prefix\<close>, and shown to compute the
  function the components use: a copy that drifts from the others would break these proofs.
\<close>

section \<open>The loops\<close>

text \<open>\<open>for (index = i; index < lhs.size(); ++index)\<close>, which returns at the first difference.\<close>

function equal_from :: "(char \<Rightarrow> char) \<Rightarrow> string \<Rightarrow> string \<Rightarrow> nat \<Rightarrow> bool"
where
  "equal_from lower lhs rhs index =
     (if index < length lhs then
        (if lower (lhs ! index) \<noteq> lower (rhs ! index) then False
         else equal_from lower lhs rhs (index + 1))
      else True)"
  by pat_completeness auto
termination
  by (relation "measure (\<lambda>(_, lhs, _, index). length lhs - index)") auto

declare equal_from.simps [simp del]

lemma equal_from_iff:
  "equal_from lower lhs rhs i \<longleftrightarrow> (\<forall>j. i \<le> j \<longrightarrow> j < length lhs \<longrightarrow> lower (lhs ! j) = lower (rhs ! j))"
proof (induction lower lhs rhs i rule: equal_from.induct)
  case (1 lower lhs rhs i)
  show ?case
  proof (cases "i < length lhs \<and> lower (lhs ! i) = lower (rhs ! i)")
    case True
    with "1.IH" have "equal_from lower lhs rhs i
        \<longleftrightarrow> (\<forall>j. Suc i \<le> j \<longrightarrow> j < length lhs \<longrightarrow> lower (lhs ! j) = lower (rhs ! j))"
      by (subst equal_from.simps) simp
    moreover have "(\<forall>j. i \<le> j \<longrightarrow> j < length lhs \<longrightarrow> lower (lhs ! j) = lower (rhs ! j))
        \<longleftrightarrow> (\<forall>j. Suc i \<le> j \<longrightarrow> j < length lhs \<longrightarrow> lower (lhs ! j) = lower (rhs ! j))"
      using True by (metis Suc_leD Suc_leI le_neq_implies_less)
    ultimately show ?thesis by simp
  next
    case False
    then show ?thesis by (subst equal_from.simps) auto
  qed
qed

text \<open>The two loops of \<open>trim_ows\<close>: \<open>remove_prefix(1)\<close>, then \<open>remove_suffix(1)\<close>.\<close>

fun trim_front :: "string \<Rightarrow> string"
where
  "trim_front [] = []"
| "trim_front (c # v) = (if c = CHR '' '' \<or> c = htab then trim_front v else c # v)"

function trim_back :: "string \<Rightarrow> string"
where
  "trim_back v = (if v \<noteq> [] \<and> (last v = CHR '' '' \<or> last v = htab) then trim_back (butlast v) else v)"
  by pat_completeness auto
termination
  by (relation "measure length") auto

declare trim_back.simps [simp del]

lemma trim_front_eq: "trim_front v = dropWhile is_ows v"
  by (induction v) (auto simp: is_ows_def)

lemma trim_back_eq: "trim_back v = rev (dropWhile is_ows (rev v))"
proof (induction v rule: rev_induct)
  case (snoc c v)
  then show ?case by (subst trim_back.simps) (auto simp: is_ows_def [symmetric])
qed (simp add: trim_back.simps)

text \<open>The loop of \<open>contains_token\<close>, which searches for the next comma from \<open>begin_\<close> on.\<close>

function token_from :: "(string \<Rightarrow> string) \<Rightarrow> (string \<Rightarrow> string \<Rightarrow> bool) \<Rightarrow> string \<Rightarrow> string \<Rightarrow> nat \<Rightarrow> bool"
where
  "token_from trim iequals v expected start =
     (if start \<le> length v then
        (let comma = map_option ((+) start) (find_chr (CHR '','') (drop start v));
             stop = (case comma of None \<Rightarrow> length v | Some i \<Rightarrow> i)
         in if iequals (trim (substr v start (stop - start))) expected then True
            else (case comma of None \<Rightarrow> False | Some i \<Rightarrow> token_from trim iequals v expected (i + 1)))
      else False)"
  by pat_completeness auto
termination
  by (relation "measure (\<lambda>(_, _, v, _, start). Suc (length v) - start)")
    (auto simp: eq_commute [of "Some _"])

declare token_from.simps [simp del]

lemma token_from_eq:
  "start \<le> length v \<Longrightarrow> token_from trim_ows ascii_iequals v e start = contains_token (drop start v) e"
proof (induction "Suc (length v) - start" arbitrary: start rule: less_induct)
  case (less start)
  show ?case
  proof (cases "find_chr (CHR '','') (drop start v)")
    case None
    with less.prems show ?thesis
      by (subst token_from.simps) (subst contains_token.simps, simp add: substr_def)
  next
    case (Some i)
    then have i: "i < length v - start" using find_if_less by fastforce
    then have "token_from trim_ows ascii_iequals v e (start + i + 1) = contains_token (drop (Suc i) (drop start v)) e"
      using less.hyps [of "start + i + 1"] by (simp add: add.commute)
    with Some less.prems show ?thesis
      by (subst token_from.simps) (subst contains_token.simps, simp add: substr_def)
  qed
qed

section \<open>What a copy has to do\<close>

text \<open>
  The contract of a pair of case-folding helpers: \<open>lower\<close> folds one byte, \<open>iequals\<close> compares two texts
  byte by byte under it.  Every pair that keeps it is the pair the components use.
\<close>

locale ascii_folding =
  fixes lower :: "char \<Rightarrow> char" and iequals :: "string \<Rightarrow> string \<Rightarrow> bool"
  assumes lower_letter: "CHR ''A'' \<le> c \<Longrightarrow> c \<le> CHR ''Z'' \<Longrightarrow> byte (lower c) = byte c + 32"
    and lower_other: "\<not> (CHR ''A'' \<le> c \<and> c \<le> CHR ''Z'') \<Longrightarrow> lower c = c"
    and iequals_length: "iequals a b \<Longrightarrow> length a = length b"
    and iequals_bytes: "length a = length b \<Longrightarrow>
      iequals a b \<longleftrightarrow> (\<forall>j. 0 \<le> j \<longrightarrow> j < length a \<longrightarrow> lower (a ! j) = lower (b ! j))"
begin

lemma lower_eq: "lower = ascii_lower"
proof
  fix c
  show "lower c = ascii_lower c"
  proof (cases "CHR ''A'' \<le> c \<and> c \<le> CHR ''Z''")
    case True
    then have "char_of (byte (lower c)) = (char_of (byte c + 32) :: char)" using lower_letter by simp
    with True show ?thesis by (simp add: ascii_lower_def)
  qed (auto simp: lower_other ascii_lower_def)
qed

lemma iequals_eq: "iequals = ascii_iequals"
proof (intro ext)
  fix a b
  show "iequals a b = ascii_iequals a b"
  proof (cases "length a = length b")
    case True
    with iequals_bytes [OF True] show ?thesis
      by (simp add: ascii_iequals_def list_all2_conv_all_nth lower_eq)
  next
    case False
    with iequals_length show ?thesis by (auto simp: ascii_iequals_def)
  qed
qed

end

lemma folding_letter: "CHR ''A'' \<le> c \<Longrightarrow> c \<le> CHR ''Z'' \<Longrightarrow> (byte c + 32) mod 256 = byte c + 32"
  by (simp add: less_eq_char_def)

text \<open>The contract from the two texts of a copy.\<close>

lemma folding_copy:
  assumes "\<And>c. lower c = (if c \<ge> CHR ''A'' \<and> c \<le> CHR ''Z''
      then char_of (byte c + (byte (CHR ''a'') - byte (CHR ''A''))) else c)"
    and "\<And>a b. iequals a b = (if length a \<noteq> length b then False else equal_from lower a b 0)"
  shows "ascii_folding lower iequals"
  by unfold_locales (auto simp: assms equal_from_iff folding_letter split: if_splits)

section \<open>\<open>src/core/client.cpp\<close>\<close>

definition client_ascii_lower :: "char \<Rightarrow> char"
where
  "client_ascii_lower ch =
     (if ch \<ge> CHR ''A'' \<and> ch \<le> CHR ''Z'' then char_of (byte ch + (byte (CHR ''a'') - byte (CHR ''A'')))
      else ch)"

definition client_ascii_iequals :: "string \<Rightarrow> string \<Rightarrow> bool"
where
  "client_ascii_iequals lhs rhs =
     (if length lhs \<noteq> length rhs then False else equal_from client_ascii_lower lhs rhs 0)"

interpretation client_folding: ascii_folding client_ascii_lower client_ascii_iequals
  by (rule folding_copy) (simp_all add: client_ascii_lower_def client_ascii_iequals_def)

definition client_trim_ows :: "string \<Rightarrow> string"
  where "client_trim_ows v = trim_back (trim_front v)"

definition client_contains_token :: "string \<Rightarrow> string \<Rightarrow> bool"
  where "client_contains_token v expected = token_from client_trim_ows client_ascii_iequals v expected 0"

lemma client_tokens:
  "client_trim_ows = trim_ows" "client_contains_token = contains_token"
proof -
  show t: "client_trim_ows = trim_ows"
    by (simp add: fun_eq_iff client_trim_ows_def trim_ows_def trim_back_eq trim_front_eq)
  show "client_contains_token = contains_token"
    by (simp add: fun_eq_iff client_contains_token_def t client_folding.iequals_eq token_from_eq)
qed

definition client_remaining_timeout :: "'w os \<Rightarrow> int \<Rightarrow> 'w sys \<Rightarrow> int \<times> 'w sys"
where
  "client_remaining_timeout os deadline s =
     (case clock_now os s of
        (now, s) \<Rightarrow>
          if now \<ge> deadline then (0, s)
          else
            let remaining = to_ms (deadline - now);
                remaining = (if remaining \<le> 0 then 1 else remaining)
            in (remaining, s))"

lemma client_remaining: "client_remaining_timeout = remaining_timeout"
  by (auto simp: fun_eq_iff client_remaining_timeout_def remaining_timeout_def Let_def split: prod.split)

section \<open>\<open>src/http/request_serializer.cpp\<close>\<close>

definition serializer_ascii_lower :: "char \<Rightarrow> char"
where
  "serializer_ascii_lower ch =
     (if ch \<ge> CHR ''A'' \<and> ch \<le> CHR ''Z'' then char_of (byte ch + (byte (CHR ''a'') - byte (CHR ''A'')))
      else ch)"

definition serializer_ascii_iequals :: "string \<Rightarrow> string \<Rightarrow> bool"
where
  "serializer_ascii_iequals lhs rhs =
     (if length lhs \<noteq> length rhs then False else equal_from serializer_ascii_lower lhs rhs 0)"

interpretation serializer_folding: ascii_folding serializer_ascii_lower serializer_ascii_iequals
  by (rule folding_copy) (simp_all add: serializer_ascii_lower_def serializer_ascii_iequals_def)

definition serializer_is_tchar :: "char \<Rightarrow> bool"
where
  "serializer_is_tchar ch =
     (if (ch \<ge> CHR ''0'' \<and> ch \<le> CHR ''9'') \<or> (ch \<ge> CHR ''A'' \<and> ch \<le> CHR ''Z'')
         \<or> (ch \<ge> CHR ''a'' \<and> ch \<le> CHR ''z'') then True
      else ch \<in> set [CHR ''!'', CHR ''#'', CHR ''$'', CHR ''%'', CHR ''&'', CHR 0x27, CHR ''*'',
                    CHR ''+'', CHR ''-'', CHR ''.'', CHR ''^'', CHR ''_'', CHR 0x60, CHR ''|'',
                    CHR ''~''])"

lemma serializer_tchar: "serializer_is_tchar = is_tchar"
  by (auto simp: fun_eq_iff serializer_is_tchar_def is_tchar_def)

section \<open>\<open>src/http/response_parser.cpp\<close>\<close>

definition parser_ascii_lower :: "char \<Rightarrow> char"
where
  "parser_ascii_lower ch =
     (if ch \<ge> CHR ''A'' \<and> ch \<le> CHR ''Z'' then char_of (byte ch + (byte (CHR ''a'') - byte (CHR ''A'')))
      else ch)"

definition parser_ascii_iequals :: "string \<Rightarrow> string \<Rightarrow> bool"
where
  "parser_ascii_iequals lhs rhs =
     (if length lhs \<noteq> length rhs then False else equal_from parser_ascii_lower lhs rhs 0)"

interpretation parser_folding: ascii_folding parser_ascii_lower parser_ascii_iequals
  by (rule folding_copy) (simp_all add: parser_ascii_lower_def parser_ascii_iequals_def)

definition parser_is_tchar :: "char \<Rightarrow> bool"
where
  "parser_is_tchar ch =
     (if (ch \<ge> CHR ''0'' \<and> ch \<le> CHR ''9'') \<or> (ch \<ge> CHR ''A'' \<and> ch \<le> CHR ''Z'')
         \<or> (ch \<ge> CHR ''a'' \<and> ch \<le> CHR ''z'') then True
      else ch \<in> set [CHR ''!'', CHR ''#'', CHR ''$'', CHR ''%'', CHR ''&'', CHR 0x27, CHR ''*'',
                    CHR ''+'', CHR ''-'', CHR ''.'', CHR ''^'', CHR ''_'', CHR 0x60, CHR ''|'',
                    CHR ''~''])"

lemma parser_tchar: "parser_is_tchar = is_tchar"
  by (auto simp: fun_eq_iff parser_is_tchar_def is_tchar_def)

definition parser_valid_header_name :: "string \<Rightarrow> bool"
  where "parser_valid_header_name name = (if name = [] then False else list_all parser_is_tchar name)"

definition parser_valid_field_value :: "string \<Rightarrow> bool"
where
  "parser_valid_field_value v =
     list_all (\<lambda>ch. if ch = htab then True else \<not> (byte ch < 0x20 \<or> byte ch = 0x7f)) v"

definition parser_would_exceed :: "size_t \<Rightarrow> size_t \<Rightarrow> size_t \<Rightarrow> bool"
  where "parser_would_exceed current addition limit = (current > limit \<or> addition > limit - current)"

lemma parser_fields:
  "parser_valid_header_name = valid_field_name" "parser_valid_field_value = valid_field_value"
  "parser_would_exceed c a l = would_exceed (unat c) (unat a) (unat l)"
  by (simp_all add: fun_eq_iff parser_valid_header_name_def valid_field_name_def parser_tchar
      parser_valid_field_value_def valid_field_value_def field_byte_def [abs_def] parser_would_exceed_def
      would_exceed_sz_exact [unfolded would_exceed_sz_def])

definition parser_trim_ows :: "string \<Rightarrow> string"
  where "parser_trim_ows v = trim_back (trim_front v)"

definition parser_contains_token :: "string \<Rightarrow> string \<Rightarrow> bool"
  where "parser_contains_token v expected = token_from parser_trim_ows parser_ascii_iequals v expected 0"

lemma parser_tokens:
  "parser_trim_ows = trim_ows" "parser_contains_token = contains_token"
proof -
  show t: "parser_trim_ows = trim_ows"
    by (simp add: fun_eq_iff parser_trim_ows_def trim_ows_def trim_back_eq trim_front_eq)
  show "parser_contains_token = contains_token"
    by (simp add: fun_eq_iff parser_contains_token_def t parser_folding.iequals_eq token_from_eq)
qed

section \<open>\<open>src/core/url.cpp\<close>\<close>

definition url_ascii_lower :: "char \<Rightarrow> char"
where
  "url_ascii_lower ch =
     (if ch \<ge> CHR ''A'' \<and> ch \<le> CHR ''Z'' then char_of (byte ch + (byte (CHR ''a'') - byte (CHR ''A'')))
      else ch)"

definition url_ascii_iequals :: "string \<Rightarrow> string \<Rightarrow> bool"
where
  "url_ascii_iequals lhs rhs =
     (if length lhs \<noteq> length rhs then False else equal_from url_ascii_lower lhs rhs 0)"

interpretation url_folding: ascii_folding url_ascii_lower url_ascii_iequals
  by (rule folding_copy) (simp_all add: url_ascii_lower_def url_ascii_iequals_def)

section \<open>\<open>src/http/chunked_decoder.cpp\<close>\<close>

definition decoder_ascii_lower :: "char \<Rightarrow> char"
where
  "decoder_ascii_lower ch =
     (if ch \<ge> CHR ''A'' \<and> ch \<le> CHR ''Z'' then char_of (byte ch + (byte (CHR ''a'') - byte (CHR ''A'')))
      else ch)"

definition decoder_ascii_iequals :: "string \<Rightarrow> string \<Rightarrow> bool"
where
  "decoder_ascii_iequals lhs rhs =
     (if length lhs \<noteq> length rhs then False else equal_from decoder_ascii_lower lhs rhs 0)"

interpretation decoder_folding: ascii_folding decoder_ascii_lower decoder_ascii_iequals
  by (rule folding_copy) (simp_all add: decoder_ascii_lower_def decoder_ascii_iequals_def)

section \<open>\<open>src/http/redirect.cpp\<close>\<close>

definition redirect_ascii_lower :: "char \<Rightarrow> char"
where
  "redirect_ascii_lower ch =
     (if ch \<ge> CHR ''A'' \<and> ch \<le> CHR ''Z'' then char_of (byte ch + (byte (CHR ''a'') - byte (CHR ''A'')))
      else ch)"

definition redirect_ascii_iequals :: "string \<Rightarrow> string \<Rightarrow> bool"
where
  "redirect_ascii_iequals lhs rhs =
     (if length lhs \<noteq> length rhs then False else equal_from redirect_ascii_lower lhs rhs 0)"

interpretation redirect_folding: ascii_folding redirect_ascii_lower redirect_ascii_iequals
  by (rule folding_copy) (simp_all add: redirect_ascii_lower_def redirect_ascii_iequals_def)

section \<open>Properties\<close>

text \<open>
  C34: The copies of the text helpers agree.  The case-insensitive comparison of each of the files is the one
  of \<open>Headers\<close>; trimming, token search, the byte classes, the test of a budget and the rest of a deadline
  are the same functions wherever they are written again, the budget test also at 64 bits.
\<close>

theorem helper_copies_agree:
  "client_ascii_iequals = ascii_iequals \<and> serializer_ascii_iequals = ascii_iequals
   \<and> parser_ascii_iequals = ascii_iequals \<and> url_ascii_iequals = ascii_iequals
   \<and> decoder_ascii_iequals = ascii_iequals \<and> redirect_ascii_iequals = ascii_iequals
   \<and> client_trim_ows = trim_ows \<and> parser_trim_ows = trim_ows
   \<and> client_contains_token = contains_token \<and> parser_contains_token = contains_token
   \<and> serializer_is_tchar = is_tchar \<and> parser_is_tchar = is_tchar
   \<and> parser_valid_header_name = valid_field_name \<and> parser_valid_field_value = valid_field_value
   \<and> parser_would_exceed c a l = would_exceed (unat c) (unat a) (unat l)
   \<and> client_remaining_timeout os d s = remaining_timeout os d s"
  by (simp add: client_folding.iequals_eq serializer_folding.iequals_eq parser_folding.iequals_eq
      url_folding.iequals_eq decoder_folding.iequals_eq redirect_folding.iequals_eq
      client_tokens parser_tokens serializer_tchar parser_tchar parser_fields client_remaining)

end
