(* ===== verification/Example_Programs.thy ===== *)
theory Example_Programs
  imports Redirect_Chain
begin

text \<open>
  The programs of \<open>examples/\<close>: users of the library, with what they print and return.  A program that returns
  has closed every socket it opened, and the text the POST example sends is given in full.
\<close>

record program_run =
  exit_status :: int
  std_out :: string
  std_err :: string

definition newline :: string
  where "newline = [CHR 0x0A]"

text \<open>\<open>operator<<\<close> for \<open>int\<close>.\<close>

definition int_text :: "int \<Rightarrow> string"
  where "int_text n = (if n < 0 then CHR ''-'' # to_decimal (nat (- n)) else to_decimal (nat n))"

section \<open>\<open>get.cpp\<close>\<close>

definition get_main :: "'w os \<Rightarrow> 'w sys \<Rightarrow> (program_run \<times> 'w sys) option"
where
  "get_main os s =
     (case free_get os ''http://127.0.0.1:8080/'' s of
        None \<Rightarrow> None
      | Some (Inl e, s) \<Rightarrow>
          Some (\<lparr>exit_status = 1, std_out = [],
                 std_err = ''request failed: '' @ error_message (code e)
                   @ (if native_code e \<noteq> 0 then '' (native='' @ int_text (native_code e) @ '')'' else [])
                   @ newline\<rparr>, s)
      | Some (Inr resp, s) \<Rightarrow>
          Some (\<lparr>exit_status = 0,
                 std_out = ''HTTP status: '' @ int_text (status_code resp) @ newline @ body resp @ newline,
                 std_err = []\<rparr>, s))"

section \<open>\<open>post.cpp\<close>\<close>

definition post_example_request :: request
where
  "post_example_request =
     (let json = CHR ''{'' # CHR 0x22 # ''name'' @ CHR 0x22 # '':'' @ CHR 0x22 # ''cpp_request'' @ CHR 0x22 # '','' @
            CHR 0x22 # ''kind'' @ CHR 0x22 # '':'' @ CHR 0x22 # ''example'' @ CHR 0x22 # ''}'';
          r = mk_request Post ''http://127.0.0.1:8080/items?existing=1'';
          r = r\<lparr>req_headers := headers_set (req_headers r) ''Content-Type'' ''application/json''\<rparr>;
          r = r\<lparr>req_headers := headers_set (req_headers r) ''Accept'' ''application/json''\<rparr>;
          r = r\<lparr>req_headers := headers_add (req_headers r) ''X-Example'' ''cpp_request''\<rparr>;
          r = add_query_param r ''search'' ''low level C++'';
          r = add_query_param r ''tag'' ''network/http''
      in set_body r json)"

definition post_main :: "'w os \<Rightarrow> 'w sys \<Rightarrow> (program_run \<times> 'w sys) option"
where
  "post_main os s =
     (case client_request os mk_client post_example_request s of
        None \<Rightarrow> None
      | Some (Inl e, c, s) \<Rightarrow>
          Some (\<lparr>exit_status = 1, std_out = [],
                 std_err = ''request failed: '' @ error_message (code e) @ newline\<rparr>, client_destroy os c s)
      | Some (Inr resp, c, s) \<Rightarrow>
          Some (\<lparr>exit_status = 0,
                 std_out = ''HTTP status: '' @ int_text (status_code resp) @ newline @ body resp @ newline,
                 std_err = []\<rparr>, client_destroy os c s))"

section \<open>\<open>configured_client.cpp\<close>\<close>

definition configured_client :: client
where
  "configured_client =
     (let c = set_connect_timeout mk_client 2000;
          c = set_write_timeout c 5000;
          c = set_read_timeout c 5000;
          c = set_follow_redirects c True;
          c = set_max_redirects c 5
      in set_response_limits c
           (default_limits\<lparr>max_head_bytes := 32 * 1024, max_body_bytes := 8 * 1024 * 1024,
                           max_chunk_line_bytes := 8 * 1024, max_trailer_bytes := 32 * 1024\<rparr>))"

text \<open>The loop over the URLs; \<open>printed\<close> is what went to the standard output before.\<close>

fun get_each ::
  "'w os \<Rightarrow> string list \<Rightarrow> string \<Rightarrow> client \<Rightarrow> 'w sys \<Rightarrow> (program_run \<times> client \<times> 'w sys) option"
where
  "get_each os [] printed c s = Some (\<lparr>exit_status = 0, std_out = printed, std_err = []\<rparr>, c, s)"
| "get_each os (u # us) printed c s =
     (case client_get os c u s of
        None \<Rightarrow> None
      | Some (Inl e, c, s) \<Rightarrow>
          Some (\<lparr>exit_status = 1, std_out = printed,
                 std_err = ''request failed: '' @ error_message (code e) @ newline\<rparr>, c, s)
      | Some (Inr resp, c, s) \<Rightarrow>
          get_each os us (printed @ int_text (status_code resp) @ '' '' @ body resp @ newline) c s)"

definition configured_main :: "'w os \<Rightarrow> 'w sys \<Rightarrow> (program_run \<times> 'w sys) option"
where
  "configured_main os s =
     (case get_each os [''http://127.0.0.1:8080/one'', ''http://127.0.0.1:8080/two''] [] configured_client s of
        None \<Rightarrow> None
      | Some (p, c, s) \<Rightarrow> Some (p, client_destroy os c s))"

section \<open>What they do\<close>

text \<open>The POST example as it goes out, up to the body.\<close>

lemma post_example_head:
  "map_sum id ser_head (serialize_request (\<lambda>t. False) post_example_request) = Inr
     (''POST /items?existing=1&search=low%20level%20C%2B%2B&tag=network%2Fhttp HTTP/1.1'' @ crlf
      @ ''Host: 127.0.0.1:8080'' @ crlf @ ''Content-Type: application/json'' @ crlf
      @ ''Accept: application/json'' @ crlf @ ''X-Example: cpp_request'' @ crlf
      @ ''Content-Length: 39'' @ crlf @ crlf)"
  by code_simp

text \<open>A program that returns has closed what it opened.\<close>

definition leaves_no_socket :: "'w sys \<Rightarrow> 'w sys \<Rightarrow> bool"
where
  "leaves_no_socket s s' \<longleftrightarrow>
     (\<exists>evs. sys_log s' = sys_log s @ evs \<and> mset (opened_in evs) = mset (closed_in evs))"

lemma client_destroy_settles:
  assumes "client_wf c" and "effect os s0 s evs" and "settled evs {#} (held c)"
  shows "leaves_no_socket s0 (client_destroy os c s)"
proof -
  obtain c2 s2 where 2: "close_reusable_connection os c s = (c2, s2)" by fastforce
  let ?evs = "if has_reusable_connection c then [Closed (decode_socket_handle (reusable_socket_token c))] else []"
  have "settled ?evs (held c) {#}" by (simp add: settled_def held_def)
  from settled_trans [OF assms(3) this] have "mset (opened_in (evs @ ?evs)) = mset (closed_in (evs @ ?evs))"
    by (simp add: settled_def)
  moreover have "sys_log (client_destroy os c s) = sys_log s0 @ evs @ ?evs"
    using close_reusable_effect [OF 2 assms(1)] assms(2) 2 by (simp add: client_destroy_def effect_def)
  ultimately show ?thesis unfolding leaves_no_socket_def by blast
qed

lemma get_each_settles:
  "get_each os us printed c s = Some (p, c', s') \<Longrightarrow> client_wf c \<Longrightarrow>
     client_wf c' \<and> (\<exists>evs. effect os s s' evs \<and> settled evs (held c) (held c'))"
proof (induction us arbitrary: printed c s)
  case Nil
  then show ?case by (auto intro!: exI [of _ "[]"])
next
  case (Cons u us)
  from Cons.prems(1) obtain r c1 s1 where run: "client_get os c u s = Some (r, c1, s1)"
    by (cases "client_get os c u s") auto
  from client_request_settles [OF run [unfolded client_get_def] Cons.prems(2)] obtain evs where
    1: "client_wf c1" "effect os s s1 evs" "settled evs (held c) (held c1)" by blast
  show ?case
  proof (cases r)
    case (Inl e)
    with 1 run Cons.prems(1) show ?thesis by auto
  next
    case (Inr resp)
    with run Cons.prems(1) Cons.IH [OF _ 1(1)] obtain evs' where
      "client_wf c'" "effect os s1 s' evs'" "settled evs' (held c1) (held c')" by fastforce
    with 1 show ?thesis using effect_trans settled_trans by blast
  qed
qed

lemma example_clients: "client_wf mk_client" "held mk_client = {#}" "client_wf configured_client" "held configured_client = {#}"
  by (simp_all add: client_wf_def held_def mk_client_def configured_client_def Let_def set_connect_timeout_def
      set_write_timeout_def set_read_timeout_def set_follow_redirects_def set_max_redirects_def set_response_limits_def)

lemma programs_close_sockets:
  "get_main os s = Some (p, s') \<Longrightarrow> leaves_no_socket s s'"
  "post_main os s = Some (p, s') \<Longrightarrow> leaves_no_socket s s'"
  "configured_main os s = Some (p, s') \<Longrightarrow> leaves_no_socket s s'"
proof -
  have settles: "leaves_no_socket s (client_destroy os c s1)"
    if run: "client_request os mk_client r s = Some (x, c, s1)" for r x c s1
  proof -
    from client_request_settles [OF run example_clients(1)] obtain evs where
      "client_wf c" "effect os s s1 evs" "settled evs (held mk_client) (held c)" by blast
    then show ?thesis using client_destroy_settles by (simp add: example_clients)
  qed
  show "leaves_no_socket s s'" if "get_main os s = Some (p, s')"
    using that settles
    by (auto simp: get_main_def free_get_def with_new_client_def client_get_def split: option.splits sum.splits)
  show "leaves_no_socket s s'" if "post_main os s = Some (p, s')"
    using that settles by (auto simp: post_main_def split: option.splits sum.splits)
  show "leaves_no_socket s s'" if main: "configured_main os s = Some (p, s')"
  proof -
    from main obtain c s1 where run: "get_each os [''http://127.0.0.1:8080/one'', ''http://127.0.0.1:8080/two''] []
        configured_client s = Some (p, c, s1)" and s': "s' = client_destroy os c s1"
      by (auto simp: configured_main_def simp del: get_each.simps split: option.splits)
    from get_each_settles [OF run example_clients(3)] obtain evs where
      "client_wf c" "effect os s s1 evs" "settled evs (held configured_client) (held c)" by blast
    then show ?thesis unfolding s' using client_destroy_settles by (simp add: example_clients)
  qed
qed

end
