(* ===== verification/Spec2Isabelle.thy ===== *)
theory Spec2Isabelle
  imports Relative_Reference Client_Served Client_Resets Platform_Ports Local_Helpers Example_Programs
begin

text \<open>
  A model of \<open>cpp_request\<close>, an HTTP/1.1 client library, with the theorems that make it correct.

  \<^bold>\<open>The program.\<close>  \<open>Client::request\<close> (\<open>src/core/client.cpp\<close>) serializes a \<open>Request\<close>
  (\<open>src/http/request_serializer.cpp\<close>, which parses the URL with \<open>src/core/url.cpp\<close>), gets a connection
  (\<open>src/net/\<close> over \<open>src/platform/\<close>), writes the request, feeds what it reads to a \<open>ResponseParser\<close>
  (\<open>src/http/response_parser.cpp\<close>, with \<open>src/http/chunked_decoder.cpp\<close> for chunked bodies), keeps or closes
  the connection, and follows redirects (\<open>src/http/redirect.cpp\<close>).

  \<^bold>\<open>The theories\<close>, in the order of the code, each with the operations of its part and the lemmas about
  them:

  \<^item> \<open>Prelude\<close>, \<open>Ascii\<close>, \<open>Char_Conv\<close>: the machine types, the searches of \<open>std::string_view\<close>, the
    case folding of ASCII letters, \<open>std::from_chars\<close> and \<open>std::to_chars\<close>.
  \<^item> \<open>Local_Helpers\<close>: the helpers that several source files define again, each copy translated on its own
    and shown to agree with the one the other theories use (the locale \<open>ascii_folding\<close>).
  \<^item> \<open>Errors\<close>, \<open>Header_Fields\<close>, \<open>Limits\<close>: \<open>error.hpp\<close> and \<open>result.hpp\<close>; \<open>Headers\<close>, with the locale
    \<open>field_map\<close> as the contract of a header map; \<open>ResponseLimits\<close> and the test that does not overflow.
  \<^item> \<open>Url_Model\<close>: \<open>Url::parse\<close> and the grammar of what it accepts.
  \<^item> \<open>Request_Model\<close>, \<open>Request_Serializer\<close>, \<open>Request_Wire\<close>: \<open>Request\<close>, \<open>serialize_request\<close>, and what a
    server reads back from the bytes.
  \<^item> \<open>Chunked_Decoder\<close>, \<open>Chunked_Spec\<close>, \<open>Chunked_Grammar\<close>: the decoder as the code has it, a reference
    decoder it refines, the grammar of chunked bodies it accepts.
  \<^item> \<open>Incremental\<close>: the locales \<open>incremental\<close> and \<open>incremental_final\<close>, the contract between a parser
    and the code that feeds it pieces of a stream; interpreted for the decoder and for the parser.
  \<^item> \<open>Response_Parser\<close>, \<open>Response_Stream\<close>, \<open>Response_Grammar\<close>, \<open>Response_Properties\<close>: \<open>ResponseParser\<close> as one
    function per turn of its loop, its independence of how the stream is cut, the grammars \<open>response_text\<close>
    and \<open>close_text\<close> of what it accepts, and its properties.
  \<^item> \<open>Response_Replies\<close>, \<open>Http_Server\<close>: the reply a server writes, interim responses and replies without a body
    included, is read back by the parser; a reference server (\<open>answers\<close>) that cuts requests off a connection and
    answers them.
  \<^item> \<open>Redirect\<close>, \<open>Relative_Reference\<close>: the resolution of a \<open>Location\<close> and the rules for method and body; the
    algorithms of RFC 3986 for relative references, defined on their own, which the code computes but for one
    slash in one case (\<open>loses_slash\<close>).
  \<^item> \<open>Socket_Platform\<close>, \<open>Transport\<close>, \<open>Tcp_Connection\<close>, \<open>Net_Properties\<close>: sockets, end points, the resolver
    and \<open>TcpConnection\<close>; the locales \<open>transport\<close> and \<open>timed_transport\<close> are the contract the client
    relies on, interpreted on the model of \<open>TcpConnection\<close>.
  \<^item> \<open>Platform_Ports\<close>: the Windows branch over the calls of Winsock (\<open>winsock\<close>), the start and the end of
    Winsock, and the branch for systems with \<open>SO_NOSIGPIPE\<close>.  Each Windows operation does what the POSIX
    operation of its name does on the system \<open>as_posix\<close> makes of Winsock (\<open>windows_refines_posix\<close>), so
    what is shown of the client for any \<open>os\<close> is said of Winsock too, for waits of up to \<open>INT_MAX\<close>
    milliseconds; the target is x64.
  \<^item> \<open>Client_Model\<close>, \<open>Client_Exchange\<close>, \<open>Redirect_Chain\<close>, \<open>Client_Returns\<close>, \<open>Client_Properties\<close>: \<open>Client\<close>,
    what one exchange does over the contract \<open>timed_transport\<close>, the redirect loop as a chain of hops,
    the termination of calls, and the properties of whole calls.
  \<^item> \<open>Client_Resets\<close>: the same exchange over a system that resets connections where they would have ended, compared
    call by call.
  \<^item> \<open>Client_Replies\<close>: an exchange returns the reply the server wrote.
  \<^item> \<open>Redirect_Outcome\<close>: \<open>browse\<close>, the specification of following redirects as a recursion over requests and
    answers, and the locale \<open>answering_exchange\<close>, in which the loop of \<open>Client::request\<close> refines it.
  \<^item> \<open>Working_Network\<close>, \<open>Client_Succeeds\<close>, \<open>Client_Served\<close>: a network that works (\<open>healthy\<close>) with a peer at the
    other end (the locales \<open>peer\<close> and \<open>delivering_transport\<close>), one exchange over it, and whole calls with the
    reference server there: they come to what \<open>browse\<close> makes of the server's answers, or to a timeout.
  \<^item> \<open>Example_Programs\<close>: the programs of \<open>examples/\<close>.

  \<^bold>\<open>State, effects and errors.\<close>  A class is a record and a method a function of it; a mutable argument is returned
  updated.  A \<open>Result\<close> is a sum, \<open>Inl\<close> the \<open>Error\<close>.  The system calls, their constants, \<open>getaddrinfo\<close>,
  \<open>inet_pton\<close> and the steady clock are the fields of the parameter \<open>os\<close>, over a world of any type; beside the
  world runs a log of the handles opened and closed and the bytes sent and received, which no
  definition of the program reads.  A \<open>NativeSocket\<close> is its handle; where one goes out of scope, its
  destructor is written out.

  \<^bold>\<open>Assumptions\<close> about the system are named and only used where a property needs them: \<open>sane_io\<close> (\<open>send\<close> and
  \<open>recv\<close> transfer at most what they were asked to), \<open>clock_advances\<close> (only finitely many readings of the
  clock fit before a point in time), \<open>finite_stream\<close> (the peers send finitely many bytes), \<open>healthy\<close> (names
  resolve, connections are made, bytes flow between the client and its peer), \<open>sane_winsock\<close> (\<open>SOCKET_ERROR\<close> is the only negative result,
  handles fit 32 bits) and \<open>counts_users\<close> (Winsock counts its users).  Ownership of sockets, redirects and
  parsing need none.

  \<^bold>\<open>Loops.\<close>  A loop over a list or a cursor is a structural recursion or has a measure (the bytes left, the
  redirects left); no fuel is used.  What is undefined in the code, as \<open>pop_back\<close> of an empty vector, is
  \<open>undefined\<close> in the model.  The loops that wait for a peer (\<open>write_loop\<close>, \<open>read_loop\<close>,
  \<open>read_response\<close>) are \<open>partial_function (option)\<close>, where \<open>None\<close> is a call that does not return:
  \<open>io_calls_return\<close> shows that the first two return, \<open>client_request_returns\<close> that a whole call does when the
  peers send finitely many bytes, \<open>calls_are_answered\<close> that it does when a server answers each request, and \<open>interim_flood_never_returns\<close> that it need not otherwise.

  \<^bold>\<open>Integers.\<close>  Handles, ports and tokens are words of 32, 16 and 64 bits.  Sizes are \<open>nat\<close>: the code subtracts
  them only behind a comparison and adds them only below the limits, and the one sum that could
  wrap is treated at its width in \<open>Limits\<close>.  Time is an unbounded \<open>int\<close>: a timeout of some
  292 years, which overflows the clock of the code, is outside the model.

  \<^bold>\<open>Not modelled.\<close>  Exceptions from a failed allocation; the lifetime of the views a \<open>Request\<close> and a \<open>Url\<close>
  borrow (the model takes their contents); the overloads of accessors that differ in references only; a
  Winsock that does not start, within a call of the client (\<open>resolve\<close> and \<open>tcp_connect\<close> use the
  \<open>ensure_network_runtime\<close> of POSIX, which succeeds; the one of Windows stands alone in
  \<open>Platform_Ports\<close>); and, as they hold none of the logic, tests, benchmarks and build files.
\<close>

end
